(* ===== verification/Prelude.thy ===== *)
theory Prelude
  imports Main "HOL-Library.Word"
begin

text \<open>
  Shared vocabulary of the development: the fixed-width integers of the C sources, the
  result type of operations that can go wrong, bounds-checked arrays, counted loops, and the
  generic lemmas on words and lists that the component theories use.

  A C expression can fail to have a value in five ways, the constructors of \<open>fault\<close>:
  an access outside the array it belongs to, a dereference of a null pointer, a dereference of
  an address that holds no object of the type expected there, the kernel's
  \<^verbatim>\<open>Err\<close> macro (it prints and then spins in \<^verbatim>\<open>while(1)\<close>), and a loop that never ends.
\<close>

unbundle bit_operations_syntax

section \<open>Integer types\<close>

type_synonym u8 = "8 word"
type_synonym u16 = "16 word"
type_synonym u32 = "32 word"
type_synonym u64 = "64 word"

section \<open>Results and faults\<close>

datatype fault = Out_Of_Bounds | Null_Pointer | Bad_Pointer | Panic | No_Return

type_synonym 'a res = "fault + 'a"

definition bindr :: "'a res \<Rightarrow> ('a \<Rightarrow> 'b res) \<Rightarrow> 'b res" where
  "bindr m f = (case m of Inl e \<Rightarrow> Inl e | Inr x \<Rightarrow> f x)"

named_theorems res_simps \<open>evaluation of sequenced results\<close>

lemma bindr_Inr [simp, res_simps]: "bindr (Inr x) f = f x"
  and bindr_Inl [simp, res_simps]: "bindr (Inl e) f = Inl e"
  by (simp_all add: bindr_def)

lemma bindr_eq_Inr: "bindr m f = Inr y \<longleftrightarrow> (\<exists>x. m = Inr x \<and> f x = Inr y)"
  by (cases m) auto

lemma bindr_eq_Inl: "bindr m f = Inl e \<longleftrightarrow> m = Inl e \<or> (\<exists>x. m = Inr x \<and> f x = Inl e)"
  by (cases m) auto

lemma bindr_InrE [elim!]:
  assumes "bindr m f = Inr y"
  obtains x where "m = Inr x" "f x = Inr y"
  using assms by (cases m) auto

lemma bindr_assoc: "bindr (bindr m f) g = bindr m (\<lambda>x. bindr (f x) g)"
  by (cases m) auto

lemma bindr_cong [fundef_cong]:
  assumes "m = m'" and "\<And>x. m' = Inr x \<Longrightarrow> f x = f' x"
  shows "bindr m f = bindr m' f'"
  using assms by (cases m') auto

section \<open>Arrays\<close>

text \<open>Reading and writing an array element; an index past the end is a fault, not a value.\<close>

definition aget :: "'a list \<Rightarrow> 'i::len word \<Rightarrow> 'a res" where
  "aget xs i = (if unat i < length xs then Inr (xs ! unat i) else Inl Out_Of_Bounds)"

definition aset :: "'a list \<Rightarrow> 'i::len word \<Rightarrow> 'a \<Rightarrow> 'a list res" where
  "aset xs i v = (if unat i < length xs then Inr (xs[unat i := v]) else Inl Out_Of_Bounds)"

lemma aget_ok [simp]: "unat i < length xs \<Longrightarrow> aget xs i = Inr (xs ! unat i)"
  by (simp add: aget_def)

lemma aset_ok [simp]: "unat i < length xs \<Longrightarrow> aset xs i v = Inr (xs[unat i := v])"
  by (simp add: aset_def)

lemma aget_InrE [elim]:
  assumes "aget xs i = Inr v"
  obtains "unat i < length xs" "v = xs ! unat i"
  using assms by (auto simp: aget_def split: if_splits)

lemma aset_InrE [elim]:
  assumes "aset xs i v = Inr ys"
  obtains "unat i < length xs" "ys = xs[unat i := v]"
  using assms by (auto simp: aset_def split: if_splits)

section \<open>Typed stores\<close>

text \<open>The objects of one C type, by address.\<close>

type_synonym 'a heap = "u64 \<Rightarrow> 'a option"

definition deref :: "'a heap \<Rightarrow> u64 \<Rightarrow> 'a res" where
  "deref h p = (if p = 0 then Inl Null_Pointer
                else case h p of None \<Rightarrow> Inl Bad_Pointer | Some x \<Rightarrow> Inr x)"

lemma deref_ok [simp]: "p \<noteq> 0 \<Longrightarrow> h p = Some x \<Longrightarrow> deref h p = Inr x"
  by (simp add: deref_def)

lemma deref_InrE [elim]:
  assumes "deref h p = Inr x"
  obtains "p \<noteq> 0" "h p = Some x"
  using assms by (auto simp: deref_def split: if_splits option.splits)

lemma deref_null [simp]: "deref h 0 = Inl Null_Pointer"
  by (simp add: deref_def)

section \<open>Words\<close>

lemma take_bit_unat_less: "unat x < 2 ^ n \<Longrightarrow> take_bit n x = x" for x :: "'a::len word"
  by (simp add: word_unat_eq_iff unsigned_take_bit_eq take_bit_nat_eq_self_iff)

lemma word_not_max: "x + 1 \<noteq> 0 \<Longrightarrow> x < - 1" for x :: "'a::len word"
  by (metis add.commute add.right_inverse word_order.not_eq_extremum)

lemma unat_pow2: "n < LENGTH('a) \<Longrightarrow> unat (2 ^ n :: 'a::len word) = 2 ^ n"
proof -
  assume "n < LENGTH('a)"
  then have "take_bit LENGTH('a) ((2::nat) ^ n) = 2 ^ n" by (simp add: take_bit_nat_eq_self_iff)
  moreover have "unat (of_nat (2 ^ n) :: 'a word) = take_bit LENGTH('a) (2 ^ n)" by (simp only: unsigned_of_nat of_nat_id)
  ultimately show ?thesis by simp
qed

lemma unat_of_nat_small: "k < 2 ^ LENGTH('a) \<Longrightarrow> unat (of_nat k :: 'a::len word) = k"
  by (simp add: unsigned_of_nat take_bit_nat_eq_self_iff)

lemma unat_uminus: "x \<noteq> 0 \<Longrightarrow> unat (- x) = 2 ^ LENGTH('a) - unat x" for x :: "'a::len word"
proof -
  have *: "s = n" if "n dvd s" "0 < s" "s < 2 * n" for s n :: nat
    using that by (auto elim!: dvdE)
  assume "x \<noteq> 0"
  have "(unat x + unat (- x)) mod 2 ^ LENGTH('a) = unat (x + - x)"
    by (simp only: unat_word_ariths(1))
  then have "2 ^ LENGTH('a) dvd unat x + unat (- x)" by (simp add: dvd_eq_mod_eq_0)
  moreover have "0 < unat x + unat (- x)" using \<open>x \<noteq> 0\<close> by (simp add: unat_gt_0)
  moreover have "unat x + unat (- x) < 2 * 2 ^ LENGTH('a)"
    using unsigned_less [of x, where ?'a = nat] unsigned_less [of "- x", where ?'a = nat] by linarith
  ultimately have "unat x + unat (- x) = 2 ^ LENGTH('a)" by (rule *)
  then show ?thesis by linarith
qed

lemma unat_diff_swap: "a \<noteq> b \<Longrightarrow> unat (b - a) = 2 ^ LENGTH('a) - unat (a - b)" for a b :: "'a::len word"
  using unat_uminus [of "a - b"] by simp

text \<open>Widening keeps the value, and narrowing what fits loses nothing.\<close>

lemma unat_ucast_up: "LENGTH('a) \<le> LENGTH('b) \<Longrightarrow> unat (ucast x :: 'b::len word) = unat x" for x :: "'a::len word"
  by (simp add: unsigned_ucast_eq take_bit_nat_eq_self order_less_le_trans [OF unsigned_less])

lemma ucast_up_eq: "LENGTH('a) \<le> LENGTH('b) \<Longrightarrow> (ucast x :: 'b::len word) = ucast y \<longleftrightarrow> x = y"
  for x y :: "'a::len word"
  by (metis unat_ucast_up word_unat_eq_iff)

lemma ucast_ucast_fits: "unat x < 2 ^ LENGTH('b) \<Longrightarrow> ucast (ucast x :: 'b::len word) = x" for x :: "'a::len word"
proof -
  assume "unat x < 2 ^ LENGTH('b)"
  then have *: "take_bit LENGTH('b) x = x" by (rule take_bit_unat_less)
  have "ucast (ucast x :: 'b word) = take_bit LENGTH('b) x"
    by (rule bit_word_eqI) (auto simp: bit_simps)
  with * show ?thesis by simp
qed

text \<open>Signed comparison of words in the non-negative half.\<close>

lemma sint_small: "unat x < 2 ^ (LENGTH('a) - 1) \<Longrightarrow> sint x = int (unat x)" for x :: "'a::len word"
proof -
  assume "unat x < 2 ^ (LENGTH('a) - 1)"
  then have "int (unat x) < 2 ^ (LENGTH('a) - 1)" by (metis of_nat_less_numeral_power_cancel_iff)
  moreover have "- (2 ^ (LENGTH('a) - 1)) \<le> (0 :: int)" by simp
  ultimately show ?thesis
    by (simp add: sint_uint signed_take_bit_int_eq_self order_trans [OF _ unsigned_greater_eq])
qed

lemma sle_small:
  "unat x < 2 ^ (LENGTH('a) - 1) \<Longrightarrow> unat y < 2 ^ (LENGTH('a) - 1) \<Longrightarrow> x \<le>s y \<longleftrightarrow> x \<le> y"
  "unat x < 2 ^ (LENGTH('a) - 1) \<Longrightarrow> unat y < 2 ^ (LENGTH('a) - 1) \<Longrightarrow> x <s y \<longleftrightarrow> x < y"
  for x y :: "'a::len word"
  by (simp_all add: word_sle_eq word_sless_alt sint_small word_le_nat_alt word_less_nat_alt del: of_nat_unat)

section \<open>Counted loops\<close>

text \<open>
  \<^verbatim>\<open>for (i = lo; i < hi; i++) body\<close> with the body as a state transformer that may fault.
\<close>

lemma word_Suc_less:
  fixes i n :: "'a::len word"
  assumes "i < n"
  shows "unat (i + 1) = Suc (unat i)" and "unat (n - (i + 1)) < unat (n - i)"
proof -
  have lt: "unat i < unat n" using assms by (simp add: word_less_nat_alt)
  have "unat n < 2 ^ LENGTH('a)" by (rule unsigned_less)
  with lt have "Suc (unat i) < 2 ^ LENGTH('a)" by linarith
  then show *: "unat (i + 1) = Suc (unat i)" by (simp add: unat_word_ariths)
  have "i + 1 \<le> n" using lt * by (simp add: word_le_nat_alt)
  then have "unat (n - (i + 1)) = unat n - unat (i + 1)" by (rule unat_sub)
  moreover have "unat (n - i) = unat n - unat i" using assms by (simp add: unat_sub less_imp_le)
  ultimately show "unat (n - (i + 1)) < unat (n - i)" using lt * by simp
qed

lemma less_Suc_word: "j < n \<Longrightarrow> k < j + 1 \<longleftrightarrow> k < j \<or> k = j" for j k n :: "'a::len word"
  using word_Suc_less(1) [of j n] by (auto simp: word_less_nat_alt less_Suc_eq word_unat_eq_iff)

lemma word_up_less: "i + 1 \<noteq> 0 \<Longrightarrow> unat (- 2 - i) < unat (- 1 - i)" for i :: "'a::len word"
  using word_Suc_less(2) [OF word_not_max, of i] by simp

function for_range :: "'i::len word \<Rightarrow> 'i word \<Rightarrow> ('i word \<Rightarrow> 's \<Rightarrow> 's res) \<Rightarrow> 's \<Rightarrow> 's res" where
  "for_range i n body s =
     (if i < n then bindr (body i s) (for_range (i + 1) n body) else Inr s)"
  by pat_completeness auto
termination
  by (relation "measure (\<lambda>(i, n, body, s). unat (n - i))") (simp_all add: word_Suc_less)

declare for_range.simps [simp del]

lemma for_range_done [simp]: "\<not> i < n \<Longrightarrow> for_range i n body s = Inr s"
  by (simp add: for_range.simps)

lemma for_range_step: "i < n \<Longrightarrow> for_range i n body s = bindr (body i s) (for_range (i + 1) n body)"
  by (simp add: for_range.simps)

text \<open>The loop rule: an invariant of the counter and the state, total correctness.\<close>

lemma for_range_inv:
  assumes "i \<le> n" and "P i s"
    and step: "\<And>j t. i \<le> j \<Longrightarrow> j < n \<Longrightarrow> P j t \<Longrightarrow> \<exists>t'. body j t = Inr t' \<and> P (j + 1) t'"
  shows "\<exists>s'. for_range i n body s = Inr s' \<and> P n s'"
  using assms
proof (induction i n body s rule: for_range.induct)
  case (1 i n body s)
  show ?case
  proof (cases "i < n")
    case True
    then obtain t where t: "body i s = Inr t" "P (i + 1) t"
      using "1.prems" by blast
    have le: "i + 1 \<le> n" and ii: "i \<le> i + 1"
      using True word_Suc_less(1) [OF True] by (simp_all add: word_le_nat_alt word_less_nat_alt)
    have "\<exists>s'. for_range (i + 1) n body t = Inr s' \<and> P n s'"
    proof (rule "1.IH" [OF True t(1) le t(2)])
      fix j u assume "i + 1 \<le> j" "j < n" "P j u"
      with ii show "\<exists>t'. body j u = Inr t' \<and> P (j + 1) t'"
        by (meson "1.prems"(3) order_trans)
    qed
    with True t show ?thesis by (simp add: for_range_step)
  next
    case False
    with "1.prems"(1) have "i = n" by simp
    with "1.prems"(2) False show ?thesis by simp
  qed
qed

text \<open>The same rule for runs that end: partial correctness.\<close>

lemma for_range_partial:
  assumes "for_range i n body s = Inr s'" "i \<le> n" "P i s"
    and "\<And>j t t'. i \<le> j \<Longrightarrow> j < n \<Longrightarrow> P j t \<Longrightarrow> body j t = Inr t' \<Longrightarrow> P (j + 1) t'"
  shows "P n s'"
  using assms
proof (induction i n body s rule: for_range.induct)
  case (1 i n body s)
  show ?case
  proof (cases "i < n")
    case True
    then obtain t where t: "body i s = Inr t" "for_range (i + 1) n body t = Inr s'"
      using "1.prems"(1) by (auto simp: for_range_step)
    have le: "i + 1 \<le> n" and ii: "i \<le> i + 1"
      using True word_Suc_less(1) [OF True] by (simp_all add: word_le_nat_alt word_less_nat_alt)
    have "P (j + 1) u'" if "i + 1 \<le> j" "j < n" "P j u" "body j u = Inr u'" for j u u'
      using "1.prems"(4) that ii by (meson order_trans)
    moreover have "P (i + 1) t" using "1.prems"(3,4) True t(1) by blast
    ultimately show ?thesis using "1.IH" [OF True t(1) t(2) le] by blast
  next
    case False
    with "1.prems"(1,2) have "i = n" "s' = s" by simp_all
    with "1.prems"(3) show ?thesis by simp
  qed
qed

text \<open>The same loop when the body cannot fault, and its counterpart that counts down.\<close>

function count_up :: "'i::len word \<Rightarrow> 'i word \<Rightarrow> ('i word \<Rightarrow> 's \<Rightarrow> 's) \<Rightarrow> 's \<Rightarrow> 's" where
  "count_up i n body s = (if i < n then count_up (i + 1) n body (body i s) else s)"
  by pat_completeness auto
termination
  by (relation "measure (\<lambda>(i, n, body, s). unat (n - i))") (simp_all add: word_Suc_less)

function count_down :: "'i::len word \<Rightarrow> ('i word \<Rightarrow> 's \<Rightarrow> 's) \<Rightarrow> 's \<Rightarrow> 's" where
  "count_down i body s = (if i = 0 then s else count_down (i - 1) body (body i s))"
  by pat_completeness auto
termination
  by (relation "measure (\<lambda>(i, body, s). unat i)") (simp_all add: unat_minus_one unat_gt_0)

declare count_up.simps [simp del] count_down.simps [simp del]

lemma count_up_inv:
  assumes "i \<le> n" and "P i s" and "\<And>j t. i \<le> j \<Longrightarrow> j < n \<Longrightarrow> P j t \<Longrightarrow> P (j + 1) (body j t)"
  shows "P n (count_up i n body s)"
proof -
  have "\<exists>s'. for_range i n (\<lambda>j t. Inr (body j t)) s = Inr s' \<and> P n s' \<and> s' = count_up i n body s"
    using assms
  proof (induction i n body s rule: count_up.induct)
    case (1 i n body s)
    show ?case
    proof (cases "i < n")
      case True
      have le: "i + 1 \<le> n" and ii: "i \<le> i + 1"
        using True word_Suc_less(1) [OF True] by (simp_all add: word_le_nat_alt word_less_nat_alt)
      have "P (i + 1) (body i s)" using "1.prems" True by blast
      moreover have "P (j + 1) (body j t)" if "i + 1 \<le> j" "j < n" "P j t" for j t
        using "1.prems"(3) that ii by (meson order_trans)
      ultimately show ?thesis
        using "1.IH" [OF True le] True by (simp add: for_range_step count_up.simps [of i])
    next
      case False
      with "1.prems"(1) have "i = n" by simp
      with "1.prems"(2) show ?thesis by (simp add: count_up.simps)
    qed
  qed
  then show ?thesis by blast
qed

lemma count_down_inv:
  assumes "P i s" and "\<And>j t. j \<le> i \<Longrightarrow> j \<noteq> 0 \<Longrightarrow> P j t \<Longrightarrow> P (j - 1) (body j t)"
  shows "P 0 (count_down i body s)"
  using assms
proof (induction i body s rule: count_down.induct)
  case (1 i body s)
  show ?case
  proof (cases "i = 0")
    case False
    then have "i - 1 \<le> i" by (simp add: word_le_nat_alt unat_minus_one)
    then have "P (j - 1) (body j t)" if "j \<le> i - 1" "j \<noteq> 0" "P j t" for j t
      using "1.prems"(2) that by (meson order_trans)
    moreover have "P (i - 1) (body i s)" using "1.prems" False by blast
    ultimately show ?thesis using "1.IH" [OF False] False by (simp add: count_down.simps [of i])
  qed (use "1.prems"(1) in \<open>simp add: count_down.simps\<close>)
qed

end
