(* ===== verification/Layout.thy ===== *)
theory Layout
  imports Prelude
begin

text \<open>
  The constants and address macros of \<^verbatim>\<open>arch/riscv/include/defs.h\<close> and of the head of
  \<^verbatim>\<open>arch/riscv/kernel/mm.c\<close>: physical and virtual layout, page arithmetic, the permission bits
  of a page-table entry, and the conversions between page frame numbers, physical addresses and
  direct-map addresses.
\<close>

named_theorems layout \<open>definitions of the address-layout constants\<close>

definition PHY_START :: u64 where [layout]: "PHY_START = 0x80000000"
definition PHY_SIZE :: u64 where [layout]: "PHY_SIZE = 128 * 1024 * 1024"
definition PGSIZE :: u64 where [layout]: "PGSIZE = 0x1000"
definition PGSHIFT :: nat where [layout]: "PGSHIFT = 12"
definition VM_START :: u64 where [layout]: "VM_START = 0xffffffe000000000"
definition PA2VA_OFFSET :: u64 where [layout]: "PA2VA_OFFSET = VM_START - PHY_START"
definition USER_START :: u64 where [layout]: "USER_START = 0"
definition USER_END :: u64 where [layout]: "USER_END = 0x4000000000"

definition PGROUNDUP :: "u64 \<Rightarrow> u64" where
  "PGROUNDUP addr = (addr + PGSIZE - 1) AND NOT (PGSIZE - 1)"

definition PGROUNDDOWN :: "u64 \<Rightarrow> u64" where
  "PGROUNDDOWN addr = addr AND NOT (PGSIZE - 1)"

definition PERM_V :: u64 where [layout]: "PERM_V = 1"
definition PERM_R :: u64 where [layout]: "PERM_R = 2"
definition PERM_W :: u64 where [layout]: "PERM_W = 4"
definition PERM_X :: u64 where [layout]: "PERM_X = 8"
definition PERM_U :: u64 where [layout]: "PERM_U = 16"
definition PERM_G :: u64 where [layout]: "PERM_G = 32"
definition PERM_A :: u64 where [layout]: "PERM_A = 64"
definition PERM_D :: u64 where [layout]: "PERM_D = 128"
definition PPN_MASK :: u64 where [layout]: "PPN_MASK = 0xfffffffffff"

definition VA2PA :: "u64 \<Rightarrow> u64" where "VA2PA x = x - PA2VA_OFFSET"
definition PA2VA :: "u64 \<Rightarrow> u64" where "PA2VA x = x + PA2VA_OFFSET"
definition PFN2PHYS :: "u64 \<Rightarrow> u64" where "PFN2PHYS x = push_bit 12 x + PHY_START"
definition PHYS2PFN :: "u64 \<Rightarrow> u64" where "PHYS2PFN x = drop_bit 12 (x - PHY_START)"

lemma VA2PA_PA2VA [simp]: "VA2PA (PA2VA x) = x"
  and PA2VA_VA2PA [simp]: "PA2VA (VA2PA x) = x"
  by (simp_all add: VA2PA_def PA2VA_def)

lemma NOT_page_mask: "NOT (PGSIZE - 1) = NOT (mask 12 :: u64)"
  by (simp add: layout mask_eq_decr_exp)

lemma PHYS2PFN_PFN2PHYS:
  assumes "x < 2 ^ 52"
  shows "PHYS2PFN (PFN2PHYS x) = x"
proof -
  have "drop_bit 12 (push_bit 12 x) = take_bit 52 x"
    by (rule bit_word_eqI) (auto simp: bit_simps)
  also have "\<dots> = x" using assms by (intro take_bit_unat_less) (simp add: word_less_nat_alt)
  finally show ?thesis by (simp add: PHYS2PFN_def PFN2PHYS_def)
qed

end
