(* ===== verification/Buddy.thy ===== *)
theory Buddy
  imports Layout
begin

text \<open>
  The physical page allocator of \<^verbatim>\<open>arch/riscv/kernel/mm.c\<close>: the buddy bitmap (a binary heap
  in an array that holds, for every node, the size in pages of the largest free block below it),
  the per-page reference counts, and the page-level interface the rest of the kernel calls.
  The state is the global \<^verbatim>\<open>struct buddy\<close>; its two arrays are lists of 64-bit words that fault
  when indexed out of range.
\<close>

section \<open>State and index arithmetic\<close>

record buddy =
  bsize :: u64
  bitmap :: "u64 list"
  ref_cnt :: "u64 list"

definition LEFT_LEAF :: "u64 \<Rightarrow> u64" where "LEFT_LEAF index = index * 2 + 1"
definition RIGHT_LEAF :: "u64 \<Rightarrow> u64" where "RIGHT_LEAF index = index * 2 + 2"
definition PARENT :: "u64 \<Rightarrow> u64" where "PARENT index = (index + 1) div 2 - 1"
definition IS_POWER_OF_2 :: "u64 \<Rightarrow> bool" where "IS_POWER_OF_2 x \<longleftrightarrow> x AND (x - 1) = 0"

definition fixsize :: "u64 \<Rightarrow> u64" where
  "fixsize sz =
     (let s = sz - 1;
          s = s OR drop_bit 1 s;
          s = s OR drop_bit 2 s;
          s = s OR drop_bit 4 s;
          s = s OR drop_bit 8 s;
          s = s OR drop_bit 16 s;
          s = s OR drop_bit 32 s
      in s + 1)"

section \<open>Allocation\<close>

text \<open>
  The descent \<^verbatim>\<open>for (node_size = buddy.size; node_size != nrpages; node_size /= 2)\<close>. Once
  \<open>node_size\<close> has reached 0 without meeting \<open>nrpages\<close> it stays 0, the index is past the last
  leaf, and the next child read is outside the bitmap.
\<close>

function alloc_descend :: "u64 list \<Rightarrow> u64 \<Rightarrow> u64 \<Rightarrow> u64 \<Rightarrow> (u64 \<times> u64) res" where
  "alloc_descend bm nrpages node_size index =
     (if node_size = nrpages then Inr (node_size, index)
      else if node_size = 0 then Inl Out_Of_Bounds
      else bindr (aget bm (LEFT_LEAF index)) (\<lambda>left.
        if left \<ge> nrpages then alloc_descend bm nrpages (node_size div 2) (LEFT_LEAF index)
        else alloc_descend bm nrpages (node_size div 2) (RIGHT_LEAF index)))"
  by pat_completeness auto
termination
  by (relation "measure (\<lambda>(bm, nrpages, node_size, index). unat node_size)")
     (auto simp: unat_div unat_gt_0)

text \<open>
  \<^verbatim>\<open>while (index) { index = PARENT(index); bitmap[index] = MAX(left, right); }\<close>
  The only word that is its own parent is \<open>2 ^ 64 - 1\<close>: from there the loop never ends.
\<close>

function alloc_update :: "u64 \<Rightarrow> u64 list \<Rightarrow> u64 list res" where
  "alloc_update index bm =
     (if index = 0 then Inr bm
      else if PARENT index \<ge> index then Inl No_Return
      else bindr (aget bm (LEFT_LEAF (PARENT index))) (\<lambda>l.
           bindr (aget bm (RIGHT_LEAF (PARENT index))) (\<lambda>r.
           bindr (aset bm (PARENT index) (max l r)) (\<lambda>bm.
           alloc_update (PARENT index) bm))))"
  by pat_completeness auto
termination
  by (relation "measure (\<lambda>(index, bm). unat index)") (auto simp flip: word_less_nat_alt)

declare alloc_descend.simps [simp del] alloc_update.simps [simp del]

definition buddy_alloc :: "u64 \<Rightarrow> buddy \<Rightarrow> (u64 \<times> buddy) res" where
  "buddy_alloc nrpages b =
     (let nrpages = (if nrpages \<le> 0 then 1
                     else if \<not> IS_POWER_OF_2 nrpages then fixsize nrpages else nrpages)
      in bindr (aget (bitmap b) (0 :: u64)) (\<lambda>top.
         if top < nrpages then Inr (0, b)
         else bindr (alloc_descend (bitmap b) nrpages (bsize b) 0) (\<lambda>(node_size, index).
              bindr (aset (bitmap b) index 0) (\<lambda>bm.
              let pfn = (index + 1) * node_size - bsize b
              in bindr (aset (ref_cnt b) pfn 1) (\<lambda>rc.
                 bindr (alloc_update index bm) (\<lambda>bm.
                 Inr (pfn, b\<lparr>bitmap := bm, ref_cnt := rc\<rparr>)))))))"

section \<open>Release\<close>

text \<open>
  The climb \<^verbatim>\<open>for (; buddy.bitmap[index]; index = PARENT(index))\<close> from the leaf of the page to
  the node that was allocated, the first one on the way whose entry is 0.
\<close>

function free_climb :: "u64 list \<Rightarrow> u64 \<Rightarrow> u64 \<Rightarrow> (u64 \<times> u64) res" where
  "free_climb bm node_size index =
     bindr (aget bm index) (\<lambda>v.
       if v = 0 then Inr (node_size, index)
       else if index = 0 then Inr (node_size * 2, index)
       else if PARENT index \<ge> index then Inl No_Return
       else free_climb bm (node_size * 2) (PARENT index))"
  by pat_completeness auto
termination
  by (relation "measure (\<lambda>(bm, node_size, index). unat index)") (auto simp flip: word_less_nat_alt)

function free_update :: "u64 \<Rightarrow> u64 \<Rightarrow> u64 list \<Rightarrow> u64 list res" where
  "free_update node_size index bm =
     (if index = 0 then Inr bm
      else if PARENT index \<ge> index then Inl No_Return
      else bindr (aget bm (LEFT_LEAF (PARENT index))) (\<lambda>l.
           bindr (aget bm (RIGHT_LEAF (PARENT index))) (\<lambda>r.
           bindr (aset bm (PARENT index)
                    (if l + r = node_size * 2 then node_size * 2 else max l r)) (\<lambda>bm.
           free_update (node_size * 2) (PARENT index) bm))))"
  by pat_completeness auto
termination
  by (relation "measure (\<lambda>(node_size, index, bm). unat index)") (auto simp flip: word_less_nat_alt)

declare free_climb.simps [simp del] free_update.simps [simp del]

definition buddy_free :: "u64 \<Rightarrow> buddy \<Rightarrow> buddy res" where
  "buddy_free pfn b =
     bindr (aget (ref_cnt b) pfn) (\<lambda>rc.
       if rc \<noteq> 0 then Inr b
       else bindr (free_climb (bitmap b) 1 (pfn + bsize b - 1)) (\<lambda>(node_size, index).
            bindr (aset (bitmap b) index node_size) (\<lambda>bm.
            bindr (free_update node_size index bm) (\<lambda>bm.
            Inr (b\<lparr>bitmap := bm\<rparr>)))))"

section \<open>Reference counts\<close>

definition page_ref_inc :: "u64 \<Rightarrow> buddy \<Rightarrow> buddy res" where
  "page_ref_inc pfn b =
     bindr (aget (ref_cnt b) pfn) (\<lambda>n.
     bindr (aset (ref_cnt b) pfn (n + 1)) (\<lambda>rc. Inr (b\<lparr>ref_cnt := rc\<rparr>)))"

definition page_ref_dec :: "u64 \<Rightarrow> buddy \<Rightarrow> buddy res" where
  "page_ref_dec pfn b =
     bindr (aget (ref_cnt b) pfn) (\<lambda>n.
     bindr (if n > 0 then bindr (aset (ref_cnt b) pfn (n - 1)) (\<lambda>rc. Inr (b\<lparr>ref_cnt := rc\<rparr>))
            else Inr b) (\<lambda>b.
     bindr (aget (ref_cnt b) pfn) (\<lambda>n.
     if n = 0 then buddy_free pfn b else Inr b)))"

definition get_page :: "u64 \<Rightarrow> buddy \<Rightarrow> (u64 \<times> buddy) res" where
  "get_page va b =
     (let pfn = PHYS2PFN (VA2PA va)
      in bindr (aget (ref_cnt b) pfn) (\<lambda>n.
         if n = 0 then Inr (1, b)
         else bindr (page_ref_inc pfn b) (\<lambda>b. Inr (0, b))))"

definition get_page_refcnt :: "u64 \<Rightarrow> buddy \<Rightarrow> u64 res" where
  "get_page_refcnt va b = (let pfn = PHYS2PFN (VA2PA va) in aget (ref_cnt b) pfn)"

definition put_page :: "u64 \<Rightarrow> buddy \<Rightarrow> buddy res" where
  "put_page va b = (let pfn = PHYS2PFN (VA2PA va) in page_ref_dec pfn b)"

section \<open>Page-level interface\<close>

definition alloc_pages :: "u64 \<Rightarrow> buddy \<Rightarrow> (u64 \<times> buddy) res" where
  "alloc_pages nrpages b =
     bindr (buddy_alloc nrpages b) (\<lambda>(pfn, b).
       if pfn = 0 then Inr (0, b) else Inr (PA2VA (PFN2PHYS pfn), b))"

definition alloc_page :: "buddy \<Rightarrow> (u64 \<times> buddy) res" where
  "alloc_page b = alloc_pages 1 b"

definition free_pages :: "u64 \<Rightarrow> buddy \<Rightarrow> buddy res" where
  "free_pages va b = buddy_free (PHYS2PFN (VA2PA va)) b"

definition kalloc :: "buddy \<Rightarrow> (u64 \<times> buddy) res" where
  "kalloc b = alloc_page b"

definition kfree :: "u64 \<Rightarrow> buddy \<Rightarrow> buddy res" where
  "kfree addr b = free_pages addr b"

text \<open>A range that reaches the top of the address space makes the pointer wrap.\<close>

function free_range_loop :: "u64 \<Rightarrow> u64 \<Rightarrow> buddy \<Rightarrow> buddy res" where
  "free_range_loop addr stop b =
     (if addr + PGSIZE < addr then Inl Out_Of_Bounds
      else if addr + PGSIZE \<le> stop
      then bindr (kfree addr b) (free_range_loop (addr + PGSIZE) stop)
      else Inr b)"
  by pat_completeness auto
termination
proof (relation "measure (\<lambda>(addr, stop, b). unat (stop - addr))", simp, clarsimp)
  fix addr stop :: u64
  assume *: "\<not> addr + PGSIZE < addr" "addr + PGSIZE \<le> stop"
  then have "addr \<le> stop" by auto
  moreover have "addr < addr + PGSIZE" using *(1) by (simp add: layout order_less_le)
  ultimately show "unat (stop - (addr + PGSIZE)) < unat (stop - addr)"
    using * by (simp add: unat_sub word_less_nat_alt word_le_nat_alt)
qed

declare free_range_loop.simps [simp del]

definition kfreerange :: "u64 \<Rightarrow> u64 \<Rightarrow> buddy \<Rightarrow> buddy res" where
  "kfreerange start stop b = free_range_loop (PGROUNDUP start) stop b"

section \<open>Initialisation\<close>

text \<open>
  \<^verbatim>\<open>buddy_init\<close> carves the two arrays out of the memory after the kernel image
  (\<open>free_page_start\<close>, initially \<^verbatim>\<open>_ekernel\<close>), fills the bitmap level by level, and then
  allocates single pages until the image and the arrays are covered. If the counter of that last
  loop came round to 0 the loop would start over and never end.
\<close>

function reserve_loop :: "u64 \<Rightarrow> u64 \<Rightarrow> buddy \<Rightarrow> buddy res" where
  "reserve_loop pfn limit b =
     (if PFN2PHYS pfn < limit
      then if pfn + 1 = 0 then Inl No_Return
           else bindr (buddy_alloc 1 b) (\<lambda>(_, b). reserve_loop (pfn + 1) limit b)
      else Inr b)"
  by pat_completeness auto
termination
proof (relation "measure (\<lambda>(pfn, limit, b). unat (- 1 - pfn))", goal_cases)
  case (2 pfn limit b)
  then show ?case using word_Suc_less(2) [OF word_not_max, of pfn] by simp
qed simp

declare reserve_loop.simps [simp del]

definition fill_node :: "u64 \<Rightarrow> u64 \<times> u64 list \<Rightarrow> (u64 \<times> u64 list) res" where
  "fill_node i st =
     (let ns = (if IS_POWER_OF_2 (i + 1) then fst st div 2 else fst st)
      in bindr (aset (snd st) i ns) (\<lambda>bm. Inr (ns, bm)))"

definition buddy_setup :: "u64 \<Rightarrow> u64 \<Rightarrow> (buddy \<times> u64) res" where
  "buddy_setup sz free_page_start =
     (let bm = replicate (unat (2 * sz)) 0;
          fps = free_page_start + 2 * sz * 8;
          rc = replicate (unat sz) 0;
          fps = fps + sz * 8
      in bindr (for_range 0 (2 * sz - 1) fill_node (sz * 2, bm)) (\<lambda>(_, bm).
         bindr (reserve_loop 0 (VA2PA fps) \<lparr>bsize = sz, bitmap = bm, ref_cnt = rc\<rparr>) (\<lambda>b.
         Inr (b, fps))))"

definition buddy_init :: "u64 \<Rightarrow> (buddy \<times> u64) res" where
  "buddy_init free_page_start =
     (let sz = PHY_SIZE div PGSIZE;
          sz = (if \<not> IS_POWER_OF_2 sz then fixsize sz else sz)
      in buddy_setup sz free_page_start)"

end
