(* ===== verification/Buddy_Tree.thy ===== *)
theory Buddy_Tree
  imports Buddy
begin

text \<open>
  The abstract view of the page allocator: a binary tree of free blocks, allocated blocks and
  split blocks. This theory proves what allocation and release do on the tree (blocks are
  aligned, disjoint, first found on the left, merged again when both halves are free) and gives
  the relation \<open>repr\<close> between a tree and the heap-shaped bitmap of \<^verbatim>\<open>struct buddy\<close>.
\<close>

section \<open>Block trees\<close>

datatype btree = Free | Used | Split btree btree

fun kids :: "btree \<Rightarrow> btree \<times> btree" where
  "kids (Split l r) = (l, r)"
| "kids _ = (Free, Free)"

text \<open>Size in pages of the largest free block below a node of level \<open>k\<close>.\<close>

fun longest :: "nat \<Rightarrow> btree \<Rightarrow> nat" where
  "longest k Free = 2 ^ k"
| "longest k Used = 0"
| "longest k (Split l r) = max (longest (k - 1) l) (longest (k - 1) r)"

text \<open>Well-formed: no deeper than its level, and two free halves are always merged.\<close>

fun wf_tree :: "nat \<Rightarrow> btree \<Rightarrow> bool" where
  "wf_tree (Suc k) (Split l r) \<longleftrightarrow> wf_tree k l \<and> wf_tree k r \<and> \<not> (l = Free \<and> r = Free)"
| "wf_tree 0 (Split l r) \<longleftrightarrow> False"
| "wf_tree _ _ \<longleftrightarrow> True"

text \<open>Allocated blocks, as (first page, level), of a tree whose first page is \<open>a\<close>.\<close>

fun blocks :: "nat \<Rightarrow> nat \<Rightarrow> btree \<Rightarrow> (nat \<times> nat) set" where
  "blocks k a Free = {}"
| "blocks k a Used = {(a, k)}"
| "blocks k a (Split l r) = blocks (k - 1) a l \<union> blocks (k - 1) (a + 2 ^ (k - 1)) r"

definition pages :: "nat \<times> nat \<Rightarrow> nat set" where
  "pages bl = {fst bl ..< fst bl + 2 ^ snd bl}"

fun tree_alloc :: "nat \<Rightarrow> nat \<Rightarrow> btree \<Rightarrow> nat \<times> btree" where
  "tree_alloc 0 n t = (0, Used)"
| "tree_alloc (Suc k) n t =
     (if Suc k = n then (0, Used)
      else case kids t of (l, r) \<Rightarrow>
        if 2 ^ n \<le> longest k l
        then (case tree_alloc k n l of (p, l') \<Rightarrow> (p, Split l' r))
        else (case tree_alloc k n r of (p, r') \<Rightarrow> (2 ^ k + p, Split l r')))"

fun merge :: "btree \<Rightarrow> btree \<Rightarrow> btree" where
  "merge l r = (if l = Free \<and> r = Free then Free else Split l r)"

fun tree_free :: "nat \<Rightarrow> nat \<Rightarrow> btree \<Rightarrow> btree" where
  "tree_free (Suc k) p (Split l r) =
     (if p < 2 ^ k then merge (tree_free k p l) r else merge l (tree_free k (p - 2 ^ k) r))"
| "tree_free _ _ _ = Free"

section \<open>Properties of the tree operations\<close>

lemma longest_le: "wf_tree k t \<Longrightarrow> longest k t \<le> 2 ^ k"
proof (induction k t rule: wf_tree.induct)
  case (1 k l r)
  then show ?case by (auto intro: le_trans [of _ "2 ^ k"])
qed auto

lemma longest_full: "wf_tree k t \<Longrightarrow> longest k t = 2 ^ k \<longleftrightarrow> t = Free"
proof (induction k t rule: wf_tree.induct)
  case (1 k l r)
  then have "longest k l \<le> 2 ^ k" "longest k r \<le> 2 ^ k" by (auto intro: longest_le)
  moreover have "(2::nat) ^ k < 2 ^ Suc k" by simp
  ultimately have "longest (Suc k) (Split l r) < 2 ^ Suc k"
    by (simp only: longest.simps diff_Suc_1 max_less_iff_conj) linarith
  then show ?case by (metis btree.distinct(3) less_irrefl)
qed auto

lemma wf_kids: "wf_tree (Suc k) t \<Longrightarrow> kids t = (l, r) \<Longrightarrow> wf_tree k l \<and> wf_tree k r"
  by (cases t) (auto elim: wf_tree.elims)

lemma longest_kids:
  assumes "kids t = (l, r)" "t \<noteq> Used" "n \<le> k"
  shows "2 ^ n \<le> longest (Suc k) t \<longleftrightarrow> 2 ^ n \<le> longest k l \<or> 2 ^ n \<le> longest k r"
proof -
  have "(2::nat) ^ n \<le> 2 ^ k" using assms(3) by simp
  then have "(2::nat) ^ n \<le> 2 * 2 ^ k" by linarith
  with assms show ?thesis by (cases t) (auto simp: le_max_iff_disj)
qed

lemma blocks_kids:
  "kids t = (l, r) \<Longrightarrow> t \<noteq> Used \<Longrightarrow>
   blocks (Suc k) a t = blocks k a l \<union> blocks k (a + 2 ^ k) r"
  by (cases t) auto

lemma blocks_bounds: "wf_tree k t \<Longrightarrow> x \<in> blocks k a t \<Longrightarrow> a \<le> fst x \<and> fst x + 2 ^ snd x \<le> a + 2 ^ k"
proof (induction k t arbitrary: a rule: wf_tree.induct)
  case (1 k l r)
  from "1.prems"(2) consider "x \<in> blocks k a l" | "x \<in> blocks k (a + 2 ^ k) r" by auto
  then show ?case using 1 by cases fastforce+
qed auto

lemma blocks_level: "wf_tree k t \<Longrightarrow> x \<in> blocks k a t \<Longrightarrow> snd x \<le> k"
proof (induction k t arbitrary: a rule: wf_tree.induct)
  case (1 k l r)
  from "1.prems"(2) consider "x \<in> blocks k a l" | "x \<in> blocks k (a + 2 ^ k) r" by auto
  then have "snd x \<le> k" using 1 by cases auto
  then show ?case by simp
qed auto

lemma blocks_aligned: "wf_tree k t \<Longrightarrow> 2 ^ k dvd a \<Longrightarrow> x \<in> blocks k a t \<Longrightarrow> 2 ^ snd x dvd fst x"
proof (induction k t arbitrary: a rule: wf_tree.induct)
  case (1 k l r)
  have "(2::nat) ^ k dvd 2 ^ Suc k" by simp
  then have al: "2 ^ k dvd a" "2 ^ k dvd a + 2 ^ k"
    using "1.prems"(2) by (auto intro: dvd_trans)
  have wl: "wf_tree k l" "wf_tree k r" using "1.prems"(1) by simp_all
  from "1.prems"(3) consider "x \<in> blocks k a l" | "x \<in> blocks k (a + 2 ^ k) r" by auto
  then show ?case
    using "1.IH"(1) [OF wl(1) al(1)] "1.IH"(2) [OF wl(2) al(2)] by cases auto
qed auto

lemma blocks_nonempty: "wf_tree k t \<Longrightarrow> blocks k a t = {} \<longleftrightarrow> t = Free"
  by (induction k t arbitrary: a rule: wf_tree.induct) auto

lemma blocks_shift: "(b + s, m) \<in> blocks k (b + a) t \<longleftrightarrow> (s, m) \<in> blocks k a t"
  by (induction t arbitrary: k a) (auto simp: add.assoc)

lemma pages_disjointI: "fst x + 2 ^ snd x \<le> fst y \<Longrightarrow> pages x \<inter> pages y = {} \<and> pages y \<inter> pages x = {}"
  by (auto simp: pages_def)

text \<open>Any two allocated blocks of a tree are disjoint.\<close>

lemma blocks_disjoint:
  assumes "wf_tree k t" "x \<in> blocks k a t" "y \<in> blocks k a t" "x \<noteq> y"
  shows "pages x \<inter> pages y = {}"
  using assms
proof (induction k t arbitrary: a rule: wf_tree.induct)
  case (1 k l r)
  have side: "pages u \<inter> pages v = {} \<and> pages v \<inter> pages u = {}"
    if "u \<in> blocks k a l" "v \<in> blocks k (a + 2 ^ k) r" for u v
    using that 1(3) blocks_bounds [of k l u a] blocks_bounds [of k r v "a + 2 ^ k"]
    by (intro pages_disjointI) auto
  have wl: "wf_tree k l" "wf_tree k r" using "1.prems"(1) by simp_all
  from "1.prems"(2,3) consider
      "x \<in> blocks k a l" "y \<in> blocks k a l" | "x \<in> blocks k a l" "y \<in> blocks k (a + 2 ^ k) r"
    | "x \<in> blocks k (a + 2 ^ k) r" "y \<in> blocks k a l"
    | "x \<in> blocks k (a + 2 ^ k) r" "y \<in> blocks k (a + 2 ^ k) r" by auto
  then show ?case
    using "1.IH"(1) [OF wl(1) _ _ "1.prems"(4)] "1.IH"(2) [OF wl(2) _ _ "1.prems"(4)] side
    by cases blast+
qed auto

text \<open>
  Allocation succeeds whenever \<open>longest\<close> says so: the new block is aligned, lies in the tree,
  overlaps no allocated block, and nothing else changes.
\<close>

lemma tree_alloc_exact: "wf_tree n t \<Longrightarrow> 2 ^ n \<le> longest n t \<Longrightarrow> t = Free"
  using longest_full [of n t] longest_le [of n t] by simp

lemma tree_alloc_wf:
  assumes "wf_tree k t" "n \<le> k" "2 ^ n \<le> longest k t" "tree_alloc k n t = (p, t')"
  shows "wf_tree k t' \<and> t' \<noteq> Free"
  using assms
proof (induction k n t arbitrary: p t' rule: tree_alloc.induct)
  case (2 k n t)
  obtain l r where lr: "kids t = (l, r)" by fastforce
  have nu: "t \<noteq> Used" using "2.prems"(3) by auto
  have wl: "wf_tree k l" "wf_tree k r" using wf_kids [OF "2.prems"(1) lr] by simp_all
  show ?case
  proof (cases "Suc k = n")
    case False
    then have nk: "n \<le> k" using "2.prems"(2) by simp
    show ?thesis
      using "2.IH" [OF False lr [symmetric]] "2.prems"(4) False lr wl nk
        longest_kids [OF lr nu nk] "2.prems"(3)
      by (auto split: if_splits prod.splits)
  qed (use "2.prems" in auto)
qed auto

lemma tree_alloc_blocks:
  assumes "wf_tree k t" "n \<le> k" "2 ^ n \<le> longest k t" "tree_alloc k n t = (p, t')"
  shows "blocks k a t' = insert (a + p, n) (blocks k a t)"
  using assms
proof (induction k n t arbitrary: a p t' rule: tree_alloc.induct)
  case (1 n t)
  then show ?case using tree_alloc_exact [of 0 t] by auto
next
  case (2 k n t)
  obtain l r where lr: "kids t = (l, r)" by fastforce
  have nu: "t \<noteq> Used" using "2.prems"(3) by auto
  have wl: "wf_tree k l" "wf_tree k r" using wf_kids [OF "2.prems"(1) lr] by simp_all
  show ?case
  proof (cases "Suc k = n")
    case True
    then show ?thesis using tree_alloc_exact [of n t] "2.prems" by auto
  next
    case False
    then have nk: "n \<le> k" using "2.prems"(2) by simp
    show ?thesis
      using "2.IH" [OF False lr [symmetric]] "2.prems"(4) False lr wl nk
        longest_kids [OF lr nu nk] "2.prems"(3) blocks_kids [OF lr nu, of k a]
      by (auto split: if_splits prod.splits simp: add.assoc)
  qed
qed

lemma tree_alloc_disjoint:
  assumes "wf_tree k t" "n \<le> k" "2 ^ n \<le> longest k t" "tree_alloc k n t = (p, t')"
    and "x \<in> blocks k a t"
  shows "pages (a + p, n) \<inter> pages x = {}"
  using assms
proof (induction k n t arbitrary: a p t' rule: tree_alloc.induct)
  case (1 n t)
  then show ?case using tree_alloc_exact [of 0 t] by auto
next
  case (2 k n t)
  obtain l r where lr: "kids t = (l, r)" by fastforce
  have nu: "t \<noteq> Used" using "2.prems"(3) by auto
  have wl: "wf_tree k l" "wf_tree k r" using wf_kids [OF "2.prems"(1) lr] by simp_all
  show ?case
  proof (cases "Suc k = n")
    case True
    then show ?thesis using tree_alloc_exact [of n t] "2.prems" by auto
  next
    case False
    then have nk: "n \<le> k" using "2.prems"(2) by simp
    show ?thesis
    proof (cases "2 ^ n \<le> longest k l")
      case True
      then obtain l' where l': "tree_alloc k n l = (p, l')"
        using "2.prems"(4) False lr by (auto split: prod.splits)
      have "(a + p, n) \<in> blocks k a l'"
        using tree_alloc_blocks [OF wl(1) nk True l'] by simp
      then have "a + p + 2 ^ n \<le> a + 2 ^ k"
        using blocks_bounds [of k l'] tree_alloc_wf [OF wl(1) nk True l'] by fastforce
      then show ?thesis
        using "2.IH"(1) [OF False lr [symmetric] True wl(1) nk True l']
          "2.prems"(5) blocks_kids [OF lr nu] blocks_bounds [OF wl(2), of x "a + 2 ^ k"]
          pages_disjointI [of "(a + p, n)" x] by auto
    next
      case no: False
      then obtain q r' where r': "tree_alloc k n r = (q, r')" "p = 2 ^ k + q"
        using "2.prems"(4) False lr by (auto split: prod.splits)
      have ok: "2 ^ n \<le> longest k r" using no "2.prems"(3) longest_kids [OF lr nu nk] by simp
      show ?thesis
        using "2.IH"(2) [OF False lr [symmetric] no wl(2) nk ok r'(1), of "a + 2 ^ k"]
          "2.prems"(5) blocks_kids [OF lr nu] blocks_bounds [OF wl(1), of x a]
          pages_disjointI [of x "(a + p, n)"] r'(2) by (auto simp: add.assoc)
    qed
  qed
qed

lemma tree_alloc_bound:
  assumes "wf_tree k t" "n \<le> k" "2 ^ n \<le> longest k t" "tree_alloc k n t = (p, t')"
  shows "p + 2 ^ n \<le> 2 ^ k"
proof -
  have "(0 + p, n) \<in> blocks k 0 t'" using tree_alloc_blocks [OF assms, of 0] by simp
  then show ?thesis using blocks_bounds [of k t' "(p, n)" 0] tree_alloc_wf [OF assms] by simp
qed

text \<open>
  Completeness: when allocation is refused there is no aligned run of that many pages that
  avoids the allocated blocks.
\<close>

lemma aligned_side:
  assumes "(2::nat) ^ n dvd a + 2 ^ k" "2 ^ n dvd s" "s < a + 2 ^ k"
  shows "s + 2 ^ n \<le> a + 2 ^ k"
proof -
  have "2 ^ n dvd (a + 2 ^ k) - s" using assms by (intro dvd_diff_nat)
  then have "2 ^ n \<le> (a + 2 ^ k) - s" using assms(3) by (intro dvd_imp_le) simp_all
  with assms(3) show ?thesis by linarith
qed

lemma pages_meet: "a \<le> s \<Longrightarrow> s + 2 ^ n \<le> a + 2 ^ k \<Longrightarrow> pages (a, k) \<inter> {s ..< s + 2 ^ n} \<noteq> {}"
proof -
  assume "a \<le> s" "s + 2 ^ n \<le> a + 2 ^ k"
  moreover have "(0::nat) < 2 ^ n" by simp
  ultimately have "s \<in> pages (a, k) \<inter> {s ..< s + 2 ^ n}" by (auto simp: pages_def simp del: zero_less_power)
  then show ?thesis by blast
qed

lemma refused_no_room:
  assumes "wf_tree k t" "longest k t < 2 ^ n" "n \<le> k"
    and "2 ^ k dvd a" "2 ^ n dvd s" "a \<le> s" "s + 2 ^ n \<le> a + 2 ^ k"
  shows "\<exists>x \<in> blocks k a t. pages x \<inter> {s ..< s + 2 ^ n} \<noteq> {}"
  using assms
proof (induction k t arbitrary: a rule: wf_tree.induct)
  case (1 k l r)
  have wl: "wf_tree k l" "wf_tree k r" using "1.prems"(1) by simp_all
  have lo: "longest k l < 2 ^ n" "longest k r < 2 ^ n" using "1.prems"(2) by simp_all
  have "(2::nat) ^ k dvd 2 ^ Suc k" by simp
  then have al: "2 ^ k dvd a" "2 ^ k dvd a + 2 ^ k"
    using "1.prems"(4) by (auto intro: dvd_trans)
  show ?case
  proof (cases "n = Suc k")
    case True
    then have s: "s = a" using "1.prems"(6,7) by simp
    obtain x where x: "x \<in> blocks (Suc k) a (Split l r)"
      using blocks_nonempty [OF "1.prems"(1), of a] by auto
    then have "fst x \<in> pages x \<inter> {s ..< s + 2 ^ n}"
      using blocks_bounds [OF "1.prems"(1) x] s True by (auto simp: pages_def)
    with x show ?thesis by blast
  next
    case False
    then have nk: "n \<le> k" using "1.prems"(3) by simp
    then have "(2::nat) ^ n dvd a + 2 ^ k" using al(2) by (auto intro: dvd_trans le_imp_power_dvd)
    note side = aligned_side [OF this "1.prems"(5)]
    show ?thesis
    proof (cases "s < a + 2 ^ k")
      case True
      show ?thesis
        using "1.IH"(1) [OF wl(1) lo(1) nk al(1) "1.prems"(5,6) side [OF True]] by auto
    next
      case False
      then show ?thesis
        using "1.IH"(2) [OF wl(2) lo(2) nk al(2) "1.prems"(5)] "1.prems"(7) by auto
    qed
  qed
qed (auto simp: pages_meet, simp add: pages_def)

text \<open>Allocation is first fit: no free aligned run of the same length lies before the result.\<close>

lemma tree_alloc_lowest:
  assumes "wf_tree k t" "n \<le> k" "2 ^ n \<le> longest k t" "tree_alloc k n t = (p, t')"
    and "2 ^ k dvd a" "2 ^ n dvd s" "a \<le> s" "s + 2 ^ n \<le> a + 2 ^ k"
    and "\<And>x. x \<in> blocks k a t \<Longrightarrow> pages x \<inter> {s ..< s + 2 ^ n} = {}"
  shows "a + p \<le> s"
  using assms
proof (induction k n t arbitrary: a p t' rule: tree_alloc.induct)
  case (2 k n t)
  obtain l r where lr: "kids t = (l, r)" by fastforce
  have nu: "t \<noteq> Used" using "2.prems"(3) by auto
  have wl: "wf_tree k l" "wf_tree k r" using wf_kids [OF "2.prems"(1) lr] by simp_all
  have "(2::nat) ^ k dvd 2 ^ Suc k" by simp
  then have al: "2 ^ k dvd a" "2 ^ k dvd a + 2 ^ k"
    using "2.prems"(5) by (auto intro: dvd_trans)
  show ?case
  proof (cases "Suc k = n")
    case True
    then have "p = 0" using "2.prems"(4) by auto
    then show ?thesis using "2.prems"(7) by simp
  next
    case False
    then have nk: "n \<le> k" using "2.prems"(2) by simp
    then have "(2::nat) ^ n dvd a + 2 ^ k" using al(2) by (auto intro: dvd_trans le_imp_power_dvd)
    note side = aligned_side [OF this "2.prems"(6)]
    have free: "\<And>x. x \<in> blocks k a l \<or> x \<in> blocks k (a + 2 ^ k) r \<Longrightarrow> pages x \<inter> {s ..< s + 2 ^ n} = {}"
      using "2.prems"(9) blocks_kids [OF lr nu] by blast
    show ?thesis
    proof (cases "2 ^ n \<le> longest k l")
      case True
      then obtain l' where l': "tree_alloc k n l = (p, l')"
        using "2.prems"(4) False lr by (auto split: prod.splits)
      have "p + 2 ^ n \<le> 2 ^ k" by (rule tree_alloc_bound [OF wl(1) nk True l'])
      then show ?thesis
        using "2.IH"(1) [OF False lr [symmetric] True wl(1) nk True l' al(1) "2.prems"(6,7)] free side
        by (cases "s < a + 2 ^ k") auto
    next
      case no: False
      then obtain q r' where r': "tree_alloc k n r = (q, r')" "p = 2 ^ k + q"
        using "2.prems"(4) False lr by (auto split: prod.splits)
      have ok: "2 ^ n \<le> longest k r" using no "2.prems"(3) longest_kids [OF lr nu nk] by simp
      have "\<not> s < a + 2 ^ k"
        using refused_no_room [OF wl(1) _ nk al(1) "2.prems"(6,7)] no side free by fastforce
      then show ?thesis
        using "2.IH"(2) [OF False lr [symmetric] no wl(2) nk ok r'(1) al(2) "2.prems"(6)]
          free "2.prems"(8) r'(2) by (auto simp: add.assoc)
    qed
  qed
qed simp

text \<open>Releasing an allocated block removes exactly that block.\<close>

lemma merge_wf: "wf_tree k l \<Longrightarrow> wf_tree k r \<Longrightarrow> wf_tree (Suc k) (merge l r)"
  by auto

lemma merge_blocks: "blocks (Suc k) a (merge l r) = blocks k a l \<union> blocks k (a + 2 ^ k) r"
  by auto

lemma tree_free_wf: "wf_tree k t \<Longrightarrow> wf_tree k (tree_free k p t)"
  by (induction k p t rule: tree_free.induct) (auto split: if_splits)

lemma tree_free_blocks:
  assumes "wf_tree k t" "(a + p, m) \<in> blocks k a t"
  shows "blocks k a (tree_free k p t) = blocks k a t - {(a + p, m)}"
  using assms
proof (induction k p t arbitrary: a rule: tree_free.induct)
  case (1 k p l r)
  have wl: "wf_tree k l" "wf_tree k r" using "1.prems"(1) by simp_all
  note lb = blocks_bounds [OF wl(1), of _ a] and rb = blocks_bounds [OF wl(2), of _ "a + 2 ^ k"]
  have pos: "(0::nat) < 2 ^ m" by simp
  show ?case
  proof (cases "p < 2 ^ k")
    case True
    then have "(a + p, m) \<notin> blocks k (a + 2 ^ k) r" using rb [of "(a + p, m)"] by auto
    then show ?thesis
      using True "1.IH"(1) [OF True wl(1)] "1.prems"(2) by (auto simp: merge_blocks simp del: merge.simps)
  next
    case False
    then have "(a + p, m) \<notin> blocks k a l" using lb [of "(a + p, m)"] pos by (auto simp del: pos)
    then show ?thesis
      using False "1.IH"(2) [OF False wl(2), of "a + 2 ^ k"] "1.prems"(2)
      by (auto simp: merge_blocks simp del: merge.simps)
  qed
next
  fix p t m a
  assume "wf_tree 0 t" "(a + p, m) \<in> blocks 0 a t"
  then show "blocks 0 a (tree_free 0 p t) = blocks 0 a t - {(a + p, m)}" by (cases t) auto
qed auto

text \<open>Releasing what was just allocated gives back the very same tree.\<close>

lemma merge_kids: "wf_tree (Suc k) t \<Longrightarrow> kids t = (l, r) \<Longrightarrow> t \<noteq> Used \<Longrightarrow> merge l r = t"
  by (cases t) auto

lemma tree_free_alloc:
  assumes "wf_tree k t" "n \<le> k" "2 ^ n \<le> longest k t" "tree_alloc k n t = (p, t')"
  shows "tree_free k p t' = t"
  using assms
proof (induction k n t arbitrary: p t' rule: tree_alloc.induct)
  case (1 n t)
  then show ?case using tree_alloc_exact [of 0 t] by auto
next
  case (2 k n t)
  obtain l r where lr: "kids t = (l, r)" by fastforce
  have nu: "t \<noteq> Used" using "2.prems"(3) by auto
  have wl: "wf_tree k l" "wf_tree k r" using wf_kids [OF "2.prems"(1) lr] by simp_all
  note mk = merge_kids [OF "2.prems"(1) lr nu]
  show ?case
  proof (cases "Suc k = n")
    case True
    then show ?thesis using tree_alloc_exact [of n t] "2.prems" by auto
  next
    case False
    then have nk: "n \<le> k" using "2.prems"(2) by simp
    show ?thesis
    proof (cases "2 ^ n \<le> longest k l")
      case True
      then obtain l' where l': "tree_alloc k n l = (p, l')" "t' = Split l' r"
        using "2.prems"(4) False lr by (auto split: prod.splits)
      have "p + 2 ^ n \<le> 2 ^ k" by (rule tree_alloc_bound [OF wl(1) nk True l'(1)])
      moreover have "(0::nat) < 2 ^ n" by simp
      ultimately have "p < 2 ^ k" by linarith
      then show ?thesis
        using "2.IH"(1) [OF False lr [symmetric] True wl(1) nk True l'(1)] l'(2) mk by simp
    next
      case no: False
      then obtain q r' where r': "tree_alloc k n r = (q, r')" "p = 2 ^ k + q" "t' = Split l r'"
        using "2.prems"(4) False lr by (auto split: prod.splits)
      have ok: "2 ^ n \<le> longest k r" using no "2.prems"(3) longest_kids [OF lr nu nk] by simp
      show ?thesis
        using "2.IH"(2) [OF False lr [symmetric] no wl(2) nk ok r'(1)] r'(2,3) mk by simp
    qed
  qed
qed

end
