(* ===== verification/Buddy_Refine.thy ===== *)
theory Buddy_Refine
  imports Buddy_Tree
begin

text \<open>
  The bitmap of \<^verbatim>\<open>struct buddy\<close> refines the block tree: \<open>repr bm k i t\<close> says that the array
  entries at and below heap index \<open>i\<close> (level \<open>k\<close>) spell the tree \<open>t\<close>. The descent, the climb
  and the two update loops of \<^verbatim>\<open>mm.c\<close> are shown to compute the tree operations, in the machine's
  64-bit arithmetic.
\<close>

section \<open>Heap indices\<close>

lemma unat_of_nat_64: "i < 2 ^ 64 \<Longrightarrow> unat (of_nat i :: u64) = i"
  by (simp add: unat_of_nat)

definition lch :: "nat \<Rightarrow> nat" where "lch i = 2 * i + 1"
definition rch :: "nat \<Rightarrow> nat" where "rch i = 2 * i + 2"

lemma LEFT_of_nat [simp]: "LEFT_LEAF (of_nat i) = of_nat (lch i)"
  and RIGHT_of_nat [simp]: "RIGHT_LEAF (of_nat i) = of_nat (rch i)"
  by (simp_all add: LEFT_LEAF_def RIGHT_LEAF_def lch_def rch_def)

lemma PARENT_of_nat:
  assumes "0 < j" "j < 2 ^ 63"
  shows "PARENT (of_nat j) = of_nat ((j + 1) div 2 - 1)"
proof -
  have "unat (of_nat (j + 1) div 2 :: u64) = (j + 1) div 2"
    using assms by (simp add: unat_div unat_of_nat_64 del: of_nat_Suc of_nat_add)
  then have "of_nat (j + 1) div 2 = (of_nat ((j + 1) div 2) :: u64)"
    using assms by (simp add: word_unat_eq_iff unat_of_nat_64 del: of_nat_Suc of_nat_add)
  moreover have "1 \<le> (j + 1) div 2" using assms by simp
  ultimately show ?thesis by (simp add: PARENT_def add.commute)
qed

lemma PARENT_left [simp]: "i < 2 ^ 61 \<Longrightarrow> PARENT (of_nat (lch i)) = of_nat i"
  by (subst PARENT_of_nat) (auto simp: lch_def)

lemma PARENT_right [simp]: "i < 2 ^ 61 \<Longrightarrow> PARENT (of_nat (rch i)) = of_nat i"
  by (subst PARENT_of_nat) (auto simp: rch_def)

lemma of_nat_less_64: "i < 2 ^ 64 \<Longrightarrow> j < 2 ^ 64 \<Longrightarrow> (of_nat i :: u64) < of_nat j \<longleftrightarrow> i < j"
  by (simp add: word_less_nat_alt unat_of_nat_64)

lemma of_nat_le_64: "i < 2 ^ 64 \<Longrightarrow> j < 2 ^ 64 \<Longrightarrow> (of_nat i :: u64) \<le> of_nat j \<longleftrightarrow> i \<le> j"
  by (simp add: word_le_nat_alt unat_of_nat_64)

lemma of_nat_eq_64: "i < 2 ^ 64 \<Longrightarrow> j < 2 ^ 64 \<Longrightarrow> (of_nat i :: u64) = of_nat j \<longleftrightarrow> i = j"
  by (metis unat_of_nat_64)

section \<open>The representation relation\<close>

fun full :: "u64 list \<Rightarrow> nat \<Rightarrow> nat \<Rightarrow> bool" where
  "full bm 0 i \<longleftrightarrow> unat (bm ! i) = 1"
| "full bm (Suc k) i \<longleftrightarrow> unat (bm ! i) = 2 ^ Suc k \<and> full bm k (lch i) \<and> full bm k (rch i)"

fun repr :: "u64 list \<Rightarrow> nat \<Rightarrow> nat \<Rightarrow> btree \<Rightarrow> bool" where
  "repr bm k i Free \<longleftrightarrow> full bm k i"
| "repr bm 0 i Used \<longleftrightarrow> bm ! i = 0"
| "repr bm (Suc k) i Used \<longleftrightarrow> bm ! i = 0 \<and> full bm k (lch i) \<and> full bm k (rch i)"
| "repr bm 0 i (Split l r) \<longleftrightarrow> False"
| "repr bm (Suc k) i (Split l r) \<longleftrightarrow>
     unat (bm ! i) = max (longest k l) (longest k r) \<and>
     repr bm k (lch i) l \<and> repr bm k (rch i) r \<and> \<not> (l = Free \<and> r = Free)"

text \<open>Heap indices at or below \<open>i\<close>, to depth \<open>k\<close>: those whose ancestor is \<open>i\<close>.\<close>

definition below :: "nat \<Rightarrow> nat \<Rightarrow> nat \<Rightarrow> bool" where
  "below k i j \<longleftrightarrow> (\<exists>d \<le> k. Suc j div 2 ^ d = Suc i)"

lemma below_refl [simp]: "below k i i"
  by (auto simp: below_def intro: exI [of _ 0])

lemma below_0 [simp]: "below 0 i j \<longleftrightarrow> j = i"
  by (auto simp: below_def)

lemma below_child:
  assumes "below k c j" "c = lch i \<or> c = rch i"
  shows "below (Suc k) i j"
proof -
  from assms(1) obtain d where d: "d \<le> k" "Suc j div 2 ^ d = Suc c" by (auto simp: below_def)
  then have "Suc j div 2 ^ Suc d = Suc c div 2" by (metis div_mult2_eq power_Suc2)
  with assms(2) d(1) show ?thesis
    by (auto simp: below_def lch_def rch_def intro!: exI [of _ "Suc d"])
qed

lemmas below_left = below_child [OF _ disjI1 [OF refl]]
lemmas below_right = below_child [OF _ disjI2 [OF refl]]

lemma below_ge: "below k i j \<Longrightarrow> i \<le> j"
proof -
  assume "below k i j"
  then obtain d where "Suc j div 2 ^ d = Suc i" by (auto simp: below_def)
  moreover have "Suc j div 2 ^ d \<le> Suc j" by (rule div_le_dividend)
  ultimately show ?thesis by simp
qed

lemma below_siblings: "below k (lch i) j \<Longrightarrow> below k (rch i) j \<Longrightarrow> False"
proof -
  have no: "False" if "Suc j div 2 ^ d = a" "Suc j div 2 ^ (d + e) = b"
    "a = 2 * i + 2 \<and> b = 2 * i + 3 \<or> a = 2 * i + 3 \<and> b = 2 * i + 2" for d e a b
  proof -
    have "b = a div 2 ^ e" using that(1,2) by (metis div_mult2_eq power_add)
    moreover have "a div 2 ^ e \<le> a" by (rule div_le_dividend)
    moreover have "e = 0 \<or> a div 2 ^ e \<le> a div 2"
      by (cases e) (auto intro: div_le_mono2)
    ultimately show False using that(3) by auto
  qed
  assume "below k (lch i) j" "below k (rch i) j"
  then obtain d d' where "Suc j div 2 ^ d = 2 * i + 2" "Suc j div 2 ^ d' = 2 * i + 3"
    by (auto simp: below_def lch_def rch_def numeral_3_eq_3)
  then show False
    using no [of d _ "d' - d"] no [of d' _ "d - d'"] by (cases "d \<le> d'") auto
qed

lemma full_frame: "full bm k i \<Longrightarrow> (\<And>j. below k i j \<Longrightarrow> bm' ! j = bm ! j) \<Longrightarrow> full bm' k i"
proof (induction k arbitrary: i)
  case (Suc k)
  then show ?case by (auto dest: below_left below_right)
qed simp

lemma repr_frame: "repr bm k i t \<Longrightarrow> (\<And>j. below k i j \<Longrightarrow> bm' ! j = bm ! j) \<Longrightarrow> repr bm' k i t"
proof (induction t arbitrary: k i)
  case Free
  then show ?case by (auto intro: full_frame)
next
  case Used
  then show ?case
    by (cases k) (auto intro!: full_frame [of bm] dest: below_left below_right)
next
  case (Split l r)
  show ?case
  proof (cases k)
    case (Suc m)
    have "repr bm' m (lch i) l" "repr bm' m (rch i) r"
      using Split.prems Suc by (auto intro!: Split.IH dest: below_left below_right)
    with Split.prems Suc show ?thesis by auto
  qed (use Split.prems in auto)
qed

lemma repr_wf: "repr bm k i t \<Longrightarrow> wf_tree k t"
  by (induction t arbitrary: k i) (case_tac k; auto)+

lemma full_top: "full bm k i \<Longrightarrow> unat (bm ! i) = 2 ^ k"
  by (cases k) auto

lemma repr_top: "repr bm k i t \<Longrightarrow> unat (bm ! i) = longest k t"
  by (cases t; cases k) (auto simp: full_top)

lemma repr_kids: "repr bm (Suc k) i t \<Longrightarrow> t \<noteq> Used \<Longrightarrow> kids t = (l, r) \<Longrightarrow>
  repr bm k (lch i) l \<and> repr bm k (rch i) r"
  by (cases t) auto

section \<open>Allocation\<close>

lemma child_bounds:
  assumes "rch i < length bm" "length bm \<le> 2 ^ 61"
  shows "i < 2 ^ 61" "lch i < 2 ^ 61" "rch i < 2 ^ 61" "i < length bm" "lch i < length bm"
    "i < lch i" "i < rch i" "lch i \<noteq> rch i" "0 < lch i" "0 < rch i"
  using assms by (auto simp: lch_def rch_def)

lemma unat_small: "i < 2 ^ 61 \<Longrightarrow> unat (of_nat i :: u64) = i"
  by (rule unat_of_nat_64) simp

lemma small_less: "i < 2 ^ 61 \<Longrightarrow> j < 2 ^ 61 \<Longrightarrow> (of_nat i :: u64) < of_nat j \<longleftrightarrow> i < j"
  by (rule of_nat_less_64) simp_all

lemma small_le: "i < 2 ^ 61 \<Longrightarrow> j < 2 ^ 61 \<Longrightarrow> (of_nat i :: u64) \<le> of_nat j \<longleftrightarrow> i \<le> j"
  by (rule of_nat_le_64) simp_all

lemma small_zero: "i < 2 ^ 61 \<Longrightarrow> (of_nat i :: u64) = 0 \<longleftrightarrow> i = 0"
  using of_nat_eq_64 [of i 0] by simp

lemma alloc_update_step:
  assumes c: "c = lch i \<or> c = rch i" and b: "rch i < length bm" "length bm \<le> 2 ^ 61"
  shows "alloc_update (of_nat c) bm =
    alloc_update (of_nat i) (bm[i := max (bm ! lch i) (bm ! rch i)])"
proof -
  note cb = child_bounds [OF b]
  have p: "PARENT (of_nat c) = of_nat i" using c cb by auto
  have lt: "\<not> (of_nat c :: u64) \<le> of_nat i" and nz: "of_nat c \<noteq> (0 :: u64)"
    using c cb by (auto simp: small_le small_zero)
  show ?thesis
    by (subst alloc_update.simps) (use p lt nz cb b in \<open>simp add: unat_small\<close>)
qed

lemma free_update_step:
  assumes c: "c = lch i \<or> c = rch i" and b: "rch i < length bm" "length bm \<le> 2 ^ 61"
  shows "free_update ns (of_nat c) bm = free_update (ns * 2) (of_nat i)
    (bm[i := if bm ! lch i + bm ! rch i = ns * 2 then ns * 2 else max (bm ! lch i) (bm ! rch i)])"
proof -
  note cb = child_bounds [OF b]
  have p: "PARENT (of_nat c) = of_nat i" using c cb by auto
  have lt: "\<not> (of_nat c :: u64) \<le> of_nat i" and nz: "of_nat c \<noteq> (0 :: u64)"
    using c cb by (auto simp: small_le small_zero)
  show ?thesis
    by (subst free_update.simps) (use p lt nz cb b in \<open>simp add: unat_small\<close>)
qed

lemma unat_max: "unat (max a b) = max (unat a) (unat b)" for a b :: u64
  by (simp add: max_def word_le_nat_alt)

lemma pow2_small: "k \<le> 60 \<Longrightarrow> (2::nat) ^ k < 2 ^ 61"
  by (rule power_strict_increasing) simp_all

lemma descend_step:
  assumes "n < k'" "k' = Suc k" "k' \<le> 60" "lch i < length bm" "length bm \<le> 2 ^ 61"
  shows "alloc_descend bm (of_nat (2 ^ n)) (of_nat (2 ^ k')) (of_nat i) =
    alloc_descend bm (of_nat (2 ^ n)) (of_nat (2 ^ k))
      (of_nat (if 2 ^ n \<le> unat (bm ! lch i) then lch i else rch i))"
proof -
  have lt: "(2::nat) ^ n < 2 ^ k'" using assms(1) by (rule power_strict_increasing) simp
  have "n \<le> 60" "k \<le> 60" using assms by simp_all
  then have b: "(2::nat) ^ n < 2 ^ 61" "(2::nat) ^ k' < 2 ^ 61" "(2::nat) ^ k < 2 ^ 61"
    using assms(3) by (blast intro: pow2_small)+
  have ne: "(of_nat (2 ^ k') :: u64) \<noteq> of_nat (2 ^ n)" "(of_nat (2 ^ k') :: u64) \<noteq> 0"
    using lt b of_nat_eq_64 [of "2 ^ k'" "2 ^ n"] small_zero [of "2 ^ k'"]
    by (auto simp del: of_nat_power)
  have "unat (of_nat (2 ^ k') div 2 :: u64) = 2 ^ k' div 2"
    by (simp add: unat_div unat_small [OF b(2)] del: of_nat_power of_nat_mult)
  also have "\<dots> = 2 ^ k" using assms(2) by simp
  finally have "unat (of_nat (2 ^ k') div 2 :: u64) = 2 ^ k" .
  then have half: "(of_nat (2 ^ k') :: u64) div 2 = of_nat (2 ^ k)"
    using b(3) by (simp add: word_unat_eq_iff unat_small del: of_nat_power)
  have lb: "lch i < 2 ^ 61" using assms(4,5) by simp
  have cmp: "of_nat (2 ^ n) \<le> bm ! lch i \<longleftrightarrow> 2 ^ n \<le> unat (bm ! lch i)"
    using b(1) by (simp add: word_le_nat_alt unat_small del: of_nat_power)
  show ?thesis
    by (subst alloc_descend.simps)
       (use ne half cmp lb assms(4) in \<open>simp add: unat_small del: of_nat_power\<close>)
qed

text \<open>
  The descent from a node, the write of 0 and the update loop up to that node compute
  \<open>tree_alloc\<close> on the tree the node represents, and touch no entry outside it.
\<close>

lemma node_in_array:
  assumes "(i + 2) * 2 ^ k \<le> len + (1::nat)"
  shows "i < len"
proof -
  have "(i + 2) * 1 \<le> (i + 2) * 2 ^ k" by (rule mult_le_mono2) simp
  with assms have "i + 2 \<le> len + 1" by (metis le_trans mult_1_right)
  then show ?thesis by simp
qed

lemma full_child_upd:
  assumes "full bm k c" "c = lch i \<or> c = rch i"
  shows "full (bm[i := v]) k c"
proof (rule full_frame [OF assms(1)])
  fix j assume "below k c j"
  then have "i \<noteq> j" using assms(2) by (auto dest!: below_ge simp: lch_def rch_def)
  then show "bm[i := v] ! j = bm ! j" by simp
qed

lemma mark_used: "full bm k i \<Longrightarrow> i < length bm \<Longrightarrow> repr (bm[i := 0]) k i Used"
  by (cases k) (auto intro: full_child_upd)

lemma mark_free:
  "repr bm k i Used \<Longrightarrow> i < length bm \<Longrightarrow> unat v = 2 ^ k \<Longrightarrow> repr (bm[i := v]) k i Free"
  by (cases k) (auto intro: full_child_upd)

lemma repr_join:
  assumes "repr bm k (lch i) l" "repr bm k (rch i) r" "\<not> (l = Free \<and> r = Free)"
    and "i < length bm" "unat v = max (longest k l) (longest k r)"
  shows "repr (bm[i := v]) (Suc k) i (Split l r)"
proof -
  have "bm[i := v] ! j = bm ! j" if "below k (lch i) j \<or> below k (rch i) j" for j
    using that by (auto dest!: below_ge simp: lch_def rch_def)
  then have "repr (bm[i := v]) k (lch i) l" "repr (bm[i := v]) k (rch i) r"
    using repr_frame [OF assms(1)] repr_frame [OF assms(2)] by blast+
  with assms(3-5) show ?thesis by simp
qed

lemma repr_right_frame:
  assumes "repr bm k (rch i) r" "\<forall>x. \<not> below k (lch i) x \<longrightarrow> bm' ! x = bm ! x"
  shows "repr bm' k (rch i) r"
  using repr_frame [OF assms(1)] assms(2) below_siblings by blast

lemma repr_left_frame:
  assumes "repr bm k (lch i) l" "\<forall>x. \<not> below k (rch i) x \<longrightarrow> bm' ! x = bm ! x"
  shows "repr bm' k (lch i) l"
  using repr_frame [OF assms(1)] assms(2) below_siblings by blast

lemma frame_child:
  assumes "\<forall>x. \<not> below k c x \<longrightarrow> bm' ! x = bm ! x" "c = lch i \<or> c = rch i"
  shows "\<forall>x. \<not> below (Suc k) i x \<longrightarrow> bm'[i := v] ! x = bm ! x"
  using assms below_child [of k c _ i] by (metis below_refl nth_list_update_neq)

lemma alloc_refines:
  assumes "repr bm k i t" "n \<le> k" "2 ^ n \<le> longest k t" "tree_alloc k n t = (p, t')"
    and "k \<le> 60" "(i + 2) * 2 ^ k \<le> length bm + 1" "length bm \<le> 2 ^ 61"
  shows "\<exists>j bm'. alloc_descend bm (of_nat (2 ^ n)) (of_nat (2 ^ k)) (of_nat i)
           = Inr (of_nat (2 ^ n), of_nat j)
       \<and> below k i j \<and> j < length bm \<and> Suc j * 2 ^ n = Suc i * 2 ^ k + p
       \<and> alloc_update (of_nat j) (bm[j := 0]) = alloc_update (of_nat i) bm'
       \<and> length bm' = length bm \<and> repr bm' k i t'
       \<and> (\<forall>x. \<not> below k i x \<longrightarrow> bm' ! x = bm ! x)"
  using assms
proof (induction k n t arbitrary: i p t' rule: tree_alloc.induct)
  case (1 n t)
  then have i: "i < length bm" by simp
  have "repr (bm[i := 0]) 0 i Used" using i by simp
  with 1 i show ?case
    by (intro exI [of _ i] exI [of _ "bm[i := 0]"])
       (auto simp: alloc_descend.simps nth_list_update)
next
  case (2 k n t)
  have i: "i < length bm" by (rule node_in_array [OF "2.prems"(6)])
  note wf = repr_wf [OF "2.prems"(1)]
  show ?case
  proof (cases "Suc k = n")
    case True
    then have tf: "t = Free" using tree_alloc_exact wf "2.prems"(3) by blast
    have "repr (bm[i := 0]) n i Used"
      using True "2.prems"(1) i tf by (auto intro: mark_used)
    with True "2.prems" i show ?thesis
      by (intro exI [of _ i] exI [of _ "bm[i := 0]"])
         (auto simp: alloc_descend.simps nth_list_update)
  next
    case False
    then have nk: "n \<le> k" "n < Suc k" using "2.prems"(2) by simp_all
    obtain l r where lr: "kids t = (l, r)" by fastforce
    have nu: "t \<noteq> Used" using "2.prems"(3) by auto
    have sub: "repr bm k (lch i) l" "repr bm k (rch i) r"
      using repr_kids [OF "2.prems"(1) nu lr] by simp_all
    have bnd: "(lch i + 2) * 2 ^ k \<le> length bm + 1" "(rch i + 2) * 2 ^ k \<le> length bm + 1"
      using "2.prems"(6) by (simp_all add: lch_def rch_def algebra_simps)
    have rl: "rch i < length bm" "lch i < length bm"
      using bnd by (blast intro: node_in_array)+
    have k59: "k \<le> 60" "Suc k \<le> 60" using "2.prems"(5) by simp_all
    note step = descend_step [OF nk(2) refl k59(2) rl(2) "2.prems"(7)]
    show ?thesis
    proof (cases "2 ^ n \<le> longest k l")
      case True
      then obtain l' where l': "tree_alloc k n l = (p, l')" "t' = Split l' r"
        using "2.prems"(4) False lr by (auto split: prod.splits)
      obtain j bm1 where IH:
        "alloc_descend bm (of_nat (2 ^ n)) (of_nat (2 ^ k)) (of_nat (lch i)) = Inr (of_nat (2 ^ n), of_nat j)"
        "below k (lch i) j" "j < length bm" "Suc j * 2 ^ n = Suc (lch i) * 2 ^ k + p"
        "alloc_update (of_nat j) (bm[j := 0]) = alloc_update (of_nat (lch i)) bm1"
        "length bm1 = length bm" "repr bm1 k (lch i) l'"
        "\<forall>x. \<not> below k (lch i) x \<longrightarrow> bm1 ! x = bm ! x"
        using "2.IH"(1) [OF False lr [symmetric] True sub(1) nk(1) True l'(1) k59(1) bnd(1) "2.prems"(7)]
        by blast
      have "l' \<noteq> Free" using tree_alloc_wf [OF repr_wf [OF sub(1)] nk(1) True l'(1)] by simp
      moreover have r1: "repr bm1 k (rch i) r" by (rule repr_right_frame [OF sub(2) IH(8)])
      ultimately have "repr (bm1[i := max (bm1 ! lch i) (bm1 ! rch i)]) (Suc k) i t'"
        unfolding l'(2) using IH(6,7) i
        by (intro repr_join) (auto simp: unat_max repr_top)
      moreover have "alloc_update (of_nat (lch i)) bm1
          = alloc_update (of_nat i) (bm1[i := max (bm1 ! lch i) (bm1 ! rch i)])"
        using rl(1) "2.prems"(7) IH(6) by (intro alloc_update_step) simp_all
      moreover have "unat (bm ! lch i) = longest k l" by (rule repr_top [OF sub(1)])
      ultimately show ?thesis
        using IH step True below_left [OF IH(2)] frame_child [OF IH(8) disjI1 [OF refl]]
        by (intro exI [of _ j] exI [of _ "bm1[i := max (bm1 ! lch i) (bm1 ! rch i)]"])
           (simp add: lch_def algebra_simps del: of_nat_power)
    next
      case no: False
      then obtain q r' where r': "tree_alloc k n r = (q, r')" "p = 2 ^ k + q" "t' = Split l r'"
        using "2.prems"(4) False lr by (auto split: prod.splits)
      have ok: "2 ^ n \<le> longest k r" using no "2.prems"(3) longest_kids [OF lr nu nk(1)] by simp
      obtain j bm1 where IH:
        "alloc_descend bm (of_nat (2 ^ n)) (of_nat (2 ^ k)) (of_nat (rch i)) = Inr (of_nat (2 ^ n), of_nat j)"
        "below k (rch i) j" "j < length bm" "Suc j * 2 ^ n = Suc (rch i) * 2 ^ k + q"
        "alloc_update (of_nat j) (bm[j := 0]) = alloc_update (of_nat (rch i)) bm1"
        "length bm1 = length bm" "repr bm1 k (rch i) r'"
        "\<forall>x. \<not> below k (rch i) x \<longrightarrow> bm1 ! x = bm ! x"
        using "2.IH"(2) [OF False lr [symmetric] no sub(2) nk(1) ok r'(1) k59(1) bnd(2) "2.prems"(7)]
        by blast
      have "r' \<noteq> Free" using tree_alloc_wf [OF repr_wf [OF sub(2)] nk(1) ok r'(1)] by simp
      moreover have r1: "repr bm1 k (lch i) l" by (rule repr_left_frame [OF sub(1) IH(8)])
      ultimately have "repr (bm1[i := max (bm1 ! lch i) (bm1 ! rch i)]) (Suc k) i t'"
        unfolding r'(3) using IH(6,7) i
        by (intro repr_join) (auto simp: unat_max repr_top)
      moreover have "alloc_update (of_nat (rch i)) bm1
          = alloc_update (of_nat i) (bm1[i := max (bm1 ! lch i) (bm1 ! rch i)])"
        using rl(1) "2.prems"(7) IH(6) by (intro alloc_update_step) simp_all
      moreover have "unat (bm ! lch i) = longest k l" by (rule repr_top [OF sub(1)])
      ultimately show ?thesis
        using IH step no below_right [OF IH(2)] frame_child [OF IH(8) disjI2 [OF refl]] r'(2)
        by (intro exI [of _ j] exI [of _ "bm1[i := max (bm1 ! lch i) (bm1 ! rch i)]"])
           (simp add: rch_def algebra_simps del: of_nat_power)
    qed
  qed
qed

section \<open>Release\<close>

lemma climb_step:
  assumes "c = lch i \<or> c = rch i" "c < length bm" "length bm \<le> 2 ^ 61" "unat (bm ! c) \<noteq> 0"
  shows "free_climb bm ns (of_nat c) = free_climb bm (ns * 2) (of_nat i)"
proof -
  have cs: "c < 2 ^ 61" and i: "i < 2 ^ 61" "0 < c" "i < c"
    using assms by (auto simp: lch_def rch_def)
  have "PARENT (of_nat c) = of_nat i" using assms(1) i by auto
  moreover have "\<not> (of_nat c :: u64) \<le> of_nat i" "of_nat c \<noteq> (0 :: u64)"
    using cs i by (simp_all add: small_le small_zero)
  moreover have "aget bm (of_nat c :: u64) = Inr (bm ! c)" using assms(2) cs by (simp add: unat_small)
  moreover have "bm ! c \<noteq> 0" using assms(4) by auto
  ultimately show ?thesis by (subst free_climb.simps) simp
qed

text \<open>From a leaf of a fully free subtree the climb runs straight through its top.\<close>

lemma climb_full:
  assumes "full bm k c" "c = lch i \<or> c = rch i" "p < 2 ^ k"
    and "(c + 2) * 2 ^ k \<le> length bm + 1" "length bm \<le> 2 ^ 61"
  shows "free_climb bm 1 (of_nat (Suc c * 2 ^ k - 1 + p)) = free_climb bm (of_nat (2 ^ Suc k)) (of_nat i)"
  using assms
proof (induction k arbitrary: c i p)
  case 0
  then show ?case using climb_step [OF 0(2) node_in_array [OF 0(4)] 0(5), of 1] by simp
next
  case (Suc k)
  have sub: "full bm k (lch c)" "full bm k (rch c)" "unat (bm ! c) = 2 ^ Suc k"
    using Suc.prems(1) by simp_all
  have bnd: "(lch c + 2) * 2 ^ k \<le> length bm + 1" "(rch c + 2) * 2 ^ k \<le> length bm + 1"
    using Suc.prems(4) by (simp_all add: lch_def rch_def algebra_simps)
  have up: "free_climb bm (of_nat (2 ^ Suc k)) (of_nat c) = free_climb bm (of_nat (2 ^ Suc (Suc k))) (of_nat i)"
    using climb_step [OF Suc.prems(2) node_in_array [OF Suc.prems(4)] Suc.prems(5)] sub(3)
    by (simp add: mult.commute)
  show ?case
  proof (cases "p < 2 ^ k")
    case True
    have "Suc c * 2 ^ Suc k - 1 + p = Suc (lch c) * 2 ^ k - 1 + p" by (simp add: lch_def algebra_simps)
    then show ?thesis
      using Suc.IH [OF sub(1) disjI1 [OF refl] True bnd(1) Suc.prems(5)] up by metis
  next
    case False
    then have q: "p - 2 ^ k < 2 ^ k" using Suc.prems(3) by simp
    have "Suc c * 2 ^ Suc k - 1 + p = Suc (rch c) * 2 ^ k - 1 + (p - 2 ^ k)"
      using False by (simp add: rch_def algebra_simps)
    then show ?thesis
      using Suc.IH [OF sub(2) disjI2 [OF refl] q bnd(2) Suc.prems(5)] up by metis
  qed
qed

lemma repr_merge:
  assumes "repr bm k (lch i) l" "repr bm k (rch i) r" "i < length bm" "k < 60"
    and v: "v = (if bm ! lch i + bm ! rch i = of_nat (2 ^ k) * 2 then of_nat (2 ^ k) * 2
                 else max (bm ! lch i) (bm ! rch i))"
  shows "repr (bm[i := v]) (Suc k) i (merge l r)"
proof -
  note wf = repr_wf [OF assms(1)] repr_wf [OF assms(2)]
  have top: "unat (bm ! lch i) = longest k l" "unat (bm ! rch i) = longest k r"
    using repr_top assms(1,2) by blast+
  have le: "longest k l \<le> 2 ^ k" "longest k r \<le> 2 ^ k" using wf by (auto intro: longest_le)
  have b: "(2::nat) ^ k < 2 ^ 61" "(2::nat) ^ Suc k < 2 ^ 61" using assms(4) by (simp_all only: pow2_small)
  have tw: "of_nat (2 ^ k) * 2 = (of_nat (2 ^ Suc k) :: u64)" by simp
  have us: "unat (of_nat (2 ^ k) * 2 :: u64) = 2 ^ Suc k" unfolding tw by (rule unat_small [OF b(2)])
  have "unat (bm ! lch i + bm ! rch i) = longest k l + longest k r"
    using top le b by (simp add: unat_word_ariths)
  then have eq: "bm ! lch i + bm ! rch i = of_nat (2 ^ k) * 2 \<longleftrightarrow> longest k l + longest k r = 2 ^ Suc k"
    using us by (metis word_unat_eq_iff)
  have both: "longest k l + longest k r = 2 ^ Suc k \<longleftrightarrow> l = Free \<and> r = Free"
    using le longest_full [OF wf(1)] longest_full [OF wf(2)] by auto
  show ?thesis
  proof (cases "l = Free \<and> r = Free")
    case True
    then have "full bm k (lch i)" "full bm k (rch i)" using assms(1,2) by simp_all
    with True assms(3) us eq both v show ?thesis by (auto intro: full_child_upd)
  next
    case False
    then have "bm ! lch i + bm ! rch i \<noteq> of_nat (2 ^ k) * 2" using eq both by blast
    then have "v = max (bm ! lch i) (bm ! rch i)" by (simp only: v if_False)
    moreover have "merge l r = Split l r" using False by auto
    ultimately show ?thesis
      using False assms(1-3) top repr_join [of bm k i l r v] by (simp only: unat_max simp_thms)
  qed
qed

text \<open>
  The climb from the leaf of an allocated page, the write of the block size and the update loop
  up to a node compute \<open>tree_free\<close> on the tree below that node.
\<close>

lemma free_refines:
  assumes "repr bm k i t" "(p, m) \<in> blocks k 0 t"
    and "k \<le> 60" "(i + 2) * 2 ^ k \<le> length bm + 1" "length bm \<le> 2 ^ 61"
  shows "\<exists>j bm'. free_climb bm 1 (of_nat (Suc i * 2 ^ k - 1 + p)) = Inr (of_nat (2 ^ m), of_nat j)
       \<and> j < length bm
       \<and> free_update (of_nat (2 ^ m)) (of_nat j) (bm[j := of_nat (2 ^ m)])
           = free_update (of_nat (2 ^ k)) (of_nat i) bm'
       \<and> length bm' = length bm \<and> repr bm' k i (tree_free k p t)
       \<and> (\<forall>x. \<not> below k i x \<longrightarrow> bm' ! x = bm ! x)"
  using assms
proof (induction t arbitrary: k i p)
  case Free
  then show ?case by simp
next
  case Used
  then have pm: "p = 0" "m = k" by simp_all
  have i: "i < length bm" by (rule node_in_array [OF Used.prems(4)])
  then have ib: "i < 2 ^ 61" using Used.prems(5) by simp
  have ks: "(2::nat) ^ k < 2 ^ 61" using Used.prems(3) by (rule pow2_small)
  have z: "bm ! i = 0" using Used.prems(1) by (cases k) auto
  then have at_i: "free_climb bm ns (of_nat i) = Inr (ns, of_nat i)" for ns
    using i ib by (subst free_climb.simps) (simp add: unat_small)
  have "free_climb bm 1 (of_nat (Suc i * 2 ^ k - 1)) = free_climb bm (of_nat (2 ^ k)) (of_nat i)"
  proof (cases k)
    case (Suc k')
    have "full bm k' (lch i)" using Used.prems(1) Suc by simp
    moreover have "(lch i + 2) * 2 ^ k' \<le> length bm + 1"
      using Used.prems(4) Suc by (simp add: lch_def algebra_simps)
    moreover have "Suc i * 2 ^ k - 1 = Suc (lch i) * 2 ^ k' - 1 + 0"
      using Suc by (simp add: lch_def algebra_simps)
    ultimately show ?thesis
      using climb_full [of bm k' "lch i" i 0] Used.prems(5) Suc by simp
  qed simp
  moreover have "repr (bm[i := of_nat (2 ^ k)]) k i Free"
    using Used.prems(1) i ks by (intro mark_free) (simp_all add: unat_small del: of_nat_power)
  ultimately show ?case
    using at_i i pm
    by (intro exI [of _ i] exI [of _ "bm[i := of_nat (2 ^ k)]"])
       (cases k; auto simp: nth_list_update)
next
  case (Split l r)
  then obtain k' where k: "k = Suc k'" by (cases k) auto
  have sub: "repr bm k' (lch i) l" "repr bm k' (rch i) r" using Split.prems(1) k by simp_all
  have bnd: "(lch i + 2) * 2 ^ k' \<le> length bm + 1" "(rch i + 2) * 2 ^ k' \<le> length bm + 1"
    using Split.prems(4) k by (simp_all add: lch_def rch_def algebra_simps)
  have rl: "rch i < length bm" "lch i < length bm" "i < length bm"
    using bnd Split.prems(4) by (blast intro: node_in_array)+
  have k60: "k' \<le> 60" "k' < 60" using Split.prems(3) k by simp_all
  have pos: "(0::nat) < 2 ^ m" by simp
  define upd where "upd bm1 = bm1[i := if bm1 ! lch i + bm1 ! rch i = of_nat (2 ^ k') * 2
      then of_nat (2 ^ k') * 2 else max (bm1 ! lch i) (bm1 ! rch i)]" for bm1 :: "u64 list"
  have upd: "free_update (of_nat (2 ^ k')) (of_nat c) bm1 = free_update (of_nat (2 ^ k)) (of_nat i) (upd bm1)"
    if "c = lch i \<or> c = rch i" "length bm1 = length bm" for c bm1
    using free_update_step [OF that(1), of bm1 "of_nat (2 ^ k')"] rl that(2) Split.prems(5) k
    by (simp add: upd_def mult.commute)
  show ?case
  proof (cases "p < 2 ^ k'")
    case True
    then have "(p, m) \<in> blocks k' 0 l"
      using Split.prems(2) k blocks_bounds [OF repr_wf [OF sub(2)], of "(p, m)" "2 ^ k'"] by auto
    then obtain j bm1 where IH:
      "free_climb bm 1 (of_nat (Suc (lch i) * 2 ^ k' - 1 + p)) = Inr (of_nat (2 ^ m), of_nat j)"
      "j < length bm"
      "free_update (of_nat (2 ^ m)) (of_nat j) (bm[j := of_nat (2 ^ m)])
         = free_update (of_nat (2 ^ k')) (of_nat (lch i)) bm1"
      "length bm1 = length bm" "repr bm1 k' (lch i) (tree_free k' p l)"
      "\<forall>x. \<not> below k' (lch i) x \<longrightarrow> bm1 ! x = bm ! x"
      using Split.IH(1) [OF sub(1) _ k60(1) bnd(1) Split.prems(5)] by blast
    have "repr (upd bm1) k i (merge (tree_free k' p l) r)"
      unfolding upd_def k using IH(4,5) rl(3) k60(2) repr_right_frame [OF sub(2) IH(6)]
      by (intro repr_merge) simp_all
    moreover have "Suc i * 2 ^ k - 1 + p = Suc (lch i) * 2 ^ k' - 1 + p"
      using k by (simp add: lch_def algebra_simps)
    moreover have "\<forall>x. \<not> below k i x \<longrightarrow> upd bm1 ! x = bm ! x"
      unfolding upd_def k by (rule frame_child [OF IH(6) disjI1 [OF refl]])
    ultimately show ?thesis
      using IH(1-4) True upd [OF disjI1 [OF refl] IH(4)] k
      by (intro exI [of _ j] exI [of _ "upd bm1"]) (simp add: upd_def)
  next
    case False
    then have "(p, m) \<notin> blocks k' 0 l"
      using blocks_bounds [OF repr_wf [OF sub(1)], of "(p, m)" 0] pos by (auto simp del: pos)
    then have "(2 ^ k' + (p - 2 ^ k'), m) \<in> blocks k' (2 ^ k' + 0) r"
      using Split.prems(2) k False by auto
    then have "(p - 2 ^ k', m) \<in> blocks k' 0 r" by (simp only: blocks_shift)
    then obtain j bm1 where IH:
      "free_climb bm 1 (of_nat (Suc (rch i) * 2 ^ k' - 1 + (p - 2 ^ k'))) = Inr (of_nat (2 ^ m), of_nat j)"
      "j < length bm"
      "free_update (of_nat (2 ^ m)) (of_nat j) (bm[j := of_nat (2 ^ m)])
         = free_update (of_nat (2 ^ k')) (of_nat (rch i)) bm1"
      "length bm1 = length bm" "repr bm1 k' (rch i) (tree_free k' (p - 2 ^ k') r)"
      "\<forall>x. \<not> below k' (rch i) x \<longrightarrow> bm1 ! x = bm ! x"
      using Split.IH(2) [OF sub(2) _ k60(1) bnd(2) Split.prems(5)] by blast
    have "repr (upd bm1) k i (merge l (tree_free k' (p - 2 ^ k') r))"
      unfolding upd_def k using IH(4,5) rl(3) k60(2) repr_left_frame [OF sub(1) IH(6)]
      by (intro repr_merge) simp_all
    moreover have "Suc i * 2 ^ k - 1 + p = Suc (rch i) * 2 ^ k' - 1 + (p - 2 ^ k')"
      using k False by (simp add: rch_def algebra_simps)
    moreover have "\<forall>x. \<not> below k i x \<longrightarrow> upd bm1 ! x = bm ! x"
      unfolding upd_def k by (rule frame_child [OF IH(6) disjI2 [OF refl]])
    ultimately show ?thesis
      using IH(1-4) False upd [OF disjI2 [OF refl] IH(4)] k
      by (intro exI [of _ j] exI [of _ "upd bm1"]) (simp add: upd_def)
  qed
qed

end
