(* ===== verification/Buddy_Correct.thy ===== *)
theory Buddy_Correct
  imports Buddy_Refine
begin

text \<open>
  What the page allocator promises: the invariant of its state, the exact effect of allocating
  and releasing, and the rounding of requests to powers of two.
\<close>

section \<open>Rounding requests up to a power of two\<close>

lemma smear_step:
  fixes s t :: u64
  assumes "\<forall>i. bit t i \<longleftrightarrow> (\<exists>e < d. bit s (i + e))" "d' = d + d"
  shows "\<forall>i. bit (t OR drop_bit d t) i \<longleftrightarrow> (\<exists>e < d'. bit s (i + e))"
proof
  fix i
  have "(\<exists>e < d + d. bit s (i + e)) \<longleftrightarrow> (\<exists>e < d. bit s (i + e)) \<or> (\<exists>e < d. bit s (i + d + e))"
    (is "?L \<longleftrightarrow> ?R")
  proof
    assume ?L
    then obtain e where e: "e < d + d" "bit s (i + e)" by blast
    show ?R
    proof (cases "e < d")
      case False
      then have "e - d < d" "i + d + (e - d) = i + e" using e(1) by simp_all
      with e(2) show ?thesis by metis
    qed (use e(2) in blast)
  next
    assume ?R
    then show ?L by (metis add.assoc add_less_cancel_left trans_less_add1)
  qed
  then show "bit (t OR drop_bit d t) i \<longleftrightarrow> (\<exists>e < d'. bit s (i + e))"
    using assms by (simp add: bit_or_iff bit_drop_bit_eq add.commute)
qed
lemma fixsize_bits:
  fixes sz :: u64
  shows "\<exists>t. fixsize sz = t + 1 \<and> (\<forall>i. bit t i \<longleftrightarrow> (\<exists>e < 64. bit (sz - 1) (i + e)))"
proof -
  define s where "s = sz - 1"
  define s1 where "s1 = s OR drop_bit 1 s"
  define s2 where "s2 = s1 OR drop_bit 2 s1"
  define s3 where "s3 = s2 OR drop_bit 4 s2"
  define s4 where "s4 = s3 OR drop_bit 8 s3"
  define s5 where "s5 = s4 OR drop_bit 16 s4"
  define s6 where "s6 = s5 OR drop_bit 32 s5"
  have "\<forall>i. bit s i \<longleftrightarrow> (\<exists>e < 1. bit s (i + e))" by simp
  from smear_step [OF this] have "\<forall>i. bit s1 i \<longleftrightarrow> (\<exists>e < 2. bit s (i + e))" by (simp add: s1_def numeral_2_eq_2)
  from smear_step [OF this] have "\<forall>i. bit s2 i \<longleftrightarrow> (\<exists>e < 4. bit s (i + e))" by (simp add: s2_def)
  from smear_step [OF this] have "\<forall>i. bit s3 i \<longleftrightarrow> (\<exists>e < 8. bit s (i + e))" by (simp add: s3_def)
  from smear_step [OF this] have "\<forall>i. bit s4 i \<longleftrightarrow> (\<exists>e < 16. bit s (i + e))" by (simp add: s4_def)
  from smear_step [OF this] have "\<forall>i. bit s5 i \<longleftrightarrow> (\<exists>e < 32. bit s (i + e))" by (simp add: s5_def)
  from smear_step [OF this] have "\<forall>i. bit s6 i \<longleftrightarrow> (\<exists>e < 64. bit s (i + e))" by (simp add: s6_def)
  moreover have "fixsize sz = s6 + 1"
    by (simp add: fixsize_def Let_def s_def s1_def s2_def s3_def s4_def s5_def s6_def)
  ultimately show ?thesis unfolding s_def by blast
qed

text \<open>The highest set bit of a positive word.\<close>

lemma top_bit:
  fixes x :: u64
  assumes "x \<noteq> 0"
  obtains m where "m < 64" "bit x m" "\<And>j. bit x j \<Longrightarrow> j \<le> m" "2 ^ m \<le> unat x" "unat x < 2 ^ Suc m"
proof -
  let ?P = "\<lambda>j. bit x j"
  have ex: "\<exists>j. ?P j" using assms by (auto simp: bit_eq_iff)
  have b: "\<forall>j. ?P j \<longrightarrow> j \<le> 64" using bit_imp_le_length [of x] by fastforce
  define m where "m = (GREATEST j. ?P j)"
  have m: "bit x m" unfolding m_def using ex b by (metis GreatestI_ex_nat)
  have top: "\<And>j. bit x j \<Longrightarrow> j \<le> m" unfolding m_def using b by (metis Greatest_le_nat)
  have "take_bit (Suc m) x = x" 
    by (rule bit_word_eqI) (use top in \<open>auto simp: bit_take_bit_iff less_Suc_eq_le\<close>)
  then have "take_bit (Suc m) (unat x) = unat x" by (metis unsigned_take_bit_eq)
  then have lt: "unat x < 2 ^ Suc m" by (simp add: take_bit_nat_eq_self_iff)
  have "bit (unat x) m" using m by (simp add: bit_unsigned_iff)
  then have ge: "2 ^ m \<le> unat x" by (metis bit_nat_iff div_less even_zero leI bit_iff_odd)
  have "m < 64" using bit_imp_le_length [OF m] by simp
  with m top ge lt show thesis using that by blast
qed

lemma fixsize_correct:
  assumes "0 < sz" "unat sz \<le> 2 ^ 63"
  shows "\<exists>n \<le> 63. unat (fixsize sz) = 2 ^ n \<and> unat sz \<le> 2 ^ n \<and> (n = 0 \<or> 2 ^ (n - 1) < unat sz)"
proof -
  obtain t where t: "fixsize sz = t + 1" "\<And>i. bit t i \<longleftrightarrow> (\<exists>e < 64. bit (sz - 1) (i + e))"
    using fixsize_bits by blast
  have s: "unat (sz - 1) = unat sz - 1" using assms(1) by (simp add: unat_minus_one)
  have sp: "0 < unat sz" using assms(1) by (simp add: unat_gt_0)
  show ?thesis
  proof (cases "sz - 1 = 0")
    case True
    then have "t = 0" using t(2) by (intro bit_word_eqI) simp
    then show ?thesis using t(1) True s sp by (intro exI [of _ 0]) auto
  next
    case False
    obtain m where m: "m < 64" "bit (sz - 1) m" "\<And>j. bit (sz - 1) j \<Longrightarrow> j \<le> m"
      "2 ^ m \<le> unat (sz - 1)" "unat (sz - 1) < 2 ^ Suc m"
      using top_bit [OF False] by blast
    have mm: "bit t i \<longleftrightarrow> i < Suc m" for i
      unfolding t(2) using m(1,2) m(3) by (metis le_add_diff_inverse le_add1 le_trans less_Suc_eq_le less_imp_diff_less)
    have "t = mask (Suc m)"
      by (rule bit_word_eqI) (use mm in \<open>simp add: bit_mask_iff\<close>)
    then have f: "fixsize sz = 2 ^ Suc m" using t(1) by (simp add: mask_eq_decr_exp)
    have "(2::nat) ^ m < 2 ^ 63" using m(4) s assms(2) sp by linarith
    then have m63: "m < 63" using power_less_imp_less_exp [of 2 m 63] by simp
    then have "unat (2 ^ Suc m :: u64) = 2 ^ Suc m" by (intro unat_pow2) simp
    then show ?thesis using f m(4,5) s m63 sp by (intro exI [of _ "Suc m"]) auto
  qed
qed

lemma pow2_iff:
  assumes "x \<noteq> 0"
  shows "IS_POWER_OF_2 x \<longleftrightarrow> (\<exists>n < 64. x = 2 ^ n)"
  unfolding IS_POWER_OF_2_def
proof
  assume a: "x AND (x - 1) = 0"
  obtain m where m: "m < 64" "bit x m" "2 ^ m \<le> unat x" "unat x < 2 ^ Suc m"
    using top_bit [OF assms] by blast
  have "unat x = 2 ^ m"
  proof (rule ccontr)
    assume "unat x \<noteq> 2 ^ m"
    then have "2 ^ m \<le> unat (x - 1)" "unat (x - 1) < 2 ^ Suc m"
      using m(3,4) assms by (simp_all add: unat_minus_one)
    then have "bit (unat (x - 1)) m"
      by (simp add: bit_iff_odd) (metis One_nat_def div_nat_eqI dvd_triv_left even_Suc even_zero mult.commute mult_2 nat_mult_1 numeral_2_eq_2)
    then have "bit (x - 1) m" by (simp add: bit_unsigned_iff)
    with m(2) a show False by (metis bit_and_iff bit_0_eq bot_apply bot_bool_def)
  qed
  moreover have "unat (2 ^ m :: u64) = 2 ^ m" using m(1) by (simp add: unat_pow2)
  ultimately have "x = 2 ^ m" by (simp add: word_unat_eq_iff)
  with m(1) show "\<exists>n < 64. x = 2 ^ n" by blast
next
  assume "\<exists>n < 64. x = 2 ^ n"
  then obtain n where n: "n < 64" "x = 2 ^ n" by blast
  then have "x - 1 = mask n" by (simp add: mask_eq_decr_exp)
  then show "x AND (x - 1) = 0"
    using n by (auto intro!: bit_word_eqI simp: bit_and_iff bit_mask_iff bit_exp_iff)
qed

text \<open>The order of a request: the least \<open>n\<close> with \<open>r \<le> 2 ^ n\<close> pages.\<close>

definition req_order :: "u64 \<Rightarrow> nat \<Rightarrow> bool" where
  "req_order r n \<longleftrightarrow> unat r \<le> 2 ^ n \<and> (n = 0 \<or> 2 ^ (n - 1) < unat r)"

lemma order_unique:
  assumes "x \<le> 2 ^ m" "m = 0 \<or> 2 ^ (m - 1) < x" "x \<le> 2 ^ n" "n = 0 \<or> 2 ^ (n - 1) < (x :: nat)"
  shows "m = n"
proof -
  have le: "a \<le> b" if "a = 0 \<or> 2 ^ (a - 1) < x" "x \<le> 2 ^ b" for a b
  proof (cases a)
    case (Suc c)
    with that have "2 ^ c < x" "x \<le> 2 ^ b" by simp_all
    then have "(2::nat) ^ c < 2 ^ b" by (rule order_less_le_trans)
    then have "c < b" by (rule power_less_imp_less_exp [rotated]) simp
    with Suc show ?thesis by simp
  qed simp
  show ?thesis using le [OF assms(2,3)] le [OF assms(4,1)] by simp
qed

lemma round_request:
  assumes "req_order r n" "unat r \<le> 2 ^ 63"
  shows "(if r \<le> 0 then 1 else if \<not> IS_POWER_OF_2 r then fixsize r else r) = of_nat (2 ^ n)"
proof (cases "r = 0")
  case True
  with assms show ?thesis by (auto simp: req_order_def)
next
  case nz: False
  have pos: "0 < r" using nz by (simp add: word_gt_0)
  show ?thesis
  proof (cases "IS_POWER_OF_2 r")
    case True
    then obtain m where m: "m < 64" "r = 2 ^ m" using pow2_iff [OF nz] by blast
    then have "unat r = 2 ^ m" by (simp add: unat_pow2)
    then have "m = n"
      using assms(1) order_unique [of "unat r" m n] by (auto simp: req_order_def)
    with True m pos show ?thesis by simp
  next
    case False
    obtain m where m: "m \<le> 63" "unat (fixsize r) = 2 ^ m" "unat r \<le> 2 ^ m" "m = 0 \<or> 2 ^ (m - 1) < unat r"
      using fixsize_correct [OF pos assms(2)] by blast
    then have "m = n" using assms(1) order_unique [of "unat r" m n] by (auto simp: req_order_def)
    then have "unat (fixsize r) = unat (2 ^ n :: u64)" using m by (simp add: unat_pow2)
    then have "fixsize r = 2 ^ n" by (simp only: word_unat_eq_iff)
    moreover have "\<not> r \<le> 0" using pos by (simp add: not_le)
    ultimately show ?thesis using False by (simp only: if_False if_True simp_thms) simp
  qed
qed

section \<open>The tree of a bitmap, the allocated blocks, the invariant\<close>

fun tree_of :: "u64 list \<Rightarrow> nat \<Rightarrow> nat \<Rightarrow> btree" where
  "tree_of bm 0 i = (if bm ! i = 0 then Used else Free)"
| "tree_of bm (Suc k) i =
     (if unat (bm ! i) = 2 ^ Suc k then Free
      else if bm ! i = 0 \<and> bm ! lch i \<noteq> 0 then Used
      else Split (tree_of bm k (lch i)) (tree_of bm k (rch i)))"

lemma repr_tree_of: "repr bm k i t \<Longrightarrow> tree_of bm k i = t"
proof (induction t arbitrary: k i)
  case Free
  then show ?case by (cases k) (auto)
next
  case Used
  then show ?case by (cases k) (auto dest: full_top)
next
  case (Split l r)
  then obtain k' where k: "k = Suc k'" by (cases k) auto
  have top: "unat (bm ! i) = longest k (Split l r)" by (rule repr_top [OF Split.prems])
  have "unat (bm ! i) \<noteq> 2 ^ k"
    using longest_full [OF repr_wf [OF Split.prems]] top by simp
  moreover have "bm ! lch i = 0" if "bm ! i = 0"
    using that top k repr_top [of bm k' "lch i" l] Split.prems by (simp add: unat_eq_0)
  ultimately show ?case using Split k by (auto)
qed

lemma below_cases: "below (Suc k) i j \<Longrightarrow> j = i \<or> below k (lch i) j \<or> below k (rch i) j"
proof -
  assume "below (Suc k) i j"
  then obtain d where d: "d \<le> Suc k" "Suc j div 2 ^ d = Suc i" by (auto simp: below_def)
  show ?thesis
  proof (cases d)
    case (Suc e)
    then have "Suc j div 2 ^ e div 2 = Suc i" using d(2) by (metis div_mult2_eq power_Suc2)
    then have "Suc j div 2 ^ e = Suc (lch i) \<or> Suc j div 2 ^ e = Suc (rch i)"
      by (simp add: lch_def rch_def) arith
    with Suc d(1) show ?thesis by (auto simp: below_def)
  qed (use d in simp)
qed

lemma full_unique: "full bm k i \<Longrightarrow> full bm' k i \<Longrightarrow> below k i j \<Longrightarrow> bm ! j = bm' ! j"
proof (induction k arbitrary: i)
  case 0
  then have "j = i" by simp
  with 0 show ?case by (simp add: word_unat_eq_iff)
next
  case (Suc k)
  have "bm ! i = bm' ! i" using Suc.prems by (simp add: word_unat_eq_iff)
  with Suc show ?case by (auto dest!: below_cases)
qed

lemma repr_unique:
  "repr bm k i t \<Longrightarrow> repr bm' k i t \<Longrightarrow> below k i j \<Longrightarrow> bm ! j = bm' ! j"
proof (induction t arbitrary: k i)
  case Free
  then show ?case by (auto intro: full_unique)
next
  case Used
  then show ?case
    by (cases k) (auto dest!: below_cases intro: full_unique)
next
  case (Split l r)
  then obtain k' where k: "k = Suc k'" by (cases k) auto
  have "bm ! i = bm' ! i" using Split.prems k by (simp add: word_unat_eq_iff)
  with Split k show ?case by (auto dest!: below_cases)
qed

definition allocated :: "nat \<Rightarrow> buddy \<Rightarrow> (nat \<times> nat) set" where
  "allocated K b = blocks K 0 (tree_of (bitmap b) K 0)"

definition buddy_inv :: "nat \<Rightarrow> buddy \<Rightarrow> bool" where
  "buddy_inv K b \<longleftrightarrow> K \<le> 51 \<and> bsize b = of_nat (2 ^ K) \<and> length (bitmap b) = 2 ^ Suc K
     \<and> length (ref_cnt b) = 2 ^ K \<and> repr (bitmap b) K 0 (tree_of (bitmap b) K 0)"

text \<open>The pages with a positive count are exactly the first pages of allocated blocks.\<close>

definition counts_ok :: "nat \<Rightarrow> buddy \<Rightarrow> bool" where
  "counts_ok K b \<longleftrightarrow> (\<forall>p \<in> {0 ..< 2 ^ K}. ref_cnt b ! p \<noteq> 0 \<longleftrightarrow> p \<in> fst ` allocated K b)"

definition mm_inv :: "nat \<Rightarrow> buddy \<Rightarrow> bool" where
  "mm_inv K b \<longleftrightarrow> buddy_inv K b \<and> counts_ok K b"

text \<open>An aligned run of \<open>2 ^ n\<close> pages, starting at \<open>s\<close>, that no allocated block touches.\<close>

definition free_run :: "nat \<Rightarrow> buddy \<Rightarrow> nat \<Rightarrow> nat \<Rightarrow> bool" where
  "free_run K b n s \<longleftrightarrow> 2 ^ n dvd s \<and> s + 2 ^ n \<le> 2 ^ K
     \<and> (\<forall>x \<in> allocated K b. pages x \<inter> {s ..< s + 2 ^ n} = {})"

lemma buddy_inv_facts:
  assumes "buddy_inv K b"
  shows "K \<le> 60" "length (bitmap b) \<le> 2 ^ 61" "(0 + 2) * 2 ^ K \<le> length (bitmap b) + 1"
    "wf_tree K (tree_of (bitmap b) K 0)" "repr (bitmap b) K 0 (tree_of (bitmap b) K 0)"
    "bsize b = of_nat (2 ^ K)" "length (ref_cnt b) = 2 ^ K" "0 < length (bitmap b)"
    "unat (bitmap b ! 0) = longest K (tree_of (bitmap b) K 0)"
proof -
  have "Suc K \<le> 61" using assms by (simp add: buddy_inv_def)
  then have "(2::nat) ^ Suc K \<le> 2 ^ 61" by (rule power_increasing) simp
  then show "length (bitmap b) \<le> 2 ^ 61" using assms by (simp add: buddy_inv_def)
qed (use assms in \<open>auto simp: buddy_inv_def intro: repr_wf repr_top\<close>)

lemma pfn_roundtrip:
  assumes "buddy_inv K b" "p < 2 ^ K"
  shows "PHYS2PFN (PFN2PHYS (of_nat p)) = of_nat p"
proof (rule PHYS2PFN_PFN2PHYS)
  have "K \<le> 51" using assms(1) by (simp add: buddy_inv_def)
  then have "(2::nat) ^ K \<le> 2 ^ 51" by (intro power_increasing) simp_all
  then have "p < 2 ^ 52" using assms(2) by simp
  then have "unat (of_nat p :: u64) < 2 ^ 52" by (subst unat_of_nat_64) simp_all
  then show "(of_nat p :: u64) < 2 ^ 52" by (simp add: word_less_nat_alt)
qed

text \<open>There is a free run of order \<open>n\<close> exactly when the root says so.\<close>

lemma free_run_iff:
  assumes "buddy_inv K b" "n \<le> K"
  shows "(\<exists>s. free_run K b n s) \<longleftrightarrow> 2 ^ n \<le> longest K (tree_of (bitmap b) K 0)"
proof
  note f = buddy_inv_facts [OF assms(1)]
  assume "\<exists>s. free_run K b n s"
  then obtain s where s: "free_run K b n s" by blast
  show "2 ^ n \<le> longest K (tree_of (bitmap b) K 0)"
  proof (rule ccontr)
    assume "\<not> ?thesis"
    then show False
      using refused_no_room [OF f(4) _ assms(2), of 0 s] s by (auto simp: free_run_def allocated_def)
  qed
next
  note f = buddy_inv_facts [OF assms(1)]
  assume ok: "2 ^ n \<le> longest K (tree_of (bitmap b) K 0)"
  obtain p t' where t': "tree_alloc K n (tree_of (bitmap b) K 0) = (p, t')" by fastforce
  note bl = tree_alloc_blocks [OF f(4) assms(2) ok t', of 0]
    and dj = tree_alloc_disjoint [OF f(4) assms(2) ok t', of _ 0]
  have "2 ^ n dvd p"
    using blocks_aligned [of K t' 0 "(p, n)"] tree_alloc_wf [OF f(4) assms(2) ok t'] bl by simp
  then have "free_run K b n p"
    using tree_alloc_bound [OF f(4) assms(2) ok t'] dj
    by (fastforce simp: free_run_def allocated_def pages_def)
  then show "\<exists>s. free_run K b n s" by blast
qed

section \<open>Allocation and release on the machine state\<close>

lemma buddy_alloc_ok:
  assumes inv: "buddy_inv K b" and n: "n \<le> K" "req_order r n"
    and room: "2 ^ n \<le> longest K (tree_of (bitmap b) K 0)"
    and t': "tree_alloc K n (tree_of (bitmap b) K 0) = (p, t')"
  shows "\<exists>bm. buddy_alloc r b = Inr (of_nat p, b\<lparr>bitmap := bm, ref_cnt := (ref_cnt b)[p := 1]\<rparr>)
    \<and> length bm = length (bitmap b) \<and> repr bm K 0 t'
    \<and> (\<forall>x. \<not> below K 0 x \<longrightarrow> bm ! x = bitmap b ! x)"
proof -
  note f = buddy_inv_facts [OF inv]
  obtain j bm where *:
    "alloc_descend (bitmap b) (of_nat (2 ^ n)) (of_nat (2 ^ K)) (of_nat 0) = Inr (of_nat (2 ^ n), of_nat j)"
    "j < length (bitmap b)" "Suc j * 2 ^ n = Suc 0 * 2 ^ K + p"
    "alloc_update (of_nat j) ((bitmap b)[j := 0]) = alloc_update (of_nat 0) bm"
    "length bm = length (bitmap b)" "repr bm K 0 t'" "\<forall>x. \<not> below K 0 x \<longrightarrow> bm ! x = bitmap b ! x"
    using alloc_refines [OF f(5) n(1) room t' f(1,3,2)] by blast
  have "unat r \<le> 2 ^ n" using n(2) by (simp add: req_order_def)
  also have "(2::nat) ^ n \<le> 2 ^ 63" using n(1) f(1) by (intro power_increasing) simp_all
  finally have rr: "(if r \<le> 0 then 1 else if \<not> IS_POWER_OF_2 r then fixsize r else r) = of_nat (2 ^ n)"
    by (rule round_request [OF n(2)])
  have n61: "(2::nat) ^ n < 2 ^ 61" "(2::nat) ^ K < 2 ^ 61" using n(1) f(1) by (intro pow2_small; simp)+
  have top: "\<not> bitmap b ! 0 < of_nat (2 ^ n)"
    using room f(9) n61(1) by (simp add: word_less_nat_alt unat_small not_less del: of_nat_power)
  have pb: "p + 2 ^ n \<le> 2 ^ K" by (rule tree_alloc_bound [OF f(4) n(1) room t'])
  moreover have "(0::nat) < 2 ^ n" by simp
  ultimately have pK: "p < 2 ^ K" by linarith
  then have us: "unat (of_nat p :: u64) = p" using n61(2) by (intro unat_small) simp
  have js: "unat (of_nat j :: u64) = j" using *(2) f(2) by (intro unat_of_nat_64) simp
  have e: "Suc j * 2 ^ n = 2 ^ K + p" using *(3) unfolding One_nat_def [symmetric] mult_1 .
  have "(of_nat j + 1) * of_nat (2 ^ n) = (of_nat (Suc j * 2 ^ n) :: u64)" by (simp add: algebra_simps)
  then have pfn: "(of_nat j + 1) * of_nat (2 ^ n) - of_nat (2 ^ K) = (of_nat p :: u64)"
    by (simp only: e of_nat_add add_diff_cancel_left')
  have fin: "alloc_update (of_nat 0) bm = Inr bm" by (simp add: alloc_update.simps)
  show ?thesis
    unfolding buddy_alloc_def Let_def rr
    using * f(6-8) top pfn us js pK fin
    by (auto simp del: of_nat_power of_nat_0 intro!: exI [of _ bm] simp flip: of_nat_0)
qed

lemma buddy_free_ok:
  assumes inv: "buddy_inv K b" and bl: "(p, m) \<in> allocated K b" and rc: "ref_cnt b ! p = 0"
  shows "\<exists>bm. buddy_free (of_nat p) b = Inr (b\<lparr>bitmap := bm\<rparr>)
    \<and> length bm = length (bitmap b) \<and> repr bm K 0 (tree_free K p (tree_of (bitmap b) K 0))
    \<and> (\<forall>x. \<not> below K 0 x \<longrightarrow> bm ! x = bitmap b ! x)"
proof -
  note f = buddy_inv_facts [OF inv]
  have bl': "(p, m) \<in> blocks K 0 (tree_of (bitmap b) K 0)" using bl by (simp add: allocated_def)
  obtain j bm where *:
    "free_climb (bitmap b) 1 (of_nat (Suc 0 * 2 ^ K - 1 + p)) = Inr (of_nat (2 ^ m), of_nat j)"
    "j < length (bitmap b)"
    "free_update (of_nat (2 ^ m)) (of_nat j) ((bitmap b)[j := of_nat (2 ^ m)])
       = free_update (of_nat (2 ^ K)) (of_nat 0) bm"
    "length bm = length (bitmap b)" "repr bm K 0 (tree_free K p (tree_of (bitmap b) K 0))"
    "\<forall>x. \<not> below K 0 x \<longrightarrow> bm ! x = bitmap b ! x"
    using free_refines [OF f(5) bl' f(1,3,2)] by blast
  have "p + 2 ^ m \<le> 2 ^ K" using blocks_bounds [OF f(4) bl'] by simp
  moreover have "(0::nat) < 2 ^ m" by simp
  ultimately have pK: "p < 2 ^ K" by linarith
  have K61: "(2::nat) ^ K < 2 ^ 61" using f(1) by (rule pow2_small)
  have us: "unat (of_nat p :: u64) = p" using pK K61 by (intro unat_small) simp
  have js: "unat (of_nat j :: u64) = j" using *(2) f(2) by (intro unat_of_nat_64) simp
  have "Suc (Suc 0 * 2 ^ K - 1 + p) = 2 ^ K + p" by simp
  then have "(of_nat (Suc 0 * 2 ^ K - 1 + p) :: u64) + 1 = of_nat p + of_nat (2 ^ K)"
    by (metis of_nat_Suc of_nat_add add.commute)
  then have idx: "of_nat p + of_nat (2 ^ K) - 1 = (of_nat (Suc 0 * 2 ^ K - 1 + p) :: u64)"
    by (metis add_diff_cancel_right')
  have "free_update (of_nat (2 ^ K)) (of_nat 0) bm = Inr bm" by (simp add: free_update.simps)
  with * show ?thesis
    unfolding buddy_free_def f(6) idx
    using us js pK f(7) rc
    by (auto simp del: of_nat_power of_nat_0 intro!: exI [of _ bm])
qed

lemma buddy_inv_upd:
  assumes "buddy_inv K b" "length bm = length (bitmap b)" "repr bm K 0 t" "length rc = length (ref_cnt b)"
  shows "buddy_inv K (b\<lparr>bitmap := bm, ref_cnt := rc\<rparr>)"
    and "allocated K (b\<lparr>bitmap := bm, ref_cnt := rc\<rparr>) = blocks K 0 t"
  using assms by (auto simp: buddy_inv_def allocated_def repr_tree_of)

lemma allocated_bound: "buddy_inv K b \<Longrightarrow> (p, m) \<in> allocated K b \<Longrightarrow> p < 2 ^ K"
  and allocated_fits: "buddy_inv K b \<Longrightarrow> (p, m) \<in> allocated K b \<Longrightarrow> p + 2 ^ m \<le> 2 ^ K"
proof -
  assume a: "buddy_inv K b" "(p, m) \<in> allocated K b"
  then show f: "p + 2 ^ m \<le> 2 ^ K"
    using blocks_bounds [of K "tree_of (bitmap b) K 0" "(p, m)" 0] buddy_inv_facts(4) [of K b]
    by (simp add: allocated_def)
  moreover have "(0::nat) < 2 ^ m" by simp
  ultimately show "p < 2 ^ K" by linarith
qed

lemma allocated_disjoint:
  "buddy_inv K b \<Longrightarrow> x \<in> allocated K b \<Longrightarrow> y \<in> allocated K b \<Longrightarrow> x \<noteq> y \<Longrightarrow> pages x \<inter> pages y = {}"
  using blocks_disjoint [OF buddy_inv_facts(4)] unfolding allocated_def by blast

lemma pages_start: "p \<in> pages (p, m)"
  by (simp add: pages_def)

lemma allocated_same_start:
  "buddy_inv K b \<Longrightarrow> (p, m) \<in> allocated K b \<Longrightarrow> (p, n) \<in> allocated K b \<Longrightarrow> m = n"
  using allocated_disjoint [of K b "(p, m)" "(p, n)"] pages_start by blast

lemma buddy_alloc_success_aux:
  assumes inv: "mm_inv K b" and r: "req_order r n" and room: "\<exists>s. free_run K b n s" and n: "n \<le> K"
  shows "\<exists>pfn b'. buddy_alloc r b = Inr (pfn, b') \<and> free_run K b n (unat pfn) \<and> mm_inv K b'
    \<and> allocated K b' = insert (unat pfn, n) (allocated K b)
    \<and> ref_cnt b' = (ref_cnt b)[unat pfn := 1]
    \<and> (\<forall>s. free_run K b n s \<longrightarrow> unat pfn \<le> s)"
proof -
  have bi: "buddy_inv K b" and co: "counts_ok K b" using inv by (simp_all add: mm_inv_def)
  note f = buddy_inv_facts [OF bi]
  have ok: "2 ^ n \<le> longest K (tree_of (bitmap b) K 0)" using free_run_iff [OF bi n] room by simp
  obtain p t' where t': "tree_alloc K n (tree_of (bitmap b) K 0) = (p, t')" by fastforce
  obtain bm where bm: "buddy_alloc r b = Inr (of_nat p, b\<lparr>bitmap := bm, ref_cnt := (ref_cnt b)[p := 1]\<rparr>)"
    "length bm = length (bitmap b)" "repr bm K 0 t'"
    using buddy_alloc_ok [OF bi n r ok t'] by blast
  have bl: "blocks K 0 t' = insert (p, n) (allocated K b)"
    using tree_alloc_blocks [OF f(4) n ok t', of 0] by (simp add: allocated_def)
  have dj: "\<And>x. x \<in> allocated K b \<Longrightarrow> pages (p, n) \<inter> pages x = {}"
    using tree_alloc_disjoint [OF f(4) n ok t', of _ 0] by (simp add: allocated_def)
  note up = buddy_inv_upd [OF bi bm(2,3), of "(ref_cnt b)[p := 1]"]
  have pb: "p + 2 ^ n \<le> 2 ^ K" by (rule tree_alloc_bound [OF f(4) n ok t'])
  moreover have "(0::nat) < 2 ^ n" by simp
  ultimately have pK: "p < 2 ^ K" by linarith
  then have us: "unat (of_nat p :: u64) = p" using pow2_small [OF f(1)] by (intro unat_small) simp
  have "2 ^ n dvd p"
    using blocks_aligned [of K t' 0 "(p, n)"] tree_alloc_wf [OF f(4) n ok t'] bl by simp
  then have run: "free_run K b n p" using pb dj by (auto simp: free_run_def pages_def)
  have low: "\<And>s. free_run K b n s \<Longrightarrow> p \<le> s"
    using tree_alloc_lowest [OF f(4) n ok t', of 0] by (auto simp: free_run_def allocated_def)
  have "counts_ok K (b\<lparr>bitmap := bm, ref_cnt := (ref_cnt b)[p := 1]\<rparr>)"
    using co pK f(7) unfolding counts_ok_def up(2) [simplified] bl
    by (auto simp: nth_list_update)
  with up bl run us bm(1) low show ?thesis by (auto simp: mm_inv_def)
qed

text \<open>
  C2: whenever an aligned run of the requested order is free, \<open>buddy_alloc\<close> returns the lowest
  one, marks exactly that block allocated with one reference, and keeps the invariant.
\<close>

theorem buddy_alloc_success:
  assumes "mm_inv K b" and "req_order r n" and "\<exists>s. free_run K b n s" and "n \<le> K"
  shows "\<exists>pfn b'. buddy_alloc r b = Inr (pfn, b') \<and> free_run K b n (unat pfn) \<and> mm_inv K b'
    \<and> allocated K b' = insert (unat pfn, n) (allocated K b)
    \<and> ref_cnt b' = (ref_cnt b)[unat pfn := 1]
    \<and> (\<forall>s. free_run K b n s \<longrightarrow> unat pfn \<le> s)"
  using assms by (rule buddy_alloc_success_aux)

lemma buddy_alloc_refused_aux:
  assumes inv: "mm_inv K b" and r: "req_order r n" "unat r \<le> 2 ^ 63"
    and full: "\<nexists>s. free_run K b n s"
  shows "buddy_alloc r b = Inr (0, b)"
proof -
  have bi: "buddy_inv K b" using inv by (simp add: mm_inv_def)
  note f = buddy_inv_facts [OF bi]
  have lt: "longest K (tree_of (bitmap b) K 0) < 2 ^ n"
  proof (cases "n \<le> K")
    case True
    then show ?thesis using full free_run_iff [OF bi True] by simp
  next
    case False
    then have "(2::nat) ^ K < 2 ^ n" by simp
    then show ?thesis using longest_le [OF f(4)] by linarith
  qed
  have "n \<le> 63"
  proof (rule ccontr)
    assume "\<not> n \<le> 63"
    then have "n \<noteq> 0" "63 \<le> n - 1" by simp_all
    then have "2 ^ 63 < unat r" using r(1) power_increasing [of 63 "n - 1" "2::nat"]
      by (auto simp: req_order_def)
    with r(2) show False by simp
  qed
  then have u: "unat (2 ^ n :: u64) = 2 ^ n" by (simp add: unat_pow2)
  then have "bitmap b ! 0 < of_nat (2 ^ n)" using lt f(9) by (simp add: word_less_nat_alt)
  then show ?thesis
    unfolding buddy_alloc_def Let_def round_request [OF r] using f(8) by simp
qed

text \<open>C5: allocation is refused only when there is no room.\<close>

theorem buddy_alloc_refused:
  assumes "mm_inv K b" and "req_order r n" and "unat r \<le> 2 ^ 63" and "\<nexists>s. free_run K b n s"
  shows "buddy_alloc r b = Inr (0, b)"
  using assms by (rule buddy_alloc_refused_aux)

lemma page_ref_dec_effect_aux:
  assumes inv: "mm_inv K b" and bl: "(p, m) \<in> allocated K b"
  shows "\<exists>b'. page_ref_dec (of_nat p) b = Inr b' \<and> mm_inv K b'
    \<and> ref_cnt b' = (ref_cnt b)[p := ref_cnt b ! p - 1]
    \<and> allocated K b' = (if ref_cnt b ! p = 1 then allocated K b - {(p, m)} else allocated K b)"
proof -
  have bi: "buddy_inv K b" and co: "counts_ok K b" using inv by (simp_all add: mm_inv_def)
  note f = buddy_inv_facts [OF bi]
  have pK: "p < 2 ^ K" by (rule allocated_bound [OF bi bl])
  then have us: "unat (of_nat p :: u64) = p" using pow2_small [OF f(1)] by (intro unat_small) simp
  have nz: "ref_cnt b ! p \<noteq> 0" using co bl pK by (force simp: counts_ok_def)
  define b1 where "b1 = b\<lparr>ref_cnt := (ref_cnt b)[p := ref_cnt b ! p - 1]\<rparr>"
  have bi1: "buddy_inv K b1" and al1: "allocated K b1 = allocated K b"
    using bi by (simp_all add: b1_def buddy_inv_def allocated_def)
  have rc1: "ref_cnt b1 ! p = ref_cnt b ! p - 1" using pK f(7) by (simp add: b1_def)
  have run: "page_ref_dec (of_nat p) b = (if ref_cnt b ! p = 1 then buddy_free (of_nat p) b1 else Inr b1)"
    using us pK f(7) nz rc1 by (simp add: page_ref_dec_def b1_def word_gt_0)
  show ?thesis
  proof (cases "ref_cnt b ! p = 1")
    case True
    then have "ref_cnt b1 ! p = 0" using rc1 by simp
    then obtain bm where bm: "buddy_free (of_nat p) b1 = Inr (b1\<lparr>bitmap := bm\<rparr>)"
      "length bm = length (bitmap b1)" "repr bm K 0 (tree_free K p (tree_of (bitmap b1) K 0))"
      using buddy_free_ok [OF bi1] bl al1 by metis
    have same: "b1\<lparr>bitmap := bm, ref_cnt := ref_cnt b1\<rparr> = b1\<lparr>bitmap := bm\<rparr>" by simp
    note up = buddy_inv_upd [OF bi1 bm(2,3), of "ref_cnt b1", unfolded same]
    have "allocated K (b1\<lparr>bitmap := bm\<rparr>) = allocated K b - {(p, m)}"
      using up(2) tree_free_blocks [OF buddy_inv_facts(4) [OF bi1], of 0 p m] bl al1
      by (simp add: allocated_def)
    moreover have "p \<notin> fst ` (allocated K b - {(p, m)})"
      using allocated_same_start [OF bi bl] by auto
    moreover have "ref_cnt (b1\<lparr>bitmap := bm\<rparr>) = (ref_cnt b)[p := 0]" using True by (simp add: b1_def)
    ultimately show ?thesis
      using up(1) run True bm(1) co pK f(7)
      by (auto simp: mm_inv_def counts_ok_def nth_list_update)
  next
    case False
    moreover have "ref_cnt b1 = (ref_cnt b)[p := ref_cnt b ! p - 1]" by (simp add: b1_def)
    ultimately have "counts_ok K b1"
      using co nz pK f(7) unfolding counts_ok_def al1 by (auto simp: nth_list_update)
    with False run bi1 al1 show ?thesis by (auto simp: mm_inv_def b1_def)
  qed
qed

text \<open>
  C39: Dropping a reference of an allocated block lowers its count by one and changes no other count;
  the block is released exactly when this was its last reference, every other block stays allocated,
  and the invariant is kept.
\<close>

theorem page_ref_dec_effect:
  assumes "mm_inv K b" and "(p, m) \<in> allocated K b"
  shows "\<exists>b'. page_ref_dec (of_nat p) b = Inr b' \<and> mm_inv K b'
    \<and> ref_cnt b' = (ref_cnt b)[p := ref_cnt b ! p - 1]
    \<and> allocated K b' = (if ref_cnt b ! p = 1 then allocated K b - {(p, m)} else allocated K b)"
  using assms by (rule page_ref_dec_effect_aux)


text \<open>C3: allocating and dropping the only reference restores the state bit for bit.\<close>

theorem alloc_release_roundtrip:
  assumes inv: "mm_inv K b" and r: "req_order r n" and room: "\<exists>s. free_run K b n s" and n: "n \<le> K"
    and al: "buddy_alloc r b = Inr (pfn, b')"
  shows "page_ref_dec pfn b' = Inr b"
proof -
  have bi: "buddy_inv K b" and co: "counts_ok K b" using inv by (simp_all add: mm_inv_def)
  note f = buddy_inv_facts [OF bi]
  have ok: "2 ^ n \<le> longest K (tree_of (bitmap b) K 0)" using free_run_iff [OF bi n] room by simp
  obtain p t' where t': "tree_alloc K n (tree_of (bitmap b) K 0) = (p, t')" by fastforce
  obtain bm where bm: "buddy_alloc r b = Inr (of_nat p, b\<lparr>bitmap := bm, ref_cnt := (ref_cnt b)[p := 1]\<rparr>)"
    "length bm = length (bitmap b)" "repr bm K 0 t'" "\<forall>x. \<not> below K 0 x \<longrightarrow> bm ! x = bitmap b ! x"
    using buddy_alloc_ok [OF bi n r ok t'] by blast
  have bl: "blocks K 0 t' = insert (p, n) (allocated K b)"
    using tree_alloc_blocks [OF f(4) n ok t', of 0] by (simp add: allocated_def)
  have dj: "\<And>x. x \<in> allocated K b \<Longrightarrow> pages (p, n) \<inter> pages x = {}"
    using tree_alloc_disjoint [OF f(4) n ok t', of _ 0] by (simp add: allocated_def)
  have pb: "p + 2 ^ n \<le> 2 ^ K" by (rule tree_alloc_bound [OF f(4) n ok t'])
  moreover have "(0::nat) < 2 ^ n" by simp
  ultimately have pK: "p < 2 ^ K" by linarith
  then have us: "unat (of_nat p :: u64) = p" using pow2_small [OF f(1)] by (intro unat_small) simp
  have "p \<notin> fst ` allocated K b" using dj by (fastforce simp: pages_def)
  then have rc0: "ref_cnt b ! p = 0" using co pK by (auto simp: counts_ok_def)
  define b1 where "b1 = b\<lparr>bitmap := bm, ref_cnt := (ref_cnt b)[p := 0]\<rparr>"
  have b1: "b1 = b\<lparr>bitmap := bm\<rparr>" using rc0 by (simp add: b1_def list_update_id flip: rc0)
  have inv1: "buddy_inv K b1" "allocated K b1 = insert (p, n) (allocated K b)"
    using buddy_inv_upd [OF bi bm(2,3)] bl by (simp_all add: b1_def)
  then obtain bm2 where bm2: "buddy_free (of_nat p) b1 = Inr (b1\<lparr>bitmap := bm2\<rparr>)"
    "length bm2 = length (bitmap b1)" "repr bm2 K 0 (tree_free K p (tree_of (bitmap b1) K 0))"
    "\<forall>x. \<not> below K 0 x \<longrightarrow> bm2 ! x = bitmap b1 ! x"
    using buddy_free_ok [OF inv1(1), of p n] rc0 b1 by auto
  have "tree_of (bitmap b1) K 0 = t'" using bm(3) by (simp add: b1_def repr_tree_of)
  then have "repr bm2 K 0 (tree_of (bitmap b) K 0)"
    using bm2(3) tree_free_alloc [OF f(4) n ok t'] by simp
  then have "bm2 = bitmap b"
    using bm2(2,4) bm(2,4) repr_unique [OF _ f(5)]
    by (intro nth_equalityI) (auto simp: b1_def)
  then have fr: "buddy_free (of_nat p) b1 = Inr b" using bm2(1) b1 by simp
  have "pfn = of_nat p" "b' = b\<lparr>bitmap := bm, ref_cnt := (ref_cnt b)[p := 1]\<rparr>"
    using al bm(1) by simp_all
  then have "page_ref_dec pfn b' = buddy_free (of_nat p) b1"
    using us pK f(7) by (simp add: page_ref_dec_def b1_def)
  with fr show ?thesis by simp
qed

text \<open>\<open>kfree\<close> of a page in use changes nothing: its count is not zero.\<close>

lemma kfree_in_use_noop:
  assumes inv: "mm_inv K b" and bl: "(p, m) \<in> allocated K b"
  shows "kfree (PA2VA (PFN2PHYS (of_nat p))) b = Inr b"
proof -
  have bi: "buddy_inv K b" and co: "counts_ok K b" using inv by (simp_all add: mm_inv_def)
  note f = buddy_inv_facts [OF bi]
  have pK: "p < 2 ^ K" by (rule allocated_bound [OF bi bl])
  then have us: "unat (of_nat p :: u64) = p" using pow2_small [OF f(1)] by (intro unat_small) simp
  have nz: "ref_cnt b ! p \<noteq> 0" using co bl pK by (force simp: counts_ok_def)
  show ?thesis
    unfolding kfree_def free_pages_def VA2PA_PA2VA pfn_roundtrip [OF bi pK]
    using us nz pK f(7) by (simp add: buddy_free_def)
qed

end
