(* ===== verification/Buddy_Init.thy ===== *)
theory Buddy_Init
  imports Buddy_Correct
begin

text \<open>
  The allocator as \<^verbatim>\<open>buddy_init\<close> leaves it: a bitmap in which everything is free, from which the
  pages of the kernel image and of the allocator's own arrays are then taken one by one.
\<close>

section \<open>Filling the bitmap\<close>

text \<open>After \<open>j\<close> rounds: the entries below \<open>j\<close> hold the block size of their level.\<close>

definition filled :: "nat \<Rightarrow> nat \<Rightarrow> u64 list \<Rightarrow> bool" where
  "filled K j bm \<longleftrightarrow> length bm = 2 ^ Suc K \<and>
     (\<forall>x e. x < j \<longrightarrow> 2 ^ e \<le> Suc x \<longrightarrow> Suc x < 2 ^ Suc e \<longrightarrow> unat (bm ! x) = 2 ^ (K - e))"

definition fill_size :: "nat \<Rightarrow> nat \<Rightarrow> nat \<Rightarrow> bool" where
  "fill_size K j ns \<longleftrightarrow> (if j = 0 then ns = 2 ^ Suc K
     else \<exists>e \<le> K. 2 ^ e \<le> j \<and> j < 2 ^ Suc e \<and> ns = 2 ^ (K - e))"

lemma pow2_between:
  assumes "2 ^ e \<le> (x::nat)" "x < 2 ^ Suc e" "2 ^ f \<le> x" "x < 2 ^ Suc f"
  shows "e = f"
proof -
  have le: "a \<le> b" if "2 ^ a \<le> x" "x < 2 ^ Suc b" for a b
  proof -
    have "(2::nat) ^ a < 2 ^ Suc b" using that by linarith
    then have "a < Suc b" by (rule power_less_imp_less_exp [rotated]) simp
    then show ?thesis by simp
  qed
  show ?thesis using le [of e f] le [of f e] assms by simp
qed

lemma fill_size_step:
  assumes "fill_size K j ns" "Suc j < 2 ^ Suc K"
  shows "fill_size K (Suc j) (if \<exists>n. Suc j = 2 ^ n then ns div 2 else ns)"
proof (cases "j = 0")
  case True
  have "\<exists>n. Suc j = 2 ^ n" using True by (auto intro: exI [of _ 0])
  then show ?thesis using assms True by (auto simp: fill_size_def intro!: exI [of _ 0])
next
  case False
  then obtain e where e: "e \<le> K" "2 ^ e \<le> j" "j < 2 ^ Suc e" "ns = 2 ^ (K - e)"
    using assms(1) by (auto simp: fill_size_def)
  show ?thesis
  proof (cases "\<exists>n. Suc j = 2 ^ n")
    case True
    then obtain n where n: "Suc j = 2 ^ n" by blast
    have "n = Suc e"
    proof -
      have "(2::nat) ^ e < 2 ^ n" "(2::nat) ^ n \<le> 2 ^ Suc e" using n e(2,3) by linarith+
      then have "e < n" "n \<le> Suc e"
        using power_less_imp_less_exp [of "2::nat" e n] power_le_imp_le_exp [of "2::nat" n "Suc e"]
        by simp_all
      then show ?thesis by simp
    qed
    moreover have "n \<le> K"
    proof -
      have "(2::nat) ^ n < 2 ^ Suc K" using n assms(2) by simp
      then have "n < Suc K" by (rule power_less_imp_less_exp [rotated]) simp
      then show ?thesis by simp
    qed
    moreover have "ns div 2 = 2 ^ (K - n)"
      using e(4) calculation by (simp add: Suc_diff_Suc flip: power_Suc)
        (metis Suc_diff_Suc Suc_le_lessD nonzero_mult_div_cancel_left power_Suc zero_neq_numeral)
    ultimately show ?thesis using n True by (auto simp: fill_size_def)
  next
    case no: False
    then have "Suc j \<noteq> 2 ^ Suc e" by blast
    then have "Suc j < 2 ^ Suc e" using e(3) by simp
    with no e show ?thesis by (auto simp: fill_size_def)
  qed
qed

lemma filled_step:
  assumes "filled K j bm" "fill_size K (Suc j) (unat ns)" "Suc j < 2 ^ Suc K"
  shows "filled K (Suc j) (bm[j := ns])"
proof -
  obtain e where e: "2 ^ e \<le> Suc j" "Suc j < 2 ^ Suc e" "unat ns = 2 ^ (K - e)"
    using assms(2) by (auto simp: fill_size_def)
  have len: "length bm = 2 ^ Suc K" using assms(1) by (simp add: filled_def)
  have "unat (bm[j := ns] ! x) = 2 ^ (K - f)"
    if x: "x < Suc j" "2 ^ f \<le> Suc x" "Suc x < 2 ^ Suc f" for x f
  proof (cases "x = j")
    case True
    then have "f = e" using pow2_between [OF _ _ e(1,2)] x by blast
    moreover have "j < length bm" using len assms(3) by linarith
    ultimately show ?thesis using True e(3) by simp
  next
    case False
    then have "x < j" using x(1) by simp
    with x(2,3) have "unat (bm ! x) = 2 ^ (K - f)" using assms(1) unfolding filled_def by blast
    with False show ?thesis by simp
  qed
  with len show ?thesis by (simp add: filled_def)
qed

lemma filled_full:
  assumes "filled K (2 ^ Suc K - 1) bm" "k \<le> K" "2 ^ (K - k) \<le> Suc i" "Suc i < 2 ^ Suc (K - k)"
  shows "full bm k i"
  using assms(2-)
proof (induction k arbitrary: i)
  case 0
  then have "i < 2 ^ Suc K - 1" by simp
  with 0 assms(1) show ?case by (auto simp: filled_def)
next
  case (Suc k)
  define e where "e = K - Suc k"
  have kk: "K - k = Suc e" using Suc.prems(1) by (simp add: e_def)
  have pe: "k \<le> K" "2 ^ e \<le> Suc i" "Suc i < 2 ^ Suc e" using Suc.prems by (simp_all add: e_def)
  have "(2::nat) ^ Suc (K - Suc k) \<le> 2 ^ Suc K" by (intro power_increasing) simp_all
  then have "i < 2 ^ Suc K - 1" using Suc.prems(3) by linarith
  then have "unat (bm ! i) = 2 ^ (K - (K - Suc k))"
    using assms(1) Suc.prems(2,3) unfolding filled_def by blast
  then have "unat (bm ! i) = 2 ^ Suc k" using Suc.prems(1) by simp
  moreover have "full bm k (lch i)"
    by (rule Suc.IH, use pe in \<open>simp_all only: kk\<close>) (use pe in \<open>simp_all add: lch_def\<close>)
  moreover have "full bm k (rch i)"
    by (rule Suc.IH, use pe in \<open>simp_all only: kk\<close>) (use pe in \<open>simp_all add: rch_def\<close>)
  ultimately show ?case by simp
qed

lemma pow2_word_nat:
  assumes "Suc j < 2 ^ 62"
  shows "IS_POWER_OF_2 (of_nat j + 1) \<longleftrightarrow> (\<exists>n. Suc j = 2 ^ n)"
proof -
  have w: "of_nat j + 1 = (of_nat (Suc j) :: u64)" by simp
  have u: "unat (of_nat (Suc j) :: u64) = Suc j" using assms by (intro unat_of_nat_64) simp
  then have nz: "of_nat (Suc j) \<noteq> (0 :: u64)" by (metis nat.distinct(1) unat_0)
  show ?thesis
    unfolding w pow2_iff [OF nz]
  proof
    assume "\<exists>n<64. of_nat (Suc j) = (2 ^ n :: u64)"
    then obtain n where n: "n < 64" "of_nat (Suc j) = (2 ^ n :: u64)" by blast
    have "unat (2 ^ n :: u64) = 2 ^ n" using n(1) by (simp add: unat_pow2)
    then have "Suc j = 2 ^ n" using u n(2) by simp
    then show "\<exists>n. Suc j = 2 ^ n" by blast
  next
    assume "\<exists>n. Suc j = 2 ^ n"
    then obtain n where n: "Suc j = 2 ^ n" by blast
    then have "(2::nat) ^ n < 2 ^ 62" using assms by simp
    then have "n < 62" by (rule power_less_imp_less_exp [rotated]) simp
    then show "\<exists>n<64. of_nat (Suc j) = (2 ^ n :: u64)" using n by (intro exI [of _ n]) simp
  qed
qed

text \<open>The loop of \<open>buddy_init\<close> that fills the bitmap.\<close>

lemma fill_loop:
  assumes K: "K \<le> 51"
  shows "\<exists>ns bm. for_range 0 (2 * of_nat (2 ^ K) - 1) fill_node
      (of_nat (2 ^ K) * 2, replicate (unat (2 * of_nat (2 ^ K) :: u64)) 0) = Inr (ns, bm)
    \<and> length bm = 2 ^ Suc K \<and> full bm K 0"
proof -
  have "(2::nat) ^ Suc K \<le> 2 ^ 52" using K by (intro power_increasing) simp_all
  then have s: "(2::nat) ^ Suc K < 2 ^ 60" by simp
  then have s61: "(2::nat) ^ Suc K < 2 ^ 61" by simp
  have w: "2 * of_nat (2 ^ K) = (of_nat (2 ^ Suc K) :: u64)" by simp
  have top: "unat (of_nat (2 ^ Suc K) :: u64) = 2 ^ Suc K" by (rule unat_small [OF s61])
  have "of_nat (2 ^ Suc K) - 1 = (of_nat (2 ^ Suc K - 1) :: u64)" by simp
  then have lim: "unat (of_nat (2 ^ Suc K) - 1 :: u64) = 2 ^ Suc K - 1"
    using s61 by (simp only:) (intro unat_small, linarith)
  let ?P = "\<lambda>i (ns, bm). filled K (unat (i :: u64)) bm \<and> fill_size K (unat i) (unat (ns :: u64))"
  have "\<exists>st. for_range 0 (of_nat (2 ^ Suc K) - 1) fill_node
      (of_nat (2 ^ Suc K), replicate (2 ^ Suc K) 0) = Inr st \<and> ?P (of_nat (2 ^ Suc K) - 1) st"
  proof (rule for_range_inv)
    show "?P 0 (of_nat (2 ^ Suc K), replicate (2 ^ Suc K) 0)"
      using top by (simp add: filled_def fill_size_def del: of_nat_power)
  next
    fix i :: u64 and st :: "u64 \<times> u64 list"
    assume i: "i < of_nat (2 ^ Suc K) - 1" and P: "?P i st"
    obtain ns bm where st: "st = (ns, bm)" by fastforce
    have ui: "unat i < 2 ^ Suc K - 1" using i lim by (simp add: word_less_nat_alt)
    then have b: "Suc (unat i) < 2 ^ Suc K" by linarith
    have u1: "unat (i + 1) = Suc (unat i)" using word_Suc_less(1) [OF i] .
    have "Suc (unat i) < 2 ^ 62" using b s by simp
    then have pw: "IS_POWER_OF_2 (i + 1) \<longleftrightarrow> (\<exists>n. Suc (unat i) = 2 ^ n)"
      using pow2_word_nat [of "unat i"] by simp
    define ns' where "ns' = (if IS_POWER_OF_2 (i + 1) then ns div 2 else ns)"
    have "fill_size K (Suc (unat i)) (unat ns')"
      using fill_size_step [OF _ b, of "unat ns"] P st pw
      by (cases "IS_POWER_OF_2 (i + 1)") (simp_all add: ns'_def unat_div)
    moreover from this have "filled K (Suc (unat i)) (bm[unat i := ns'])"
      using P st b by (intro filled_step) simp_all
    moreover have "unat i < length bm" using P st b by (simp add: filled_def)
    moreover from this have "fill_node i st = Inr (ns', bm[unat i := ns'])"
      by (simp add: fill_node_def st ns'_def Let_def)
    ultimately show "\<exists>st'. fill_node i st = Inr st' \<and> ?P (i + 1) st'"
      using u1 by simp
  qed simp
  then obtain ns bm where *: "for_range 0 (of_nat (2 ^ Suc K) - 1) fill_node
      (of_nat (2 ^ Suc K), replicate (2 ^ Suc K) 0) = Inr (ns, bm)" "filled K (2 ^ Suc K - 1) bm"
    using lim by auto
  have "full bm K 0" by (rule filled_full [OF *(2)]) simp_all
  moreover have "length bm = 2 ^ Suc K" using *(2) by (simp add: filled_def)
  ultimately show ?thesis
    using * unfolding w top mult.commute [of _ 2] by blast
qed

section \<open>Reserving the pages of the image and of the arrays\<close>

definition taken :: "nat \<Rightarrow> (nat \<times> nat) set" where
  "taken m = {(q, 0) | q. q < m}"

lemma taken_Suc: "taken (Suc m) = insert (m, 0) (taken m)"
  by (auto simp: taken_def less_Suc_eq)

lemma reserve_one:
  assumes inv: "mm_inv K b" and al: "allocated K b = taken m" and m: "m < 2 ^ K"
  shows "\<exists>b'. buddy_alloc 1 b = Inr (of_nat m, b') \<and> mm_inv K b' \<and> allocated K b' = taken (Suc m)"
proof -
  have run: "free_run K b 0 m" using al m by (auto simp: free_run_def taken_def pages_def)
  have "req_order 1 0" by (simp add: req_order_def)
  then obtain pfn b' where *: "buddy_alloc 1 b = Inr (pfn, b')" "free_run K b 0 (unat pfn)" "mm_inv K b'"
    "allocated K b' = insert (unat pfn, 0) (allocated K b)" "\<forall>s. free_run K b 0 s \<longrightarrow> unat pfn \<le> s"
    using buddy_alloc_success_aux [OF inv, of 1 0] run by auto
  have "\<not> unat pfn < m"
  proof
    assume "unat pfn < m"
    then have "(unat pfn, 0) \<in> allocated K b" using al by (simp add: taken_def)
    with *(2) show False by (fastforce simp: free_run_def pages_def)
  qed
  then have "unat pfn = m" using *(5) run by fastforce
  moreover from this have "pfn = of_nat m" by auto
  ultimately show ?thesis using * al by (auto simp: taken_Suc)
qed

lemma PFN2PHYS_of_nat:
  assumes "m \<le> 2 ^ 51"
  shows "unat (PFN2PHYS (of_nat m)) = m * 4096 + unat PHY_START"
proof -
  have "push_bit 12 (of_nat m) = (of_nat (m * 4096) :: u64)" by (simp add: push_bit_eq_mult)
  moreover have "unat (of_nat (m * 4096) :: u64) = m * 4096"
    using assms by (intro unat_of_nat_64) simp
  ultimately have "unat (push_bit 12 (of_nat m) :: u64) = m * 4096" by simp
  then show ?thesis using assms by (simp add: PFN2PHYS_def PHY_START_def unat_word_ariths)
qed

definition reserved_pages :: "u64 \<Rightarrow> nat" where
  "reserved_pages limit = (unat limit - unat PHY_START + 4095) div 4096"

lemma reserve_loop_ok:
  assumes "mm_inv K b" "allocated K b = taken m" "m \<le> reserved_pages limit" "reserved_pages limit \<le> 2 ^ K"
  shows "\<exists>b'. reserve_loop (of_nat m) limit b = Inr b' \<and> mm_inv K b'
    \<and> allocated K b' = taken (reserved_pages limit)"
  using assms
proof (induction "reserved_pages limit - m" arbitrary: m b)
  case 0
  then have m: "m = reserved_pages limit" by simp
  have "K \<le> 51" using 0(2) by (simp add: mm_inv_def buddy_inv_def)
  then have "(2::nat) ^ K \<le> 2 ^ 51" by (intro power_increasing) simp_all
  then have "m \<le> 2 ^ 51" using 0 m by linarith
  then have "\<not> PFN2PHYS (of_nat m) < limit"
    using m by (auto simp: word_less_nat_alt PFN2PHYS_of_nat reserved_pages_def)
  with 0 m show ?case by (simp add: reserve_loop.simps)
next
  case (Suc d)
  then have m: "m < reserved_pages limit" by simp
  have "K \<le> 51" using Suc(3) by (simp add: mm_inv_def buddy_inv_def)
  then have "(2::nat) ^ K \<le> 2 ^ 51" by (intro power_increasing) simp_all
  then have m51: "m < 2 ^ 51" using Suc.prems(4) m by linarith
  then have lt: "PFN2PHYS (of_nat m) < limit"
    using m by (simp add: word_less_nat_alt PFN2PHYS_of_nat reserved_pages_def)
  have mK: "m < 2 ^ K" using m Suc.prems(4) by simp
  obtain b' where b': "buddy_alloc 1 b = Inr (of_nat m, b')" "mm_inv K b'" "allocated K b' = taken (Suc m)"
    using reserve_one [OF Suc.prems(1,2) mK] by blast
  have w: "of_nat m + 1 = (of_nat (Suc m) :: u64)" by simp
  have "unat (of_nat (Suc m) :: u64) = Suc m" using m51 by (intro unat_of_nat_64) simp
  then have nz: "of_nat (Suc m) \<noteq> (0 :: u64)" by (metis nat.distinct(1) unat_0)
  have "reserve_loop (of_nat m) limit b = reserve_loop (of_nat (Suc m)) limit b'"
    by (subst reserve_loop.simps) (use lt nz b'(1) in \<open>simp only: w if_True if_False bindr_Inr prod.case\<close>)
  then show ?case
    using Suc.hyps(1) [of "Suc m" b'] Suc.hyps(2) b'(2,3) m Suc.prems(4) by simp
qed

lemma buddy_init_ok:
  assumes "reserved_pages (VA2PA (fps + 0xC0000)) \<le> 32768"
  shows "\<exists>b. buddy_init fps = Inr (b, fps + 0xC0000) \<and> mm_inv 15 b
    \<and> allocated 15 b = {(q, 0) | q. q < reserved_pages (VA2PA (fps + 0xC0000))}"
proof -
  have sz: "PHY_SIZE div PGSIZE = of_nat (2 ^ 15)" by (simp add: layout)
  have pw: "IS_POWER_OF_2 (of_nat (2 ^ 15))" by (simp add: IS_POWER_OF_2_def)
  obtain ns bm where fill: "for_range 0 (2 * of_nat (2 ^ 15) - 1) fill_node
      (of_nat (2 ^ 15) * 2, replicate (unat (2 * of_nat (2 ^ 15) :: u64)) 0) = Inr (ns, bm)"
    "length bm = 2 ^ Suc 15" "full bm 15 0"
    using fill_loop [of 15] by auto
  define b0 where "b0 = \<lparr>bsize = of_nat (2 ^ 15), bitmap = bm, ref_cnt = replicate (unat (of_nat (2 ^ 15) :: u64)) 0\<rparr>"
  have tf: "tree_of bm 15 0 = Free" using fill(3) repr_tree_of [of bm 15 0 Free] by simp
  have "mm_inv 15 b0" "allocated 15 b0 = taken 0"
    using fill tf by (simp_all add: mm_inv_def buddy_inv_def counts_ok_def allocated_def b0_def taken_def)
  then obtain b where b: "reserve_loop (of_nat 0) (VA2PA (fps + 0xC0000)) b0 = Inr b" "mm_inv 15 b"
    "allocated 15 b = taken (reserved_pages (VA2PA (fps + 0xC0000)))"
    using reserve_loop_ok [of 15 b0 0 "VA2PA (fps + 0xC0000)"] assms by auto
  have "fps + 2 * of_nat (2 ^ 15) * 8 + of_nat (2 ^ 15) * 8 = fps + 0xC0000" by simp
  then have "buddy_init fps = Inr (b, fps + 0xC0000)"
    unfolding buddy_init_def sz Let_def if_not_P [OF notI] buddy_setup_def
    using pw fill b(1) by (simp add: b0_def add.commute del: of_nat_power)
  with b show ?thesis by (simp add: taken_def)
qed

text \<open>C4: the allocator as \<open>buddy_init\<close> leaves it.\<close>

theorem buddy_init_reserves:
  assumes "reserved_pages (VA2PA (fps + 0xC0000)) \<le> 32768"
  shows "\<exists>b. buddy_init fps = Inr (b, fps + 0xC0000) \<and> mm_inv 15 b
    \<and> allocated 15 b = {(q, 0) | q. q < reserved_pages (VA2PA (fps + 0xC0000))}"
  by (rule buddy_init_ok [OF assms])

end
