(* ===== verification/Buddy_Witness.thy ===== *)
theory Buddy_Witness
  imports Buddy_Init
begin

text \<open>Concrete allocator states on which the properties of the allocator are applied.\<close>

text \<open>Four pages, all free; and the same after page 0 was allocated.\<close>

definition four_free :: buddy where
  "four_free = \<lparr>bsize = 4, bitmap = [4, 2, 2, 1, 1, 1, 1, 0], ref_cnt = [0, 0, 0, 0]\<rparr>"

definition four_one_used :: buddy where
  "four_one_used = \<lparr>bsize = 4, bitmap = [2, 1, 2, 0, 1, 1, 1, 0], ref_cnt = [1, 0, 0, 0]\<rparr>"

lemma four_free_tree: "tree_of (bitmap four_free) 2 0 = Free"
  and four_free_repr: "repr (bitmap four_free) 2 0 Free"
  and four_one_used_tree: "tree_of (bitmap four_one_used) 2 0 = Split (Split Used Free) Free"
  and four_one_used_repr: "repr (bitmap four_one_used) 2 0 (Split (Split Used Free) Free)"
  by code_simp+

lemma less_4: "{0 ..< 4} = {0, 1, 2, 3 :: nat}"
  by auto

lemma four_free_alloc: "allocated 2 four_free = {}"
  by (simp add: allocated_def four_free_tree)

lemma four_one_used_alloc: "allocated 2 four_one_used = {(0, 0)}"
  by (simp add: allocated_def four_one_used_tree)

lemma four_free_inv: "mm_inv 2 four_free"
  using four_free_repr
  by (simp add: mm_inv_def buddy_inv_def counts_ok_def less_4 four_free_alloc four_free_tree)
     (simp add: four_free_def)

lemma four_one_used_inv: "mm_inv 2 four_one_used"
  using four_one_used_repr
  by (simp only: mm_inv_def buddy_inv_def counts_ok_def less_4 four_one_used_alloc four_one_used_tree)
     (simp add: four_one_used_def less_4)

lemma run_at_2: "free_run 2 four_one_used 1 2"
  by (simp add: free_run_def four_one_used_alloc pages_def)

lemma no_run_4: "\<not> (\<exists>s. free_run 2 four_one_used 2 s)"
  by (auto simp: free_run_def four_one_used_alloc pages_def)

theorem buddy_alloc_success_witness:
  "\<exists>pfn b'. buddy_alloc 2 four_one_used = Inr (pfn, b') \<and> unat pfn = 2
     \<and> allocated 2 b' = {(2, 1), (0, 0)}"
proof -
  have ord: "req_order 2 1" by (simp add: req_order_def)
  have "\<exists>s. free_run 2 four_one_used 1 s" using run_at_2 by blast
  then obtain pfn b' where *: "buddy_alloc 2 four_one_used = Inr (pfn, b')"
    "free_run 2 four_one_used 1 (unat pfn)" "allocated 2 b' = insert (unat pfn, 1) {(0, 0)}"
    "\<forall>s. free_run 2 four_one_used 1 s \<longrightarrow> unat pfn \<le> s"
    using buddy_alloc_success [OF four_one_used_inv ord] by (auto simp: four_one_used_alloc)
  have "unat pfn \<le> 2" using *(4) run_at_2 by blast
  moreover have "2 dvd unat pfn" "unat pfn \<noteq> 0"
    using *(2) by (auto simp: free_run_def four_one_used_alloc pages_def)
  ultimately have "unat pfn = 2" by (auto simp: dvd_def)
  with * show ?thesis by auto
qed

theorem buddy_alloc_refused_witness: "buddy_alloc 3 four_one_used = Inr (0, four_one_used)"
  by (rule buddy_alloc_refused [OF four_one_used_inv, of 3 2])
     (use no_run_4 in \<open>simp_all add: req_order_def\<close>)

theorem alloc_release_roundtrip_witness: "page_ref_dec 0 four_one_used = Inr four_free"
proof (rule alloc_release_roundtrip [OF four_free_inv, of 1 0])
  show "req_order 1 0" by (simp add: req_order_def)
  show "\<exists>s. free_run 2 four_free 0 s"
    by (rule exI [of _ 0])
       (simp add: free_run_def four_free_alloc)
  show "buddy_alloc 1 four_free = Inr (0, four_one_used)"
    by code_simp
qed simp

theorem buddy_init_reserves_witness:
  "\<exists>b. buddy_init 0xffffffe000300000 = Inr (b, 0xffffffe0003c0000) \<and> mm_inv 15 b
     \<and> allocated 15 b = {(q, 0) | q. q < 960}"
  using buddy_init_reserves [of "0xffffffe000300000"]
  by (simp add: reserved_pages_def VA2PA_def layout)

theorem page_ref_dec_effect_witness:
  "\<exists>b'. page_ref_dec 0 four_one_used = Inr b' \<and> ref_cnt b' = [0, 0, 0, 0] \<and> allocated 2 b' = {}"
proof -
  have "(0, 0) \<in> allocated 2 four_one_used" by (simp add: four_one_used_alloc)
  from page_ref_dec_effect [OF four_one_used_inv this] show ?thesis
    by (auto simp: four_one_used_alloc) (auto simp: four_one_used_def)
qed

end
