(* ===== verification/CMemory.thy ===== *)
theory CMemory
  imports Layout
begin

text \<open>
  Byte-addressed memory and the routines of \<^verbatim>\<open>lib/string.c\<close>. An address is a 64-bit word and
  pointer arithmetic wraps; multi-byte values are little-endian, as on RISC-V. The theory proves
  the meaning of each routine: in particular for which overlaps \<^verbatim>\<open>memcpy\<close> copies correctly, and
  that \<^verbatim>\<open>memmove\<close> always does.
\<close>

type_synonym mem = "u64 \<Rightarrow> u8"

section \<open>Byte sequences and words\<close>

text \<open>The word that a sequence of bytes denotes, least significant byte first, and back.\<close>

fun le_word :: "u8 list \<Rightarrow> 'a::len word" where
  "le_word [] = 0"
| "le_word (b # bs) = ucast b OR push_bit 8 (le_word bs)"

definition le_bytes :: "nat \<Rightarrow> 'a::len word \<Rightarrow> u8 list" where
  "le_bytes n v = map (\<lambda>k. ucast (drop_bit (8 * k) v)) [0 ..< n]"

lemma length_le_bytes [simp]: "length (le_bytes n v) = n"
  by (simp add: le_bytes_def)

lemma bit_le_word:
  "bit (le_word bs :: 'a::len word) i \<longleftrightarrow>
     i < LENGTH('a) \<and> i div 8 < length bs \<and> bit (bs ! (i div 8)) (i mod 8)"
proof (induction bs arbitrary: i)
  case (Cons b bs)
  show ?case
  proof (cases "i < 8")
    case True
    then show ?thesis by (auto simp: bit_simps)
  next
    case False
    then obtain j where j: "i = j + 8" by (metis add.commute le_Suc_ex not_less)
    then have "i div 8 = Suc (j div 8)" and "i mod 8 = j mod 8" by simp_all
    then show ?thesis
      using Cons.IH [of j] j by (auto simp: bit_simps dest: bit_imp_le_length)
  qed
qed simp

lemma le_word_le_bytes:
  assumes "LENGTH('a) = 8 * n"
  shows "le_word (le_bytes n v) = (v :: 'a::len word)"
proof (rule bit_word_eqI)
  fix i assume i: "i < LENGTH('a)"
  with assms have "i div 8 < n" by (simp add: less_mult_imp_div_less mult.commute)
  moreover have "i div 8 * 8 + i mod 8 = i" "i mod 8 < 8" by simp_all
  ultimately show "bit (le_word (le_bytes n v) :: 'a word) i = bit v i"
    using i by (auto simp: bit_le_word le_bytes_def bit_simps mult.commute add.commute simp del: numeral_less_iff)
qed

lemma le_bytes_le_word:
  assumes "LENGTH('a) = 8 * length bs"
  shows "le_bytes (length bs) (le_word bs :: 'a::len word) = bs"
proof (rule nth_equalityI)
  fix k assume "k < length (le_bytes (length bs) (le_word bs :: 'a word))"
  then have k: "k < length bs" by simp
  show "le_bytes (length bs) (le_word bs :: 'a word) ! k = bs ! k"
  proof (rule bit_word_eqI)
    fix i assume i: "i < LENGTH(8)"
    then have "(8 * k + i) div 8 = k" "(8 * k + i) mod 8 = i" "8 * k + i < 8 * length bs"
      using k by simp_all
    then show "bit (le_bytes (length bs) (le_word bs :: 'a word) ! k) i = bit (bs ! k) i"
      using k i assms by (simp add: le_bytes_def bit_simps bit_le_word)
  qed
qed simp

section \<open>Loads and stores\<close>

definition load :: "mem \<Rightarrow> u64 \<Rightarrow> nat \<Rightarrow> u8 list" where
  "load m a n = map (\<lambda>k. m (a + of_nat k)) [0 ..< n]"

definition store :: "mem \<Rightarrow> u64 \<Rightarrow> u8 list \<Rightarrow> mem" where
  "store m a bs = (\<lambda>x. if unat (x - a) < length bs then bs ! unat (x - a) else m x)"

definition rd16 :: "mem \<Rightarrow> u64 \<Rightarrow> u16" where "rd16 m a = le_word (load m a 2)"
definition rd32 :: "mem \<Rightarrow> u64 \<Rightarrow> u32" where "rd32 m a = le_word (load m a 4)"
definition rd64 :: "mem \<Rightarrow> u64 \<Rightarrow> u64" where "rd64 m a = le_word (load m a 8)"
definition wr64 :: "mem \<Rightarrow> u64 \<Rightarrow> u64 \<Rightarrow> mem" where "wr64 m a v = store m a (le_bytes 8 v)"

lemma length_load [simp]: "length (load m a n) = n"
  by (simp add: load_def)

lemma load_nth [simp]: "k < n \<Longrightarrow> load m a n ! k = m (a + of_nat k)"
  by (simp add: load_def)

lemma load_store_same [simp]:
  assumes "length bs = n" "n \<le> 2 ^ 63"
  shows "load (store m a bs) a n = bs"
proof (rule nth_equalityI)
  fix k assume "k < length (load (store m a bs) a n)"
  then have k: "k < n" by simp
  then have "unat (of_nat k :: u64) = k" using assms(2) by (simp add: unat_of_nat_small)
  then show "load (store m a bs) a n ! k = bs ! k" using k assms(1) by (simp add: store_def)
qed (simp add: assms(1))

lemma load_cong: "(\<And>k. k < n \<Longrightarrow> m (a + of_nat k) = m' (a + of_nat k)) \<Longrightarrow> load m a n = load m' a n"
  by (simp add: load_def)

text \<open>Two ranges are apart when neither start lies in the other range.\<close>

lemma store_apart:
  assumes "length bs \<le> unat (b - a)" and "k < unat (a - b)"
  shows "store m a bs (b + of_nat k) = m (b + of_nat k)"
proof -
  have ab: "unat (a - b) < 2 ^ 64" by (rule order_less_le_trans [OF unsigned_less]) simp
  then have uk: "unat (of_nat k :: u64) = k" using assms(2) by (simp add: unat_of_nat_small)
  have "a \<noteq> b" using assms(2) by auto
  then have neg: "unat (b - a) = 2 ^ 64 - unat (a - b)"
    using unat_diff_swap [of a b] by simp
  have "unat (b + of_nat k - a) = unat (b - a) + k"
    using neg assms(2) ab uk
    by (subst diff_add_eq [symmetric], subst unat_add_lem [THEN iffD1]) auto
  then show ?thesis using assms by (simp add: store_def)
qed

lemma load_store_apart:
  assumes "length bs \<le> unat (b - a)" and "n \<le> unat (a - b)"
  shows "load (store m a bs) b n = load m b n"
  by (rule load_cong, rule store_apart) (use assms in auto)

lemma rd64_wr64_same [simp]: "rd64 (wr64 m a v) a = v"
  by (simp add: rd64_def wr64_def le_word_le_bytes)

definition aligned8 :: "u64 \<Rightarrow> bool" where "aligned8 a \<longleftrightarrow> 8 dvd unat a"

lemma aligned8_apart:
  assumes "aligned8 a" "aligned8 b" "a \<noteq> b"
  shows "8 \<le> unat (a - b)"
proof -
  have "8 dvd unat (a - b)"
  proof (cases "b \<le> a")
    case True
    then show ?thesis using assms by (simp add: unat_sub aligned8_def word_le_nat_alt)
  next
    case False
    then have "unat (a - b) = 2 ^ 64 - (unat b - unat a)"
      using unat_diff_swap [of b a] assms(3) by (simp add: unat_sub word_le_nat_alt)
    then show ?thesis using assms(1,2) by (simp add: aligned8_def)
  qed
  moreover have "0 < unat (a - b)" using assms(3) by (simp add: unat_gt_0)
  ultimately show ?thesis by (simp add: dvd_imp_le)
qed

lemma rd64_wr64_other:
  assumes "aligned8 a" "aligned8 b" "a \<noteq> b"
  shows "rd64 (wr64 m a v) b = rd64 m b"
  using aligned8_apart [OF assms] aligned8_apart [OF assms(2,1)] assms(3)
  by (simp add: rd64_def wr64_def load_store_apart)

section \<open>lib/string.c\<close>

definition memset :: "u64 \<Rightarrow> u32 \<Rightarrow> u64 \<Rightarrow> mem \<Rightarrow> mem" where
  "memset dest c n m = count_up 0 n (\<lambda>i m. m(dest + i := ucast c)) m"

definition memcpy :: "u64 \<Rightarrow> u64 \<Rightarrow> u64 \<Rightarrow> mem \<Rightarrow> mem" where
  "memcpy d s n m = count_up 0 n (\<lambda>i m. m(d + i := m (s + i))) m"

definition memmove :: "u64 \<Rightarrow> u64 \<Rightarrow> u64 \<Rightarrow> mem \<Rightarrow> mem" where
  "memmove d s n m =
     (if d < s then memcpy d s n m
      else count_down n (\<lambda>i m. m(d + (i - 1) := m (s + (i - 1)))) m)"

text \<open>\<^verbatim>\<open>memcmp\<close> returns -1, 0 or 1, as a 32-bit int.\<close>

function memcmp_from :: "u64 \<Rightarrow> u64 \<Rightarrow> u64 \<Rightarrow> u64 \<Rightarrow> mem \<Rightarrow> u32" where
  "memcmp_from i s1 s2 n m =
     (if i < n
      then if m (s1 + i) \<noteq> m (s2 + i) then (if m (s1 + i) < m (s2 + i) then - 1 else 1)
           else memcmp_from (i + 1) s1 s2 n m
      else 0)"
  by pat_completeness auto
termination
  by (relation "measure (\<lambda>(i, s1, s2, n, m). unat (n - i))") (simp_all add: word_Suc_less)

definition memcmp :: "u64 \<Rightarrow> u64 \<Rightarrow> u64 \<Rightarrow> mem \<Rightarrow> u32" where
  "memcmp s1 s2 n m = memcmp_from 0 s1 s2 n m"

text \<open>A string that no zero byte ends makes \<^verbatim>\<open>strlen\<close> walk all of memory for ever.\<close>

function strlen_from :: "u64 \<Rightarrow> u64 \<Rightarrow> mem \<Rightarrow> u64 res" where
  "strlen_from len s m =
     (if m (s + len) = 0 then Inr len
      else if len + 1 = 0 then Inl No_Return else strlen_from (len + 1) s m)"
  by pat_completeness auto
termination
  by (relation "measure (\<lambda>(len, s, m). unat (- 1 - len))")
     (auto simp: word_up_less)

definition strlen :: "u64 \<Rightarrow> mem \<Rightarrow> u64 res" where
  "strlen s m = strlen_from 0 s m"

declare memcmp_from.simps [simp del] strlen_from.simps [simp del]

section \<open>Meaning of the routines\<close>

lemma memset_eq: "memset dest c n m = (\<lambda>x. if x - dest < n then ucast c else m x)"
  unfolding memset_def
proof (rule count_up_inv [where P = "\<lambda>j t. t = (\<lambda>x. if x - dest < j then ucast c else m x)"])
  fix j t assume j: "j < n" and t: "t = (\<lambda>x. if x - dest < j then ucast c else m x)"
  have "x - dest < j + 1 \<longleftrightarrow> x - dest < j \<or> x = dest + j" for x
    using less_Suc_word [OF j, of "x - dest"] by (auto simp: algebra_simps)
  with t show "t(dest + j := ucast c) = (\<lambda>x. if x - dest < j + 1 then ucast c else m x)"
    by (auto simp: fun_eq_iff)
qed simp_all

text \<open>
  The copied range as a function: at a destination address the byte that the source held before
  the copy, elsewhere what was there. Copying upwards is right unless the destination starts
  strictly inside the source; copying downwards unless the source starts strictly inside the
  destination.
\<close>

definition copied :: "u64 \<Rightarrow> u64 \<Rightarrow> u64 \<Rightarrow> mem \<Rightarrow> mem" where
  "copied d s n m = (\<lambda>x. if x - d < n then m (s + (x - d)) else m x)"

lemma memcpy_eq:
  assumes apart: "\<not> (0 < d - s \<and> d - s < n)"
  shows "memcpy d s n m = copied d s n m"
  unfolding memcpy_def
proof (rule count_up_inv [where P = "\<lambda>j t. t = copied d s j m"])
  fix j t assume j: "j < n" and t: "t = copied d s j m"
  have suc: "x - d < j + 1 \<longleftrightarrow> x - d < j \<or> x = d + j" for x
    using less_Suc_word [OF j, of "x - d"] by (auto simp: algebra_simps)
  have "t (s + j) = m (s + j)"
  proof (cases "s + j - d < j")
    case True
    have "d - s = j - (s + j - d)" by simp
    then have "d - s \<le> j" using True
      by (metis word_sub_le order_less_imp_le)
    then have "d - s < n" using j by simp
    with apart have "d = s" by (simp add: word_gt_0)
    then show ?thesis using True by simp
  qed (simp add: t copied_def)
  then show "t(d + j := t (s + j)) = copied d s (j + 1) m"
    using t by (auto simp: fun_eq_iff copied_def suc)
qed (simp_all add: copied_def)

lemma down_copy:
  assumes apart: "\<not> (0 < s - d \<and> s - d < n)"
  shows "count_down n (\<lambda>i m. m(d + (i - 1) := m (s + (i - 1)))) m = copied d s n m"
proof (rule count_down_inv [where P = "\<lambda>j t. t = (\<lambda>x. if x - d < n \<and> \<not> x - d < j then m (s + (x - d)) else m x)"
        and i = n, THEN trans])
  fix j t
  assume j: "j \<le> n" "j \<noteq> 0" and t: "t = (\<lambda>x. if x - d < n \<and> \<not> x - d < j then m (s + (x - d)) else m x)"
  have j1: "j - 1 < j" using j(2) by (simp add: word_less_nat_alt unat_minus_one unat_gt_0)
  have pred: "x - d < j \<longleftrightarrow> x - d < j - 1 \<or> x = d + (j - 1)" for x
    using less_Suc_word [OF j1, of "x - d"] by (auto simp: algebra_simps)
  have "t (s + (j - 1)) = m (s + (j - 1))"
  proof (cases "s + (j - 1) - d < n \<and> \<not> s + (j - 1) - d < j")
    case True
    have "s - d = s + (j - 1) - d - (j - 1)" by simp
    moreover have "j - 1 \<le> s + (j - 1) - d"
      using conjunct2 [OF True] j1 by (meson leI less_imp_le order_trans)
    ultimately have "s - d \<le> s + (j - 1) - d" by (metis word_sub_le)
    then have "s - d < n" using conjunct1 [OF True] by (rule order.strict_trans1)
    with apart have "s = d" by (simp add: word_gt_0)
    then show ?thesis using True j1 by simp
  next
    case False
    then show ?thesis by (simp only: t if_False)
  qed
  then show "t(d + (j - 1) := t (s + (j - 1))) =
     (\<lambda>x. if x - d < n \<and> \<not> x - d < j - 1 then m (s + (x - d)) else m x)"
    using t j1 j(1) by (auto simp: fun_eq_iff pred)
qed (auto simp: copied_def)

text \<open>C6: \<^verbatim>\<open>memmove\<close> copies correctly however the two ranges overlap.\<close>

theorem memmove_copies:
  assumes d: "unat d + unat n \<le> 2 ^ 64" and s: "unat s + unat n \<le> 2 ^ 64"
  shows "memmove d s n m = copied d s n m"
proof (cases "d < s")
  case True
  have "unat (d - s) = 2 ^ 64 - (unat s - unat d)"
    using unat_diff_swap [of s d] True unsigned_less [of s, where ?'a = nat]
    by (auto simp add: unat_sub word_less_nat_alt word_le_nat_alt)
  then have "\<not> d - s < n" using s True by (simp add: word_less_nat_alt)
  then show ?thesis using True by (simp add: memmove_def memcpy_eq)
next
  case False
  have "\<not> (0 < s - d \<and> s - d < n)"
  proof (cases "s = d")
    case ne: False
    have "unat (s - d) = 2 ^ 64 - (unat d - unat s)"
      using unat_diff_swap [of d s] False ne by (simp add: unat_sub word_less_nat_alt word_le_nat_alt)
    then have "unat n \<le> unat (s - d)" using d False by (simp add: word_less_nat_alt)
    then show ?thesis by (simp add: word_less_nat_alt)
  qed simp
  then show ?thesis using False by (simp add: memmove_def down_copy)
qed

theorem memmove_copies_witness: "memmove 0x1001 0x1000 4 (\<lambda>x. ucast x) 0x1003 = 2"
  using memmove_copies [of "0x1001" 4 "0x1000"] by (simp add: copied_def)

section \<open>Comparison and length\<close>

lemma memcmp_from_zero:
  "memcmp_from i s1 s2 n m = 0 \<longleftrightarrow> (\<forall>k. i \<le> k \<and> k < n \<longrightarrow> m (s1 + k) = m (s2 + k))"
proof (induction i s1 s2 n m rule: memcmp_from.induct)
  case (1 i s1 s2 n m)
  show ?case
  proof (cases "i < n \<and> m (s1 + i) = m (s2 + i)")
    case True
    then have "i \<le> k \<longleftrightarrow> k = i \<or> i + 1 \<le> k" if "k < n" for k
      using less_Suc_word [of i n k] by (auto simp: not_less [symmetric])
    then show ?thesis
      using True 1 by (subst memcmp_from.simps) auto
  next
    case False
    then show ?thesis by (subst memcmp_from.simps) (auto simp: order_less_le_trans)
  qed
qed

lemma memcmp_zero: "memcmp s1 s2 n m = 0 \<longleftrightarrow> (\<forall>k < n. m (s1 + k) = m (s2 + k))"
  by (simp add: memcmp_def memcmp_from_zero)

text \<open>The memory at \<open>s\<close> holds the C string \<open>cs\<close>.\<close>

definition cstring :: "mem \<Rightarrow> u64 \<Rightarrow> u8 list \<Rightarrow> bool" where
  "cstring m s cs \<longleftrightarrow> 0 \<notin> set cs \<and> length cs < 2 ^ 63
     \<and> (\<forall>k < length cs. m (s + of_nat k) = cs ! k) \<and> m (s + of_nat (length cs)) = 0"

lemma strlen_from_cstring:
  assumes cs: "cstring m s cs" and k: "k \<le> length cs"
  shows "strlen_from (of_nat k) s m = Inr (of_nat (length cs))"
  using k
proof (induction k rule: inc_induct)
  case base
  then show ?case using cs by (simp add: strlen_from.simps cstring_def)
next
  case (step k)
  have "cs ! k \<noteq> 0" using cs step.hyps by (metis cstring_def nth_mem)
  then have "m (s + of_nat k) \<noteq> 0" using cs step.hyps by (simp add: cstring_def)
  moreover have "unat (of_nat (Suc k) :: u64) = Suc k"
    using cs step.hyps by (intro unat_of_nat_small) (simp add: cstring_def)
  then have "of_nat k + 1 \<noteq> (0 :: u64)"
    by (metis Suc_not_Zero add.commute of_nat_Suc unsigned_0)
  ultimately show ?case
    using step.IH by (subst strlen_from.simps) (simp add: add.commute)
qed

lemma strlen_cstring: "cstring m s cs \<Longrightarrow> strlen s m = Inr (of_nat (length cs))"
  using strlen_from_cstring [of m s cs 0] by (simp add: strlen_def)

end
