(* ===== verification/Kernel_State.thy ===== *)
theory Kernel_State
  imports CMemory Buddy
begin

text \<open>
  The state the kernel's components share. \<open>machine\<close> is the part below virtual memory: the page
  allocator and the bytes of memory at their direct-map addresses. \<open>kernel\<close> adds the C objects of
  \<^verbatim>\<open>proc.h\<close>, \<^verbatim>\<open>vm.h\<close> and \<^verbatim>\<open>fs.h\<close>, one typed store per struct, the globals of \<^verbatim>\<open>proc.c\<close>, and
  the processor registers the sources read or write. Objects of different types never overlap,
  and pages whose bytes the kernel reads (page tables, user frames, kernel stacks) live in
  \<open>mem\<close>. Translation caches are not part of the state, so a fence changes nothing.
\<close>

section \<open>Memory and its allocator\<close>

record machine =
  bud :: buddy
  mem :: mem

section \<open>Processes\<close>

record thread_struct =
  th_ra :: u64
  th_sp :: u64
  th_s :: "u64 list"
  th_sepc :: u64
  th_sstatus :: u64
  th_sscratch :: u64

record task_struct =
  task_state :: u64
  counter :: u64
  priority :: u64
  pid :: u64
  thread :: thread_struct
  files :: u64
  pgd :: u64
  mmap :: u64

section \<open>Address spaces\<close>

record vm_area_struct =
  vm_mm :: u64
  vm_start :: u64
  vm_end :: u64
  vm_next :: u64
  vm_prev :: u64
  vm_flags :: u64
  vm_pgoff :: u64
  vm_filesz :: u64

section \<open>Open files\<close>

text \<open>The functions the three function pointers of a \<^verbatim>\<open>struct file\<close> are ever set to.\<close>

datatype file_op = Op_Null | Op_Fat32 | Op_Stdin | Op_Stdout | Op_Stderr

record fat32_dir =
  dir_cluster :: u32
  dir_index :: u32

record fat32_file =
  cluster :: u32
  dir :: fat32_dir

record file_struct =
  opened :: u32
  perms :: u32
  cfo :: u64
  fs_type :: u32
  fat32_file_of :: fat32_file
  f_lseek :: file_op
  f_write :: file_op
  f_read :: file_op
  f_path :: "u8 list"

record files_struct =
  fd_array :: "file_struct list"

section \<open>The kernel state\<close>

record kernel = machine +
  task_at :: "task_struct heap"
  vma_at :: "vm_area_struct heap"
  files_at :: "files_struct heap"
  idle :: u64
  current :: u64
  task :: "u64 list"
  nr_tasks :: u64
  seed :: u64
  cpu :: thread_struct
  satp :: u64
  stval :: u64
  scause :: u64

end
