(* ===== verification/Rand.thy ===== *)
theory Rand
  imports Kernel_State
begin

text \<open>
  The pseudo-random generator of \<^verbatim>\<open>lib/rand.c\<close>, from which \<^verbatim>\<open>task_init\<close> draws the priorities.
\<close>

definition srand :: "u32 \<Rightarrow> u64" where
  "srand s = ucast (s - 1)"

definition rand :: "u64 \<Rightarrow> u32 \<times> u64" where
  "rand sd = (let sd = 6364136223846793005 * sd + 1 in (ucast (drop_bit 33 sd), sd))"

definition PRIORITY_MIN :: u32 where "PRIORITY_MIN = 1"
definition PRIORITY_MAX :: u32 where "PRIORITY_MAX = 10"

text \<open>The priority expression of \<^verbatim>\<open>task_init\<close>; \<^verbatim>\<open>rand()\<close> is an int, and the result is never negative.\<close>

definition rand_priority :: "u64 \<Rightarrow> u64 \<times> u64" where
  "rand_priority sd =
     (case rand sd of (r, sd) \<Rightarrow>
        (ucast (r mod (PRIORITY_MAX - PRIORITY_MIN + 1) + PRIORITY_MIN), sd))"

lemma rand_nonneg: "unat (fst (rand sd)) < 2 ^ 31"
proof -
  have "unat (drop_bit 33 (x :: u64)) < 2 ^ 31" for x
    using unsigned_less [of x, where ?'a = nat]
    by (simp add: drop_bit_eq_div unat_div less_mult_imp_div_less)
  then show ?thesis 
    by (simp add: rand_def Let_def unsigned_ucast_eq order_le_less_trans [OF take_bit_nat_less_eq_self])
qed

lemma rand_priority_range: "1 \<le> fst (rand_priority sd)" "fst (rand_priority sd) \<le> 10"
proof -
  obtain r sd' where r: "rand sd = (r, sd')" by fastforce
  have "unat (r mod 10) < 10" by (simp add: unat_mod)
  then have "unat (r mod 10 + 1) = unat (r mod 10) + 1" by (simp add: unat_word_ariths)
  then have "unat (fst (rand_priority sd)) = unat (r mod 10) + 1"
    using \<open>unat (r mod 10) < 10\<close>
    by (simp add: rand_priority_def r PRIORITY_MAX_def PRIORITY_MIN_def unsigned_ucast_eq
        take_bit_nat_eq_self)
  with \<open>unat (r mod 10) < 10\<close>
  show "1 \<le> fst (rand_priority sd)" "fst (rand_priority sd) \<le> 10"
    by (simp_all add: word_le_nat_alt)
qed

end
