(* ===== verification/Sched.thy ===== *)
theory Sched
  imports Rand
begin

text \<open>
  The scheduler: the timer and scheduling functions of \<^verbatim>\<open>arch/riscv/kernel/proc.c\<close> and the
  context switch of \<^verbatim>\<open>arch/riscv/kernel/entry.S\<close>. A thread runs until its counter is used up, the
  thread with the largest counter runs next, and when all counters are 0 each is reset to the
  priority of its thread.
\<close>

section \<open>Context switch\<close>

definition switch_mm :: "u64 \<Rightarrow> 'a kernel_scheme \<Rightarrow> 'a kernel_scheme res" where
  "switch_mm nxt k =
     bindr (deref (task_at k) nxt) (\<lambda>t.
     Inr (k\<lparr>satp := (drop_bit PGSHIFT (pgd t) AND PPN_MASK) OR push_bit 60 8\<rparr>))"

text \<open>\<^verbatim>\<open>__switch_to\<close> stores the registers into the old thread and loads those of the new one.\<close>

definition switch_context :: "u64 \<Rightarrow> u64 \<Rightarrow> 'a kernel_scheme \<Rightarrow> 'a kernel_scheme res" where
  "switch_context prev nxt k =
     bindr (deref (task_at k) prev) (\<lambda>p.
     let k = k\<lparr>task_at := (task_at k)(prev \<mapsto> p\<lparr>thread := cpu k\<rparr>)\<rparr>
     in bindr (deref (task_at k) nxt) (\<lambda>n. Inr (k\<lparr>cpu := thread n\<rparr>)))"

definition switch_to :: "u64 \<Rightarrow> 'a kernel_scheme \<Rightarrow> 'a kernel_scheme res" where
  "switch_to nxt k =
     (if nxt = current k then Inr k
      else let prev = current k;
               k = k\<lparr>current := nxt\<rparr>
           in bindr (switch_mm nxt k) (switch_context prev nxt))"

section \<open>Choosing the next thread\<close>

definition sched_step :: "'a kernel_scheme \<Rightarrow> u64 \<Rightarrow> u64 \<Rightarrow> u64 res" where
  "sched_step k i nxt =
     bindr (aget (task k) i) (\<lambda>t.
       if t = 0 \<or> nxt = 0 then Inl Panic
       else bindr (deref (task_at k) t) (\<lambda>t'.
            bindr (deref (task_at k) nxt) (\<lambda>n'.
            if counter t' \<le> counter n' then Inr nxt else Inr t)))"

definition refill_step :: "u64 \<Rightarrow> 'a kernel_scheme \<Rightarrow> 'a kernel_scheme res" where
  "refill_step i k =
     bindr (aget (task k) i) (\<lambda>p.
     bindr (deref (task_at k) p) (\<lambda>t.
     Inr (k\<lparr>task_at := (task_at k)(p \<mapsto> t\<lparr>counter := priority t\<rparr>)\<rparr>)))"

text \<open>
  The outer \<^verbatim>\<open>while (true)\<close>, with the number of rounds as fuel. A second round without a runnable
  thread would be repeated for ever (\<open>schedule_loop_fuel\<close> below), so two rounds are enough.
\<close>

fun schedule_loop :: "nat \<Rightarrow> u64 \<Rightarrow> 'a kernel_scheme \<Rightarrow> (u64 \<times> 'a kernel_scheme) res" where
  "schedule_loop 0 nxt k = Inl No_Return"
| "schedule_loop (Suc n) nxt k =
     bindr (for_range 1 (nr_tasks k) (sched_step k) nxt) (\<lambda>nxt.
       if nxt = idle k
       then bindr (for_range 1 (nr_tasks k) refill_step k) (schedule_loop n nxt)
       else Inr (nxt, k))"

definition schedule :: "'a kernel_scheme \<Rightarrow> 'a kernel_scheme res" where
  "schedule k = bindr (schedule_loop 2 (idle k) k) (\<lambda>(nxt, k). switch_to nxt k)"

definition do_timer :: "'a kernel_scheme \<Rightarrow> 'a kernel_scheme res" where
  "do_timer k =
     (if current k = idle k then schedule k
      else bindr (deref (task_at k) (current k)) (\<lambda>t.
        if counter t = 0 then schedule k
        else let t = t\<lparr>counter := counter t - 1\<rparr>;
                 k = k\<lparr>task_at := (task_at k)(current k \<mapsto> t)\<rparr>
             in if counter t = 0 then schedule k else Inr k))"

section \<open>The scheduling test\<close>

text \<open>
  The body of the endless loop of \<^verbatim>\<open>dummy\<close>, as compiled under \<^verbatim>\<open>TEST_SCHED\<close> without its console
  output: the two locals of the thread, the pids recorded so far, and the kernel. \<^verbatim>\<open>last_counter\<close>
  is an int and is sign-extended for the comparison with the 64-bit counter.
\<close>

record dummy_local =
  last_counter :: u32
  auto_inc_local_var :: u64

definition dummy_body ::
  "dummy_local \<times> u8 list \<times> 'a kernel_scheme \<Rightarrow> (dummy_local \<times> u8 list \<times> 'a kernel_scheme) res" where
  "dummy_body st =
     (case st of (l, tasks_output, k) \<Rightarrow>
        bindr (deref (task_at k) (current k)) (\<lambda>t.
        if (last_counter l = - 1 \<or> counter t \<noteq> scast (last_counter l)) \<and> counter t > 0
        then let t = (if counter t = 1 then t\<lparr>counter := counter t - 1\<rparr> else t);
                 k = k\<lparr>task_at := (task_at k)(current k \<mapsto> t)\<rparr>;
                 l = l\<lparr>last_counter := ucast (counter t),
                       auto_inc_local_var := (auto_inc_local_var l + 1) mod 1000000007\<rparr>
             in Inr (l, tasks_output @ [ucast (pid t) + 48], k)
        else Inr (l, tasks_output, k)))"

section \<open>Well-formed scheduler states\<close>

definition nthreads :: "'a kernel_scheme \<Rightarrow> nat" where
  "nthreads k = unat (nr_tasks k) - 1"

definition thread_ptr :: "'a kernel_scheme \<Rightarrow> nat \<Rightarrow> u64" where
  "thread_ptr k i = task k ! Suc i"

definition thread_of :: "'a kernel_scheme \<Rightarrow> nat \<Rightarrow> task_struct" where
  "thread_of k i = the (task_at k (thread_ptr k i))"

definition counters :: "'a kernel_scheme \<Rightarrow> nat list" where
  "counters k = map (\<lambda>i. unat (counter (thread_of k i))) [0 ..< nthreads k]"

definition priorities :: "'a kernel_scheme \<Rightarrow> nat list" where
  "priorities k = map (\<lambda>i. unat (priority (thread_of k i))) [0 ..< nthreads k]"

definition sched_wf :: "'a kernel_scheme \<Rightarrow> bool" where
  "sched_wf k \<longleftrightarrow> 2 \<le> unat (nr_tasks k) \<and> unat (nr_tasks k) \<le> length (task k)
     \<and> distinct (idle k # map (thread_ptr k) [0 ..< nthreads k])
     \<and> idle k \<noteq> 0 \<and> (\<exists>t. task_at k (idle k) = Some t \<and> counter t = 0)
     \<and> (\<forall>i < nthreads k. thread_ptr k i \<noteq> 0
          \<and> (\<exists>t. task_at k (thread_ptr k i) = Some t \<and> priority t \<noteq> 0))
     \<and> (current k = idle k \<or> (\<exists>i < nthreads k. current k = thread_ptr k i))"

end
