(* ===== verification/Simulation.thy ===== *)
theory Simulation
  imports Prelude
begin

text \<open>
  Iterated steps that may fault, and the interface between a concrete step and the abstract step
  it refines: from a well-formed state the concrete step succeeds, stays well-formed, and its
  abstraction moves as the abstract step says. What follows for any number of steps is proved
  once here.
\<close>

primrec iter_res :: "nat \<Rightarrow> ('s \<Rightarrow> 's res) \<Rightarrow> 's \<Rightarrow> 's res" where
  "iter_res 0 step s = Inr s"
| "iter_res (Suc n) step s = bindr (step s) (iter_res n step)"

locale simulation =
  fixes step :: "'s \<Rightarrow> 's res"
    and wf :: "'s \<Rightarrow> bool"
    and abs_state :: "'s \<Rightarrow> 'a"
    and astep :: "'a \<Rightarrow> 'a"
  assumes refines: "wf s \<Longrightarrow> \<exists>s'. step s = Inr s' \<and> wf s' \<and> abs_state s' = astep (abs_state s)"
begin

lemma iterates:
  "wf s \<Longrightarrow> \<exists>s'. iter_res n step s = Inr s' \<and> wf s' \<and> abs_state s' = (astep ^^ n) (abs_state s)"
proof (induction n arbitrary: s)
  case (Suc n)
  obtain s1 where s1: "step s = Inr s1" "wf s1" "abs_state s1 = astep (abs_state s)"
    using refines [OF Suc.prems] by blast
  then show ?case using Suc.IH [OF s1(2)] by (simp add: funpow_Suc_right del: funpow.simps)
qed simp

lemma preserves:
  assumes "wf s" "\<And>a. Q a \<Longrightarrow> Q (astep a)" "Q (abs_state s)"
  shows "\<exists>s'. iter_res n step s = Inr s' \<and> Q (abs_state s')"
proof -
  have "Q ((astep ^^ n) (abs_state s))" using assms(2,3) by (induction n) auto
  with iterates [OF assms(1), of n] show ?thesis by auto
qed

end

end
