(* ===== verification/Sched_Props.thy ===== *)
theory Sched_Props
  imports Sched_Correct Simulation
begin

text \<open>
  The scheduler's promises: the refinement of the abstract scheduler, what the
  scheduling loop picks, the bound on how long a thread waits, and the context switch as a
  round trip. The last part runs the scheduling test that \<^verbatim>\<open>proc.c\<close> compiles under
  \<^verbatim>\<open>TEST_SCHED\<close>.
\<close>

section \<open>Waiting times in the abstract scheduler\<close>

definition valid :: "nat list \<Rightarrow> asched \<Rightarrow> bool" where
  "valid ps a \<longleftrightarrow> length (fst a) = length ps \<and> ps \<noteq> [] \<and> (\<forall>p \<in> set ps. 0 < p)
     \<and> (\<forall>i. snd a = Some i \<longrightarrow> i < length ps)"

definition active :: "asched \<Rightarrow> bool" where
  "active a \<longleftrightarrow> (\<exists>i. snd a = Some i \<and> 0 < fst a ! i)"

lemma resched_active:
  assumes "length cs = length ps" "ps \<noteq> []" "\<forall>p \<in> set ps. 0 < p"
  shows "valid ps (resched ps cs)" "active (resched ps cs)"
proof -
  define ds where "ds = (if \<forall>c \<in> set cs. c = 0 then ps else cs)"
  have "\<exists>d \<in> set ds. 0 < d"
    using assms by (cases "\<forall>c \<in> set cs. c = 0") (auto simp: ds_def neq_Nil_conv)
  then have "0 < Max (set ds)" by (metis List.finite_set Max_ge order_less_le_trans)
  moreover have len: "length ds = length ps" using assms(1) by (simp add: ds_def)
  moreover have "ds \<noteq> []" using len assms(2) by auto
  moreover note first_max_props [of ds]
  ultimately have "first_max ds < length ps" "0 < ds ! first_max ds" by auto
  moreover have "resched ps cs = (ds, Some (first_max ds))" by (simp only: resched_def Let_def ds_def)
  ultimately show "valid ps (resched ps cs)" "active (resched ps cs)"
    using assms len by (simp_all add: valid_def active_def)
qed

lemma sum_list_dec:
  assumes "i < length cs" "0 < cs ! i"
  shows "sum_list (cs[i := cs ! i - 1]) = sum_list cs - (1 :: nat)" "0 < sum_list cs"
proof -
  show "0 < sum_list cs" using assms elem_le_sum_list [of i cs] by simp
  show "sum_list (cs[i := cs ! i - 1]) = sum_list cs - 1"
    using assms elem_le_sum_list [of i cs] by (simp add: sum_list_update)
qed

text \<open>One tick while a thread other than \<open>i\<close> is running.\<close>

lemma tick_active:
  assumes v: "valid ps (cs, Some j)" and pos: "0 < cs ! j" and ij: "i \<noteq> j" "i < length ps"
  shows "\<exists>cs' cur. tick ps (cs, Some j) = (cs', cur) \<and> valid ps (cs', cur) \<and> active (cs', cur)
     \<and> (if \<forall>c \<in> set (cs[j := cs ! j - 1]). c = 0 then cs' = ps
        else cs' ! i = cs ! i \<and> sum_list cs' = sum_list cs - 1)"
proof -
  define ds where "ds = cs[j := cs ! j - 1]"
  have len: "length ds = length ps" "length cs = length ps" "j < length cs" "ps \<noteq> []"
    "\<forall>p \<in> set ps. 0 < p"
    using v by (auto simp: ds_def valid_def)
  have ds: "ds ! i = cs ! i" "sum_list ds = sum_list cs - 1"
    using ij sum_list_dec [OF len(3) pos] by (simp_all add: ds_def)
  have t: "tick ps (cs, Some j) = (if ds ! j = 0 then resched ps ds else (ds, Some j))"
    using pos by (simp add: tick_def ds_def Let_def)
  show ?thesis
  proof (cases "ds ! j = 0")
    case True
    obtain cs' cur where r: "resched ps ds = (cs', cur)" by fastforce
    define z where "z \<longleftrightarrow> (\<forall>c \<in> set ds. c = 0)"
    have "cs' = (if z then ps else ds)"
      using r unfolding resched_def Let_def z_def by simp
    then show ?thesis
      using True t r resched_active [of ds ps] len ds
      unfolding ds_def [symmetric] z_def [symmetric] by auto
  next
    case False
    then have "\<not> (\<forall>c \<in> set ds. c = 0)" using len by (metis nth_mem)
    moreover have "valid ps (ds, Some j)" "active (ds, Some j)"
      using False len by (auto simp: valid_def active_def)
    ultimately show ?thesis using t False ds unfolding ds_def [symmetric] by (auto simp: not_le)
  qed
qed

lemma waits_positive:
  assumes "valid ps a" "active a" "i < length ps" "0 < fst a ! i"
  shows "\<exists>m \<le> sum_list (fst a). snd ((tick ps ^^ m) a) = Some i"
  using assms
proof (induction "sum_list (fst a)" arbitrary: a rule: less_induct)
  case less
  obtain cs j where a: "a = (cs, Some j)" "0 < cs ! j" using less.prems(2) by (cases a) (auto simp: active_def)
  show ?case
  proof (cases "i = j")
    case True
    then show ?thesis using a by (intro exI [of _ 0]) simp
  next
    case False
    obtain cs' cur where t: "tick ps a = (cs', cur)" "valid ps (cs', cur)" "active (cs', cur)"
      "if \<forall>c \<in> set (cs[j := cs ! j - 1]). c = 0 then cs' = ps
       else cs' ! i = cs ! i \<and> sum_list cs' = sum_list cs - 1"
      using tick_active [of ps cs j i] less.prems a False by auto
    have len: "length cs = length ps" "j < length cs" using less.prems(1) a by (auto simp: valid_def)
    have "cs ! i \<in> set (cs[j := cs ! j - 1])"
      using len False less.prems(3) by (metis length_list_update nth_list_update_neq nth_mem)
    then have "\<not> (\<forall>c \<in> set (cs[j := cs ! j - 1]). c = 0)" using less.prems(4) a by auto
    then have c: "cs' ! i = cs ! i" "sum_list cs' = sum_list cs - 1" using t(4) by simp_all
    then obtain m where "m \<le> sum_list cs'" "snd ((tick ps ^^ m) (cs', cur)) = Some i"
      using less.hyps [of "(cs', cur)"] t less.prems a sum_list_dec(2) [OF len(2) a(2)] by auto
    then show ?thesis
      using t(1) a c sum_list_dec(2) [OF len(2) a(2)]
      by (intro exI [of _ "Suc m"]) (simp add: funpow_Suc_right del: funpow.simps)
  qed
qed

lemma waits_active:
  assumes "valid ps a" "active a" "i < length ps"
  shows "\<exists>m \<le> sum_list (fst a) + sum_list ps. snd ((tick ps ^^ m) a) = Some i"
  using assms
proof (induction "sum_list (fst a)" arbitrary: a rule: less_induct)
  case less
  obtain cs j where a: "a = (cs, Some j)" "0 < cs ! j" using less.prems(2) by (cases a) (auto simp: active_def)
  show ?case
  proof (cases "i = j")
    case True
    then show ?thesis using a by (intro exI [of _ 0]) simp
  next
    case False
    obtain cs' cur where t: "tick ps a = (cs', cur)" "valid ps (cs', cur)" "active (cs', cur)"
      "if \<forall>c \<in> set (cs[j := cs ! j - 1]). c = 0 then cs' = ps
       else cs' ! i = cs ! i \<and> sum_list cs' = sum_list cs - 1"
      using tick_active [of ps cs j i] less.prems a False by auto
    have len: "length cs = length ps" "j < length cs" using less.prems(1) a by (auto simp: valid_def)
    note dec = sum_list_dec(2) [OF len(2) a(2)]
    obtain m where "m \<le> sum_list cs - 1 + sum_list ps" "snd ((tick ps ^^ m) (cs', cur)) = Some i"
    proof (cases "\<forall>c \<in> set (cs[j := cs ! j - 1]). c = 0")
      case True
      then have "cs' = ps" using t(4) by simp
      moreover have "0 < ps ! i" using t(2) less.prems(3) by (simp add: valid_def)
      ultimately show ?thesis using that waits_positive [OF t(2,3) less.prems(3)] by (auto intro: trans_le_add2)
    next
      case False
      then have "sum_list cs' = sum_list cs - 1" using t(4) by simp
      then show ?thesis using that less.hyps [of "(cs', cur)"] t(2,3) less.prems(3) a dec by auto
    qed
    then show ?thesis
      using t(1) a dec by (intro exI [of _ "Suc m"]) (simp add: funpow_Suc_right del: funpow.simps)
  qed
qed

lemma waits_bounded:
  assumes v: "valid ps a" and i: "i < length ps"
  shows "\<exists>m \<le> 1 + sum_list (fst a) + sum_list ps. snd ((tick ps ^^ m) a) = Some i"
proof (cases "active a")
  case True
  then show ?thesis using waits_active [OF v True i] by (metis add.assoc le_add2 le_trans)
next
  case False
  then have t: "tick ps a = resched ps (fst a)"
    by (cases a) (auto simp: tick_def active_def split: option.splits)
  have r: "valid ps (tick ps a)" "active (tick ps a)"
    using resched_active [of "fst a" ps] v t by (simp_all add: valid_def)
  obtain m where m: "m \<le> sum_list (fst a) + sum_list ps" "snd ((tick ps ^^ m) (tick ps a)) = Some i"
  proof (cases "\<forall>c \<in> set (fst a). c = 0")
    case True
    then have f: "fst (tick ps a) = ps" by (simp add: t resched_def)
    then have "0 < fst (tick ps a) ! i" using v i by (simp add: valid_def)
    then show ?thesis using that waits_positive [OF r i] f by (auto intro: trans_le_add2)
  next
    case False
    then have "fst (tick ps a) = fst a" unfolding t resched_def Let_def by auto
    then show ?thesis using that waits_active [OF r i] by auto
  qed
  then show ?thesis by (intro exI [of _ "Suc m"]) (simp add: funpow_Suc_right del: funpow.simps)
qed

section \<open>The timer tick as a refinement\<close>

definition sched_view :: "'a kernel_scheme \<Rightarrow> (nat \<Rightarrow> u64) \<times> nat list \<times> asched" where
  "sched_view k = (thread_ptr k, priorities k, abs_sched k)"

definition tick_view :: "(nat \<Rightarrow> u64) \<times> nat list \<times> asched \<Rightarrow> (nat \<Rightarrow> u64) \<times> nat list \<times> asched" where
  "tick_view v = (case v of (th, ps, a) \<Rightarrow> (th, ps, tick ps a))"

interpretation timer: simulation do_timer sched_wf sched_view tick_view
proof
  fix s :: "'a kernel_scheme"
  assume "sched_wf s"
  from do_timer_refines [OF this]
  show "\<exists>s'. do_timer s = Inr s' \<and> sched_wf s' \<and> sched_view s' = tick_view (sched_view s)"
    by (auto simp: sched_view_def tick_view_def)
qed

lemma tick_pow: "(tick_view ^^ n) (th, ps, a) = (th, ps, (tick ps ^^ n) a)"
  by (induction n) (simp_all add: tick_view_def)

lemma abs_sched_current:
  assumes wf: "sched_wf k" and a: "snd (abs_sched k) = Some i"
  shows "i < nthreads k \<and> current k = thread_ptr k i"
proof -
  have ne: "current k \<noteq> idle k" using a by (auto simp: abs_sched_def)
  then obtain j where j: "j < nthreads k" "current k = thread_ptr k j"
    using wf by (auto simp: sched_wf_def)
  then have "abs_sched k = (counters k, Some j)" by (rule abs_sched_thread [OF wf])
  with a j show ?thesis by simp
qed

lemma wf_valid: "sched_wf k \<Longrightarrow> valid (priorities k) (abs_sched k)"
proof -
  assume wf: "sched_wf k"
  have "\<forall>p \<in> set (priorities k). 0 < p"
    using priorities_pos [OF wf] by (auto simp: in_set_conv_nth)
  moreover have "priorities k \<noteq> []" using wf_nr(3) [OF wf] by (metis length_greater_0_conv length_priorities)
  moreover have "i < nthreads k" if "snd (abs_sched k) = Some i" for i
    using abs_sched_current [OF wf that] by simp
  ultimately show ?thesis by (simp add: valid_def) (simp add: abs_sched_def)
qed

text \<open>
  C7: one timer interrupt refines one tick of the abstract round-robin scheduler, never faults,
  and keeps the run queue well-formed.
\<close>

theorem do_timer_refines_tick:
  assumes "sched_wf k"
  shows "\<exists>k'. do_timer k = Inr k' \<and> sched_wf k' \<and> priorities k' = priorities k
    \<and> abs_sched k' = tick (priorities k) (abs_sched k)"
  using do_timer_refines [OF assms] by blast

text \<open>
  C8: no thread starves: whatever is running, every thread of the run queue becomes the current
  one within as many ticks as the counters and priorities add up to, and one more.
\<close>

theorem no_starvation:
  assumes wf: "sched_wf k" and i: "i < nthreads k"
  shows "\<exists>m \<le> 1 + sum_list (counters k) + sum_list (priorities k).
    \<exists>k'. iter_res m do_timer k = Inr k' \<and> current k' = thread_ptr k i"
proof -
  obtain m where m: "m \<le> 1 + sum_list (counters k) + sum_list (priorities k)"
    "snd ((tick (priorities k) ^^ m) (abs_sched k)) = Some i"
    using waits_bounded [OF wf_valid [OF wf], of i] i by (auto simp: abs_sched_def)
  obtain k' where k': "iter_res m do_timer k = Inr k'" "sched_wf k'"
    "sched_view k' = (thread_ptr k, priorities k, (tick (priorities k) ^^ m) (abs_sched k))"
    using timer.iterates [OF wf, of m] by (auto simp: sched_view_def tick_pow)
  then have "snd (abs_sched k') = Some i" "thread_ptr k' = thread_ptr k"
    using m(2) by (simp_all add: sched_view_def)
  then have "current k' = thread_ptr k i" using abs_sched_current [OF k'(2)] by simp
  with m(1) k'(1) show ?thesis by blast
qed

section \<open>Fuel of the scheduling loop\<close>

text \<open>Refilling twice is refilling once.\<close>

definition full_slice :: "'a kernel_scheme \<Rightarrow> u64 \<Rightarrow> bool" where
  "full_slice k j \<longleftrightarrow> (\<exists>p t. aget (task k) j = Inr p \<and> p \<noteq> 0
     \<and> task_at k p = Some t \<and> counter t = priority t)"

lemma refill_idem:
  assumes "for_range 1 n refill_step k = Inr k1" "1 \<le> n"
  shows "for_range 1 n refill_step k1 = Inr k1" "nr_tasks k1 = nr_tasks k" "idle k1 = idle k"
proof -
  have "(\<lambda>j t. (\<forall>i. 1 \<le> i \<and> i < j \<longrightarrow> full_slice t i) \<and> nr_tasks t = nr_tasks k \<and> idle t = idle k) n k1"
  proof (rule for_range_partial [OF assms])
    fix j t t' assume j: "j < n" and step: "refill_step j t = Inr t'"
      and inv: "(\<forall>i. 1 \<le> i \<and> i < j \<longrightarrow> full_slice t i) \<and> nr_tasks t = nr_tasks k \<and> idle t = idle k"
    then obtain p u where p: "aget (task t) j = Inr p" "p \<noteq> 0" "task_at t p = Some u"
      "t' = t\<lparr>task_at := (task_at t)(p \<mapsto> u\<lparr>counter := priority u\<rparr>)\<rparr>"
      by (auto simp: refill_step_def elim!: deref_InrE)
    then have "full_slice t' i" if "i = j \<or> full_slice t i" for i
      using that by (force simp: full_slice_def)
    then show "(\<forall>i. 1 \<le> i \<and> i < j + 1 \<longrightarrow> full_slice t' i) \<and> nr_tasks t' = nr_tasks k \<and> idle t' = idle k"
      using inv less_Suc_word [OF j] p(4) by auto
  qed (auto simp: not_less [symmetric])
  then have inv: "\<And>i. 1 \<le> i \<Longrightarrow> i < n \<Longrightarrow> full_slice k1 i" and
    eqs: "nr_tasks k1 = nr_tasks k" "idle k1 = idle k" by auto
  show "nr_tasks k1 = nr_tasks k" "idle k1 = idle k" by (rule eqs)+
  have "refill_step j k1 = Inr k1" if j: "1 \<le> j" "j < n" for j
  proof -
    obtain p t where "aget (task k1) j = Inr p" "p \<noteq> 0" "task_at k1 p = Some t" "counter t = priority t"
      using inv [OF j] by (auto simp: full_slice_def)
    moreover from this have "(task_at k1)(p \<mapsto> t\<lparr>counter := priority t\<rparr>) = task_at k1"
      by (auto simp: fun_eq_iff)
    ultimately show ?thesis by (simp add: refill_step_def)
  qed
  then have "\<exists>s'. for_range 1 n refill_step k1 = Inr s' \<and> s' = k1"
    using for_range_inv [OF assms(2), of "\<lambda>_ s. s = k1" k1 refill_step] by simp
  then show "for_range 1 n refill_step k1 = Inr k1" by simp
qed

lemma idle_rounds:
  assumes "for_range 1 (nr_tasks k) (sched_step k) (idle k) = Inr (idle k)"
    and "for_range 1 (nr_tasks k) refill_step k = Inr k"
  shows "schedule_loop n (idle k) k = Inl No_Return"
  using assms by (induction n) simp_all

text \<open>
  Two rounds of the scheduling loop are enough: with any larger number of rounds it gives the
  same thread, the same fault, or the same verdict that it never returns.
\<close>

lemma schedule_loop_fuel:
  "schedule_loop (Suc (Suc n)) (idle k) k = schedule_loop 2 (idle k) k"
proof -
  have idem: "for_range 1 (nr_tasks k1) refill_step k1 = Inr k1 \<and> idle k1 = idle k"
    if r: "for_range 1 (nr_tasks k) refill_step k = Inr k1" for k1
  proof (cases "1 \<le> nr_tasks k")
    case True
    show ?thesis using refill_idem [OF r True] by metis
  next
    case False
    then have "\<not> 1 < nr_tasks k" by auto
    then have "k1 = k" using r by simp
    with r show ?thesis by simp
  qed
  have "schedule_loop (Suc n) (idle k) k1 = schedule_loop (Suc 0) (idle k) k1"
    if r: "for_range 1 (nr_tasks k) refill_step k = Inr k1" for k1
  proof (cases "for_range 1 (nr_tasks k1) (sched_step k1) (idle k1)")
    case (Inl e)
    then show ?thesis using idem [OF r] by (simp only: schedule_loop.simps(2) bindr_Inl)
  next
    case (Inr nxt)
    show ?thesis
    proof (cases "nxt = idle k1")
      case True
      then show ?thesis
        using Inr idem [OF r] idle_rounds [of k1 "Suc n"] idle_rounds [of k1 "Suc 0"] by metis
    next
      case False
      then show ?thesis using Inr idem [OF r] by (simp only: schedule_loop.simps(2) bindr_Inr if_False)
    qed
  qed
  then have eq: "bindr (for_range 1 (nr_tasks k) refill_step k) (schedule_loop (Suc n) nxt)
      = bindr (for_range 1 (nr_tasks k) refill_step k) (schedule_loop (Suc 0) nxt)" if "nxt = idle k" for nxt
    using that by (intro bindr_cong) simp_all
  show ?thesis
    unfolding numeral_2_eq_2 schedule_loop.simps(2) [of "Suc n" "idle k" k]
      schedule_loop.simps(2) [of "Suc 0" "idle k" k]
    by (rule bindr_cong [OF refl], rule if_cong [OF refl eq refl])
qed

lemma first_max_least: "i < first_max ds \<Longrightarrow> ds ! i < Max (set ds)"
  unfolding first_max_def by (metis nth_mem set_takeWhileD takeWhile_nth)

text \<open>
  C9: the scheduling loop returns. It picks the first of the threads with the most time left; when no
  thread has time left it first gives every thread the time slice of its priority. The thread it
  picks has time to run, and nothing but the time of the threads changes.
\<close>

theorem schedule_loop_picks:
  assumes wf: "sched_wf k"
  defines "time \<equiv> \<lambda>i. if \<forall>j < nthreads k. counter (thread_of k j) = 0
    then priority (thread_of k i) else counter (thread_of k i)"
  shows "\<exists>i h. schedule_loop (Suc (Suc n)) (idle k) k = Inr (thread_ptr k i, k\<lparr>task_at := h\<rparr>)
    \<and> i < nthreads k \<and> 0 < time i
    \<and> (\<forall>j < nthreads k. time j \<le> time i) \<and> (\<forall>j < i. time j < time i)
    \<and> (\<forall>j < nthreads k. h (thread_ptr k j) = Some ((thread_of k j)\<lparr>counter := time j\<rparr>))
    \<and> (\<forall>p. p \<notin> thread_ptr k ` {0 ..< nthreads k} \<longrightarrow> h p = task_at k p)"
proof -
  define z where "z \<longleftrightarrow> (\<forall>j < nthreads k. counter (thread_of k j) = 0)"
  define k1 where "k1 = (if z then refill k else k)"
  have z: "z \<longleftrightarrow> (\<forall>c \<in> set (counters k). c = 0)" by (simp only: z_def counters_zero cnt_def)
  obtain i where i: "i < nthreads k" "schedule_loop 2 (idle k) k = Inr (thread_ptr k i, k1)"
    "cnt k1 i \<noteq> 0" "first_max (counters k1) = i"
    using schedule_loop_ok [OF wf] unfolding z [symmetric] k1_def [symmetric] by blast
  have n: "nthreads k1 = nthreads k" "thread_ptr k1 = thread_ptr k" by (simp_all add: k1_def)
  have time: "cnt k1 j = time j" "task_at k1 (thread_ptr k j) = Some ((thread_of k j)\<lparr>counter := time j\<rparr>)"
    if j: "j < nthreads k" for j
  proof -
    have t: "time j = (if z then priority (thread_of k j) else counter (thread_of k j))"
      by (simp only: time_def z_def)
    show "task_at k1 (thread_ptr k j) = Some ((thread_of k j)\<lparr>counter := time j\<rparr>)"
      unfolding t k1_def using refill_thread [OF wf j] wf_thread(2) [OF wf j] by simp
    then show "cnt k1 j = time j" by (simp add: cnt_def thread_of_def [of k1] n(2))
  qed
  have "counters k1 \<noteq> []" using i(1) n by (metis length_counters length_0_conv not_less_zero)
  from first_max_props(2) [OF this] have m: "unat (time i) = Max (set (counters k1))"
    using i(1,4) n time(1) by simp
  have "time j \<le> time i" if j: "j < nthreads k" for j
  proof -
    have "counters k1 ! j \<in> set (counters k1)" by (rule nth_mem) (simp add: n(1) j)
    then have "counters k1 ! j \<le> Max (set (counters k1))" by simp
    then show ?thesis using m n(1) time(1) [OF j] j by (simp add: word_le_nat_alt)
  qed
  moreover have "time j < time i" if "j < i" for j
    using first_max_least [of j "counters k1"] that i(1,4) m n time(1) by (simp add: word_less_nat_alt)
  moreover have "task_at k1 p = task_at k p" if "p \<notin> thread_ptr k ` {0 ..< nthreads k}" for p
    using that by (auto simp: k1_def refill_def refilled_def)
  moreover have "schedule_loop (Suc (Suc n)) (idle k) k = Inr (thread_ptr k i, k\<lparr>task_at := task_at k1\<rparr>)"
    unfolding schedule_loop_fuel i(2) by (simp add: k1_def refill_def)
  moreover have "0 < time i" using i(1,3) time(1) by (simp add: word_gt_0)
  ultimately show ?thesis
    using i(1) time(2) by (intro exI [of _ i] exI [of _ "task_at k1"]) blast
qed

section \<open>The context switch\<close>

text \<open>
  C10: switching to another thread saves the registers, selects its page table and loads its
  registers; switching back restores the registers of the first thread, whatever the second one
  left in them.
\<close>

theorem switch_round_trip:
  assumes ne: "nxt \<noteq> current k" and there: "switch_to nxt k = Inr k1"
    and home: "switch_to (current k) (k1\<lparr>cpu := c\<rparr>) = Inr k2"
  shows "cpu k2 = cpu k \<and> current k1 = nxt \<and> current k2 = current k
    \<and> cpu k1 = thread (the (task_at k nxt)) \<and> thread (the (task_at k2 nxt)) = c
    \<and> satp k1 = (drop_bit PGSHIFT (pgd (the (task_at k nxt))) AND PPN_MASK) OR push_bit 60 8"
  using assms
  by (auto simp: switch_to_def switch_mm_def switch_context_def Let_def elim!: deref_InrE)

end
