(* ===== verification/Sched_Test.thy ===== *)
theory Sched_Test
  imports Sched_Props
begin

text \<open>
  Concrete runs of the scheduler: the run queue of the \<^verbatim>\<open>TEST_SCHED\<close> build (four threads whose
  priorities come from \<^verbatim>\<open>srand(2024)\<close>), the test of \<^verbatim>\<open>dummy\<close> on it, and states on which the
  scheduler's properties are applied.
\<close>

definition blank_thread :: thread_struct where
  "blank_thread = \<lparr>th_ra = 0, th_sp = 0, th_s = [], th_sepc = 0, th_sstatus = 0, th_sscratch = 0\<rparr>"

definition blank_task :: "u64 \<Rightarrow> u64 \<Rightarrow> task_struct" where
  "blank_task i prio = \<lparr>task_state = 0, counter = 0, priority = prio, pid = i, thread = blank_thread,
     files = 0, pgd = 0, mmap = 0\<rparr>"

fun draw :: "nat \<Rightarrow> u64 \<Rightarrow> u64 list" where
  "draw 0 sd = []"
| "draw (Suc n) sd = (case rand_priority sd of (p, sd) \<Rightarrow> p # draw n sd)"

text \<open>Idle and one thread per priority, the task structs one page apart.\<close>

definition run_queue :: "u64 list \<Rightarrow> kernel" where
  "run_queue ps =
     \<lparr>bud = \<lparr>bsize = 0, bitmap = [], ref_cnt = []\<rparr>, mem = (\<lambda>_. 0),
      task_at = foldr (\<lambda>i h. h(0x1000 * of_nat (Suc i) \<mapsto> blank_task (of_nat i) ((0 # ps) ! i)))
                  [0 ..< length ps + 1] (\<lambda>_. None),
      vma_at = (\<lambda>_. None), files_at = (\<lambda>_. None), idle = 0x1000, current = 0x1000,
      task = map (\<lambda>i. 0x1000 * of_nat i) [1 ..< length ps + 2], nr_tasks = of_nat (length ps + 1),
      seed = 0, cpu = blank_thread, satp = 0, stval = 0, scause = 0\<rparr>"

text \<open>Between two timer interrupts the current thread executes the body of \<^verbatim>\<open>dummy\<close>.\<close>

type_synonym test_state = "(u64 \<Rightarrow> dummy_local) \<times> u8 list \<times> kernel"

definition test_round :: "test_state \<Rightarrow> test_state res" where
  "test_round st =
     (case st of (ls, out, k) \<Rightarrow>
        bindr (dummy_body (ls (current k), out, k)) (\<lambda>(l, out, k).
        bindr (do_timer k) (\<lambda>k'. Inr (ls(current k := l), out, k'))))"

definition test_output :: "u64 list \<Rightarrow> nat \<Rightarrow> u8 list res" where
  "test_output ps n =
     bindr (schedule (run_queue ps)) (\<lambda>k.
     bindr (iter_res n test_round (\<lambda>_. \<lparr>last_counter = - 1, auto_inc_local_var = 0\<rparr>, [], k))
       (\<lambda>(_, out, _). Inr out))"

definition expected_output :: "u8 list" where
  "expected_output = map of_char ''2222222222111111133334222222222211111113''"

text \<open>
  The scheduling test of \<^verbatim>\<open>proc.c\<close> passes: with the priorities drawn from seed 2024, the pids
  that the four threads record are the expected output.
\<close>

lemma sched_test_passes: "test_output (draw 4 (srand 2024)) 40 = Inr expected_output"
  by code_simp

section \<open>Applications of the scheduler's properties\<close>

lemma two_threads:
  "nthreads (run_queue [2, 3]) = 2" "unat (nr_tasks (run_queue [2, 3])) = 3"
  "length (task (run_queue [2, 3])) = 3"
  "thread_ptr (run_queue [2, 3]) 0 = 0x2000" "thread_ptr (run_queue [2, 3]) (Suc 0) = 0x3000"
  "idle (run_queue [2, 3]) = 0x1000" "current (run_queue [2, 3]) = 0x1000"
  "task_at (run_queue [2, 3]) 0x1000 = Some (blank_task 0 0)"
  "task_at (run_queue [2, 3]) 0x2000 = Some (blank_task 1 2)"
  "task_at (run_queue [2, 3]) 0x3000 = Some (blank_task 2 3)"
  by code_simp+

lemma below_2: "(\<forall>i < (2::nat). P i) \<longleftrightarrow> P 0 \<and> P (Suc 0)"
  by (auto simp: less_2_cases_iff)

lemma upt_2: "[0 ..< 2] = [0, Suc 0]"
  by (simp add: upt_rec)

lemma two_threads_wf: "sched_wf (run_queue [2, 3])"
  unfolding sched_wf_def two_threads below_2 upt_2
  by (simp add: two_threads blank_task_def)

lemma two_threads_lists: "counters (run_queue [2, 3]) = [0, 0]" "priorities (run_queue [2, 3]) = [2, 3]"
  by (simp_all add: counters_def priorities_def thread_of_def two_threads upt_2 blank_task_def)

theorem do_timer_refines_tick_witness:
  "\<exists>k'. do_timer (run_queue [2, 3]) = Inr k' \<and> abs_sched k' = ([2, 3], Some 1)"
proof -
  have "abs_sched (run_queue [2, 3]) = ([0, 0], None)"
    by (simp add: abs_sched_def two_threads two_threads_lists)
  moreover have "tick [2, 3] ([0, 0], None) = ([2, 3], Some 1)" by code_simp
  ultimately show ?thesis
    using do_timer_refines_tick [OF two_threads_wf] by (auto simp: two_threads_lists)
qed

theorem no_starvation_witness:
  "\<exists>m \<le> 6. \<exists>k'. iter_res m do_timer (run_queue [2, 3]) = Inr k' \<and> current k' = 0x2000"
  using no_starvation [OF two_threads_wf, of 0] by (simp add: two_threads two_threads_lists)

theorem schedule_loop_picks_witness:
  "\<exists>k'. schedule_loop 2 0x1000 (run_queue [2, 3]) = Inr (0x3000, k')
     \<and> task_at k' 0x2000 = Some (blank_task 1 2\<lparr>counter := 2\<rparr>) \<and> task_at k' 0x3000 = Some (blank_task 2 3\<lparr>counter := 3\<rparr>)"
proof -
  have t: "thread_of (run_queue [2, 3]) 0 = blank_task 1 2" "thread_of (run_queue [2, 3]) (Suc 0) = blank_task 2 3"
    by (simp_all add: thread_of_def two_threads)
  have "\<exists>i h. schedule_loop 2 0x1000 (run_queue [2, 3]) = Inr (thread_ptr (run_queue [2, 3]) i, run_queue [2, 3]\<lparr>task_at := h\<rparr>)
      \<and> i = Suc 0
      \<and> h 0x2000 = Some (blank_task 1 2\<lparr>counter := 2\<rparr>) \<and> h 0x3000 = Some (blank_task 2 3\<lparr>counter := 3\<rparr>)"
    using schedule_loop_picks [OF two_threads_wf, of 0, unfolded two_threads(1,6) below_2 t numeral_2_eq_2 [symmetric]]
    by (elim ex_forward conjE) (simp only: less_2_cases_iff, auto simp: two_threads blank_task_def t simp del: schedule_loop.simps)
  then show ?thesis by (elim exE conjE) (simp add: two_threads del: schedule_loop.simps)
qed

theorem switch_round_trip_witness:
  "\<exists>k1 k2. switch_to 0x2000 (run_queue [2, 3]) = Inr k1
     \<and> switch_to 0x1000 (k1\<lparr>cpu := blank_thread\<lparr>th_ra := 7\<rparr>\<rparr>) = Inr k2
     \<and> cpu k2 = cpu (run_queue [2, 3]) \<and> current k2 = 0x1000"
proof -
  obtain k1 where k1: "switch_to 0x2000 (run_queue [2, 3]) = Inr k1"
    by (simp add: switch_to_def switch_mm_def switch_context_def two_threads Let_def)
  then have "current k1 = 0x2000" "\<exists>t. task_at k1 0x1000 = Some t" "\<exists>t. task_at k1 0x2000 = Some t"
    by (auto simp: switch_to_def switch_mm_def switch_context_def two_threads Let_def)
  then obtain k2 where k2: "switch_to 0x1000 (k1\<lparr>cpu := blank_thread\<lparr>th_ra := 7\<rparr>\<rparr>) = Inr k2"
    by (auto simp: switch_to_def switch_mm_def switch_context_def Let_def)
  show ?thesis
    using switch_round_trip [OF _ k1, of "blank_thread\<lparr>th_ra := 7\<rparr>" k2] k1 k2 by (auto simp: two_threads)
qed

end
