(* ===== verification/PageTable.thy ===== *)
theory PageTable
  imports Kernel_State
begin

text \<open>
  The page tables of \<^verbatim>\<open>arch/riscv/kernel/vm.c\<close>: three levels of 512 entries, walked and
  extended through the direct map. The routines take the page allocator they call as a
  parameter, \<open>kalloc_page\<close> in the kernel, so that what they do can be proved from the allocator's
  interface alone.
\<close>

section \<open>Entries\<close>

definition create_pte :: "u64 \<Rightarrow> u64" where
  "create_pte pa =
     (let ppn = drop_bit 12 pa AND PPN_MASK
      in push_bit 10 ppn OR PERM_A OR PERM_D OR PERM_X OR PERM_R OR PERM_W OR PERM_V)"

definition vpn0 :: "u64 \<Rightarrow> u64" where "vpn0 va = drop_bit 12 va AND 0x1ff"
definition vpn1 :: "u64 \<Rightarrow> u64" where "vpn1 va = drop_bit 21 va AND 0x1ff"
definition vpn2 :: "u64 \<Rightarrow> u64" where "vpn2 va = drop_bit 30 va AND 0x1ff"

text \<open>The address of entry \<open>i\<close> of the table at \<open>t\<close>, and the table a non-leaf entry points to.\<close>

definition slot :: "u64 \<Rightarrow> u64 \<Rightarrow> u64" where "slot t i = t + 8 * i"

definition entry_table :: "u64 \<Rightarrow> u64" where
  "entry_table e = push_bit 12 (drop_bit 10 e AND PPN_MASK) + PA2VA_OFFSET"

definition table_entry :: "u64 \<Rightarrow> u64" where
  "table_entry t = push_bit 10 (drop_bit 12 (t - PA2VA_OFFSET) AND PPN_MASK) OR PERM_V"

definition leaf_entry :: "u64 \<Rightarrow> u64 \<Rightarrow> u64" where
  "leaf_entry pa perm = push_bit 10 (drop_bit 12 pa AND PPN_MASK) OR perm"

section \<open>Walking and extending a page table\<close>

text \<open>
  One level of \<^verbatim>\<open>create_mapping\<close>: follow the entry at \<open>a\<close>, or allocate a table and enter it.
  The entry is written before the caller looks whether the allocation succeeded.
\<close>

type_synonym page_alloc = "machine \<Rightarrow> (u64 \<times> machine) res"

definition next_table :: "page_alloc \<Rightarrow> u64 \<Rightarrow> page_alloc" where
  "next_table alloc a s =
     (let e = rd64 (mem s) a
      in if e AND PERM_V = 0
         then bindr (alloc s) (\<lambda>(t, s). Inr (t, s\<lparr>mem := wr64 (mem s) a (table_entry t)\<rparr>))
         else Inr (entry_table e, s))"

text \<open>The loop body; the result tells whether the loop goes on or the function returns early.\<close>

definition map_page :: "page_alloc \<Rightarrow> u64 \<Rightarrow> u64 \<Rightarrow> u64 \<Rightarrow> u64 \<Rightarrow> machine \<Rightarrow> (bool \<times> machine) res" where
  "map_page alloc pgtbl cur_va cur_pa perm s =
     bindr (next_table alloc (slot pgtbl (vpn2 cur_va)) s) (\<lambda>(pmd, s).
     if pmd = 0 then Inr (False, s)
     else bindr (next_table alloc (slot pmd (vpn1 cur_va)) s) (\<lambda>(pte, s).
          if pte = 0 then Inr (False, s)
          else Inr (True, s\<lparr>mem := wr64 (mem s) (slot pte (vpn0 cur_va)) (leaf_entry cur_pa perm)\<rparr>)))"

text \<open>If \<^verbatim>\<open>offset\<close> came round to 0 the loop would start over.\<close>

function map_pages ::
  "page_alloc \<Rightarrow> u64 \<Rightarrow> u64 \<Rightarrow> u64 \<Rightarrow> u64 \<Rightarrow> u64 \<Rightarrow> u64 \<Rightarrow> machine \<Rightarrow> machine res" where
  "map_pages alloc pgtbl va pa sz perm offset s =
     (if offset < sz
      then bindr (map_page alloc pgtbl (va + offset) (pa + offset) perm s) (\<lambda>(more, s).
           if \<not> more then Inr s
           else if offset + PGSIZE \<le> offset then Inl No_Return
           else map_pages alloc pgtbl va pa sz perm (offset + PGSIZE) s)
      else Inr s)"
  by pat_completeness auto
termination
proof (relation "measure (\<lambda>(alloc, pgtbl, va, pa, sz, perm, offset, s). 2 ^ 64 - unat offset)", simp, clarsimp)
  fix offset :: u64
  assume lt: "\<not> offset + PGSIZE \<le> offset"
  have "unat (offset + PGSIZE) < 2 ^ 64" by (rule order_less_le_trans [OF unsigned_less]) simp
  then show "18446744073709551616 - unat (offset + PGSIZE) < 18446744073709551616 - unat offset"
    using lt by (simp add: word_le_nat_alt)
qed

declare map_pages.simps [simp del]

definition create_mapping_with ::
  "page_alloc \<Rightarrow> u64 \<Rightarrow> u64 \<Rightarrow> u64 \<Rightarrow> u64 \<Rightarrow> u64 \<Rightarrow> machine \<Rightarrow> machine res" where
  "create_mapping_with alloc pgtbl va pa sz perm s = map_pages alloc pgtbl va pa sz perm 0 s"

definition kalloc_page :: page_alloc where
  "kalloc_page s = bindr (kalloc (bud s)) (\<lambda>(p, b). Inr (p, s\<lparr>bud := b\<rparr>))"

definition create_mapping :: "u64 \<Rightarrow> u64 \<Rightarrow> u64 \<Rightarrow> u64 \<Rightarrow> u64 \<Rightarrow> machine \<Rightarrow> machine res" where
  "create_mapping = create_mapping_with kalloc_page"

definition find_pte :: "u64 \<Rightarrow> u64 \<Rightarrow> mem \<Rightarrow> u64" where
  "find_pte pgtbl va m =
     (let e2 = rd64 m (slot pgtbl (vpn2 va))
      in if e2 AND PERM_V \<noteq> 0
         then let pmd = entry_table e2;
                  e1 = rd64 m (slot pmd (vpn1 va))
              in if e1 AND PERM_V \<noteq> 0 then slot (entry_table e1) (vpn0 va) else 0
         else 0)"

section \<open>The kernel page table\<close>

text \<open>The linker's section boundaries, and the I/O window of \<^verbatim>\<open>virtio.h\<close>.\<close>

record sections =
  stext :: u64
  etext :: u64
  srodata :: u64
  erodata :: u64
  sdata :: u64
  edata :: u64
  sbss :: u64
  ebss :: u64
  ekernel :: u64
  sramdisk :: u64
  eramdisk :: u64

definition VIRTIO_START :: u64 where "VIRTIO_START = 0x10001000"
definition VIRTIO_SIZE :: u64 where "VIRTIO_SIZE = 0x1000"
definition VIRTIO_COUNT :: u64 where "VIRTIO_COUNT = 8"
definition IOMAP_OFFSET :: u64 where "IOMAP_OFFSET = 0xffffffc800000000"
definition io_to_virt :: "u64 \<Rightarrow> u64" where "io_to_virt pa = pa + IOMAP_OFFSET"

text \<open>\<open>swapper_pg_dir\<close> is the address of the table; the result is the value written to \<^verbatim>\<open>satp\<close>.\<close>

definition setup_vm_final :: "sections \<Rightarrow> u64 \<Rightarrow> machine \<Rightarrow> (u64 \<times> machine) res" where
  "setup_vm_final k swapper_pg_dir s =
     (let s = s\<lparr>mem := memset swapper_pg_dir 0 PGSIZE (mem s)\<rparr>;
          cm = create_mapping swapper_pg_dir
      in bindr (cm (stext k) (stext k - PA2VA_OFFSET) (etext k - stext k)
                  (PERM_A OR PERM_X OR PERM_R OR PERM_V) s) (\<lambda>s.
         bindr (cm (srodata k) (srodata k - PA2VA_OFFSET) (erodata k - srodata k)
                  (PERM_A OR PERM_R OR PERM_V) s) (\<lambda>s.
         bindr (cm (sdata k) (sdata k - PA2VA_OFFSET) (edata k - sdata k)
                  (PERM_A OR PERM_W OR PERM_R OR PERM_V) s) (\<lambda>s.
         bindr (cm (sbss k) (sbss k - PA2VA_OFFSET) (ebss k - sbss k)
                  (PERM_A OR PERM_D OR PERM_W OR PERM_R OR PERM_V) s) (\<lambda>s.
         bindr (cm (ekernel k) (ekernel k - PA2VA_OFFSET)
                  (PHY_SIZE - (ekernel k - PA2VA_OFFSET - PHY_START))
                  (PERM_A OR PERM_D OR PERM_W OR PERM_R OR PERM_V) s) (\<lambda>s.
         bindr (cm (sramdisk k) (sramdisk k - PA2VA_OFFSET) (eramdisk k - sramdisk k)
                  (PERM_A OR PERM_R OR PERM_W OR PERM_X OR PERM_V) s) (\<lambda>s.
         bindr (cm (io_to_virt VIRTIO_START) VIRTIO_START (VIRTIO_SIZE * VIRTIO_COUNT)
                  (PERM_A OR PERM_R OR PERM_W OR PERM_V) s) (\<lambda>s.
         let swapper_pg_dir_pa = swapper_pg_dir - PA2VA_OFFSET
         in Inr (push_bit 60 8 OR (drop_bit 12 swapper_pg_dir_pa AND PPN_MASK), s)))))))))"

end
