(* ===== verification/Vm.thy ===== *)
theory Vm
  imports PageTable
begin

text \<open>
  Memory areas and the page-fault handler of \<^verbatim>\<open>arch/riscv/kernel/vm.c\<close>: \<open>find_vma\<close> and \<open>do_mmap\<close> on
  the linked list of a process, and \<open>do_page_fault\<close>, which checks the access against the area,
  and then either copies a shared page (copy on write) or supplies a page, filled from the
  program image when the area has one.
\<close>

section \<open>Running machine operations in the kernel\<close>

definition machine_of :: "'a kernel_scheme \<Rightarrow> machine" where
  "machine_of k = \<lparr>bud = bud k, mem = mem k\<rparr>"

definition with_machine :: "machine \<Rightarrow> 'a kernel_scheme \<Rightarrow> 'a kernel_scheme" where
  "with_machine s k = k\<lparr>bud := bud s, mem := mem s\<rparr>"

definition on_machine :: "(machine \<Rightarrow> machine res) \<Rightarrow> 'a kernel_scheme \<Rightarrow> 'a kernel_scheme res" where
  "on_machine f k = bindr (f (machine_of k)) (\<lambda>s. Inr (with_machine s k))"

definition alloc_on :: "'a kernel_scheme \<Rightarrow> (u64 \<times> 'a kernel_scheme) res" where
  "alloc_on k = bindr (kalloc_page (machine_of k)) (\<lambda>(p, s). Inr (p, with_machine s k))"

section \<open>Memory areas\<close>

definition VM_ANON :: u64 where "VM_ANON = 1"
definition VM_READ :: u64 where "VM_READ = 2"
definition VM_WRITE :: u64 where "VM_WRITE = 4"
definition VM_EXEC :: u64 where "VM_EXEC = 8"

text \<open>
  The walk along \<^verbatim>\<open>vm_next\<close>. There are \<open>2 ^ 64\<close> addresses, so a walk that has not ended after that
  many areas is in a cycle and never ends.
\<close>

function find_vma_from :: "nat \<Rightarrow> vm_area_struct heap \<Rightarrow> u64 \<Rightarrow> u64 \<Rightarrow> u64 res" where
  "find_vma_from n h addr cur_vma =
     (if cur_vma = 0 then Inr 0
      else if n = 0 then Inl No_Return
      else bindr (deref h cur_vma) (\<lambda>v.
        if vm_start v \<le> addr \<and> addr < vm_end v then Inr cur_vma
        else find_vma_from (n - 1) h addr (vm_next v)))"
  by pat_completeness auto
termination
  by (relation "measure (\<lambda>(n, h, addr, cur_vma). n)") auto

declare find_vma_from.simps [simp del]

definition find_vma :: "vm_area_struct heap \<Rightarrow> u64 \<Rightarrow> u64 \<Rightarrow> u64 res" where
  "find_vma h mm_mmap addr = find_vma_from (2 ^ 64) h addr mm_mmap"

text \<open>The address of the \<^verbatim>\<open>mm\<close> member of a task.\<close>

definition mm_of_task :: "u64 \<Rightarrow> u64" where
  "mm_of_task t = t + 184"

text \<open>\<open>do_mmap\<close> on the \<^verbatim>\<open>mm\<close> of task \<open>t\<close>; the result is the start of the area.\<close>

definition do_mmap ::
  "u64 \<Rightarrow> u64 \<Rightarrow> u64 \<Rightarrow> u64 \<Rightarrow> u64 \<Rightarrow> u64 \<Rightarrow> 'a kernel_scheme \<Rightarrow> (u64 \<times> 'a kernel_scheme) res" where
  "do_mmap t addr len pgoff filesz flags k =
     bindr (alloc_on k) (\<lambda>(cur_vma, k).
     if cur_vma = 0 then Inl Panic
     else bindr (deref (task_at k) t) (\<lambda>tk.
       let v = \<lparr>vm_mm = mm_of_task t, vm_start = addr, vm_end = addr + len, vm_next = mmap tk,
                vm_prev = 0, vm_flags = flags, vm_pgoff = pgoff, vm_filesz = filesz\<rparr>;
           k = k\<lparr>vma_at := (vma_at k)(cur_vma \<mapsto> v)\<rparr>
       in bindr (if mmap tk \<noteq> 0
                 then bindr (deref (vma_at k) (mmap tk)) (\<lambda>old.
                        Inr (k\<lparr>vma_at := (vma_at k)(mmap tk \<mapsto> old\<lparr>vm_prev := cur_vma\<rparr>)\<rparr>))
                 else Inr k) (\<lambda>k.
          Inr (addr, k\<lparr>task_at := (task_at k)(t \<mapsto> tk\<lparr>mmap := cur_vma\<rparr>)\<rparr>))))"

section \<open>Page faults\<close>

definition SUPERVISOR_INST_PAGE_FAULT :: u64 where "SUPERVISOR_INST_PAGE_FAULT = 12"
definition SUPERVISOR_LOAD_PAGE_FAULT :: u64 where "SUPERVISOR_LOAD_PAGE_FAULT = 13"
definition SUPERVISOR_STORE_PAGE_FAULT :: u64 where "SUPERVISOR_STORE_PAGE_FAULT = 15"

text \<open>
  The permission check: panics, or gives whether the fault is a write to a page shared
  copy-on-write and the address of its entry.
\<close>

definition check_access :: "u64 \<Rightarrow> u64 \<Rightarrow> vm_area_struct \<Rightarrow> u64 \<Rightarrow> mem \<Rightarrow> (bool \<times> u64) res" where
  "check_access pgtbl bad_addr vma exception_code m =
     (if exception_code = SUPERVISOR_INST_PAGE_FAULT
      then if vm_flags vma AND VM_EXEC \<noteq> 0 then Inr (False, 0) else Inl Panic
      else if exception_code = SUPERVISOR_STORE_PAGE_FAULT
      then if vm_flags vma AND VM_WRITE \<noteq> 0
           then let pte = find_pte pgtbl (PGROUNDDOWN bad_addr) m
                in Inr (pte \<noteq> 0 \<and> rd64 m pte AND PERM_V \<noteq> 0 \<and> rd64 m pte AND PERM_W = 0, pte)
           else Inl Panic
      else if exception_code = SUPERVISOR_LOAD_PAGE_FAULT
      then if vm_flags vma AND VM_READ \<noteq> 0 then Inr (False, 0) else Inl Panic
      else Inr (False, 0))"

text \<open>A copy to a page that could not be allocated writes through a null pointer.\<close>

definition copy_to_page :: "u64 \<Rightarrow> u64 \<Rightarrow> u64 \<Rightarrow> u64 \<Rightarrow> 'a kernel_scheme \<Rightarrow> 'a kernel_scheme res" where
  "copy_to_page page dst src n k =
     (if page = 0 \<and> n \<noteq> 0 then Inl Null_Pointer else Inr (k\<lparr>mem := memcpy dst src n (mem k)\<rparr>))"

definition put_page_on :: "u64 \<Rightarrow> 'a kernel_scheme \<Rightarrow> 'a kernel_scheme res" where
  "put_page_on va k = bindr (put_page va (bud k)) (\<lambda>b. Inr (k\<lparr>bud := b\<rparr>))"

definition fault_perm :: "vm_area_struct \<Rightarrow> u64" where
  "fault_perm vma = PERM_A OR PERM_D OR PERM_U OR (vm_flags vma AND NOT VM_ANON) OR PERM_V"

definition cow_fault :: "u64 \<Rightarrow> u64 \<Rightarrow> vm_area_struct \<Rightarrow> u64 \<Rightarrow> u64 \<Rightarrow> 'a kernel_scheme \<Rightarrow> 'a kernel_scheme res" where
  "cow_fault pgtbl bad_addr vma pte page k =
     (let src = entry_table (rd64 (mem k) pte)
      in bindr (copy_to_page page page src PGSIZE k) (\<lambda>k.
         bindr (put_page_on src k) (\<lambda>k.
         on_machine (create_mapping pgtbl (PGROUNDDOWN bad_addr) (page - PA2VA_OFFSET) PGSIZE
                       (fault_perm vma)) k)))"

text \<open>\<open>rdisk\<close> is the address of the program image.\<close>

definition demand_fault ::
  "u64 \<Rightarrow> u64 \<Rightarrow> u64 \<Rightarrow> vm_area_struct \<Rightarrow> u64 \<Rightarrow> 'a kernel_scheme \<Rightarrow> 'a kernel_scheme res" where
  "demand_fault rdisk pgtbl bad_addr vma page k =
     (let vpage_start = PGROUNDDOWN bad_addr;
          vpage_end = PGROUNDUP (bad_addr + 1);
          vaddr_start = max vpage_start (vm_start vma);
          vaddr_end = min vpage_end (vm_end vma);
          in_page_offset = vaddr_start - vpage_start
      in bindr (if vm_flags vma AND VM_ANON = 0
                then let seg_offset = vaddr_start - vm_start vma;
                         seg_copysz = vaddr_end - vaddr_start;
                         page_start = (if 0 <s in_page_offset then page + in_page_offset else page);
                         file_start = rdisk + vm_pgoff vma + seg_offset
                     in copy_to_page page page_start file_start seg_copysz k
                else Inr k) (\<lambda>k.
         on_machine (create_mapping pgtbl vpage_start (page - PA2VA_OFFSET) PGSIZE (fault_perm vma)) k))"

definition do_page_fault :: "u64 \<Rightarrow> 'a kernel_scheme \<Rightarrow> 'a kernel_scheme res" where
  "do_page_fault rdisk k =
     (let bad_addr = stval k
      in bindr (deref (task_at k) (current k)) (\<lambda>cur.
         bindr (find_vma (vma_at k) (mmap cur) bad_addr) (\<lambda>p.
         if p = 0 then Inl Panic
         else bindr (deref (vma_at k) p) (\<lambda>vma.
           let exception_code = scause k AND 0x7FFFFFFF;
               pgtbl = pgd cur + PA2VA_OFFSET
           in bindr (check_access pgtbl bad_addr vma exception_code (mem k)) (\<lambda>(is_cow, pte).
              bindr (alloc_on k) (\<lambda>(page, k).
              if is_cow then cow_fault pgtbl bad_addr vma pte page k
              else demand_fault rdisk pgtbl bad_addr vma page k))))))"

end
