(* ===== verification/PageTable_Correct.thy ===== *)
theory PageTable_Correct
  imports PageTable
begin

text \<open>
  What extending a page table does, proved from the interface of the page allocator. The tables
  below a root are addressed by their index paths; well-formedness says that every table is an
  allocated page and that no two paths lead to the same one.
\<close>

section \<open>Slots of a table\<close>

definition page_aligned :: "u64 \<Rightarrow> bool" where
  "page_aligned p \<longleftrightarrow> 4096 dvd unat p"

lemma unat_slot:
  assumes "page_aligned t" "i < 512"
  shows "unat (slot t i) = unat t + 8 * unat i"
proof -
  have "unat t < 2 ^ 64" by (rule order_less_le_trans [OF unsigned_less]) simp
  moreover obtain q where "unat t = 4096 * q" using assms(1) by (auto simp: page_aligned_def)
  ultimately have "unat t \<le> 2 ^ 64 - 4096" by simp
  moreover have "unat i < 512" using assms(2) by (simp add: word_less_nat_alt)
  ultimately show ?thesis by (simp add: slot_def unat_word_ariths)
qed

lemma slot_aligned8: "page_aligned t \<Longrightarrow> i < 512 \<Longrightarrow> aligned8 (slot t i)"
  by (auto simp: aligned8_def unat_slot page_aligned_def elim!: dvdE)

lemma slot_inj:
  assumes "page_aligned t" "page_aligned t'" "i < 512" "i' < 512" "slot t i = slot t' i'"
  shows "t = t' \<and> i = i'"
proof -
  obtain q q' where q: "unat t = 4096 * q" "unat t' = 4096 * q'"
    using assms(1,2) by (metis dvdE page_aligned_def)
  have i: "unat i < 512" "unat i' < 512" using assms(3,4) by (simp_all add: word_less_nat_alt)
  have "unat t + 8 * unat i = unat t' + 8 * unat i'"
    using assms unat_slot [of t i] unat_slot [of t' i'] by simp
  then have eq: "512 * q + unat i = 512 * q' + unat i'" using q by simp
  have "q = (512 * q + unat i) div 512" "q' = (512 * q' + unat i') div 512" using i by simp_all
  then have "q = q'" using eq by simp
  with eq q have "unat t = unat t'" "unat i = unat i'" by simp_all
  then show ?thesis by (simp add: word_unat_eq_iff)
qed

lemma slot_nonzero: "page_aligned t \<Longrightarrow> i < 512 \<Longrightarrow> t \<noteq> 0 \<Longrightarrow> slot t i \<noteq> 0"
  using unat_slot [of t i] by (metis add_is_0 unat_0 unat_eq_zero)

lemma rd_slot_other:
  assumes "page_aligned t" "page_aligned t'" "i < 512" "i' < 512" "(t', i') \<noteq> (t, i)"
  shows "rd64 (wr64 m (slot t i) v) (slot t' i') = rd64 m (slot t' i')"
  using assms slot_inj [of t t' i i'] slot_aligned8 by (intro rd64_wr64_other) auto

lemma vpn_less [simp]: "vpn0 va < 512" "vpn1 va < 512" "vpn2 va < 512"
proof -
  have "x AND 0x1ff < 512" for x :: u64
    using word_and_le1 [of x "0x1ff"] by (simp add: word_le_nat_alt word_less_nat_alt)
  then show "vpn0 va < 512" "vpn1 va < 512" "vpn2 va < 512"
    by (simp_all add: vpn0_def vpn1_def vpn2_def)
qed

lemma table_entry_valid: "table_entry t AND PERM_V \<noteq> 0"
proof -
  have "bit (table_entry t AND PERM_V) 0" by (simp add: table_entry_def bit_simps layout)
  then show ?thesis by (metis bit_0_eq bot_apply bot_bool_def)
qed

lemma entry_table_entry:
  assumes "page_aligned t" "t - PA2VA_OFFSET < 2 ^ 56"
  shows "entry_table (table_entry t) = t"
proof -
  define pa where "pa = t - PA2VA_OFFSET"
  have "page_aligned pa"
  proof -
    have "t = pa + PA2VA_OFFSET" by (simp add: pa_def)
    then have "unat t = (unat pa + unat PA2VA_OFFSET) mod 2 ^ 64" by (simp add: unat_word_ariths)
    moreover have "4096 dvd unat PA2VA_OFFSET" by (simp add: layout)
    moreover have "4096 dvd (2::nat) ^ 64" by simp
    ultimately show ?thesis
      using assms(1) unfolding page_aligned_def by (metis dvd_add_left_iff dvd_mod_iff)
  qed
  then have "unat (take_bit 12 pa) = 0"
    by (simp add: page_aligned_def take_bit_eq_mod unat_mod)
  then have tb: "take_bit 12 pa = 0" by (simp add: unat_eq_zero)
  have low: "\<not> bit pa n" if "n < 12" for n
    using that arg_cong [OF tb, of "\<lambda>w. bit w n"] by (simp add: bit_take_bit_iff)
  have high: "\<not> bit pa n" if "56 \<le> n" for n
  proof -
    have "take_bit 56 pa = pa"
      using assms(2) by (intro take_bit_unat_less) (simp add: pa_def word_less_nat_alt)
    then show ?thesis using that by (metis bit_take_bit_iff not_less)
  qed
  have "push_bit 12 (drop_bit 10 (table_entry t) AND PPN_MASK) = pa"
  proof (rule bit_word_eqI)
    fix n assume n: "n < LENGTH(64)"
    have mask: "PPN_MASK = mask 44" by (simp add: layout mask_eq_decr_exp)
    show "bit (push_bit 12 (drop_bit 10 (table_entry t) AND PPN_MASK)) n = bit pa n"
    proof (cases "n < 12")
      case True
      then show ?thesis using low [of n] by (simp add: bit_simps)
    next
      case False
      then obtain k where k: "n = 12 + k" by (metis le_Suc_ex not_less)
      have "\<not> bit PERM_V (10 + k)" by (simp add: layout bit_1_iff)
      then show ?thesis
        using n k high [of n] by (cases "k < 44") (auto simp: table_entry_def pa_def [symmetric] mask bit_simps)
    qed
  qed
  then show ?thesis by (simp add: entry_table_def pa_def)
qed

section \<open>Tables by index path\<close>

definition sub_table :: "mem \<Rightarrow> u64 \<Rightarrow> u64 \<Rightarrow> u64 option" where
  "sub_table m t i =
     (let e = rd64 m (slot t i) in if e AND PERM_V = 0 then None else Some (entry_table e))"

fun table_at :: "mem \<Rightarrow> u64 \<Rightarrow> u64 list \<Rightarrow> u64 option" where
  "table_at m t [] = Some t"
| "table_at m t (i # l) = (case sub_table m t i of None \<Rightarrow> None | Some t' \<Rightarrow> table_at m t' l)"

definition is_path :: "u64 list \<Rightarrow> bool" where
  "is_path l \<longleftrightarrow> length l \<le> 2 \<and> (\<forall>i \<in> set l. i < 512)"

text \<open>\<open>U\<close> is the set of allocated pages.\<close>

definition wf_pt :: "mem \<Rightarrow> u64 \<Rightarrow> u64 set \<Rightarrow> bool" where
  "wf_pt m r U \<longleftrightarrow> (\<forall>l t. is_path l \<and> table_at m r l = Some t \<longrightarrow>
     t \<in> U \<and> (\<forall>l'. is_path l' \<and> table_at m r l' = Some t \<longrightarrow> l' = l))"

definition tables :: "mem \<Rightarrow> u64 \<Rightarrow> u64 set" where
  "tables m r = {t. \<exists>l. is_path l \<and> table_at m r l = Some t}"

text \<open>A page that is not allocated holds no valid entry.\<close>

definition clean :: "u64 set \<Rightarrow> mem \<Rightarrow> u64 set \<Rightarrow> bool" where
  "clean pool m U \<longleftrightarrow> (\<forall>p \<in> pool - U. \<forall>i < 512. sub_table m p i = None)"

text \<open>The valid leaf entry that the walk finds for a virtual address.\<close>

definition translate :: "mem \<Rightarrow> u64 \<Rightarrow> u64 \<Rightarrow> u64 option" where
  "translate m r va =
     (let a = find_pte r va m
      in if a = 0 \<or> rd64 m a AND PERM_V = 0 then None else Some (rd64 m a))"

definition vpns :: "u64 \<Rightarrow> u64 \<times> u64 \<times> u64" where
  "vpns va = (vpn2 va, vpn1 va, vpn0 va)"

lemma table_at_snoc:
  "table_at m r (l @ [i]) = (case table_at m r l of None \<Rightarrow> None | Some t \<Rightarrow> sub_table m t i)"
  by (induction l arbitrary: r) (auto split: option.splits)

lemma table_at_prefix: "table_at m r (l @ l') \<noteq> None \<Longrightarrow> table_at m r l \<noteq> None"
  by (induction l arbitrary: r) (auto split: option.splits)

lemma is_path_snoc [simp]: "is_path (l @ [i]) \<longleftrightarrow> length l \<le> 1 \<and> is_path l \<and> i < 512"
  by (auto simp: is_path_def)

lemma wf_ptD:
  assumes "wf_pt m r U" "is_path l" "table_at m r l = Some t"
  shows "t \<in> U" "is_path l' \<Longrightarrow> table_at m r l' = Some t \<Longrightarrow> l' = l"
  using assms unfolding wf_pt_def by blast+

lemma sub_table_other:
  assumes "page_aligned t" "page_aligned t'" "i < 512" "i' < 512" "(t', i') \<noteq> (t, i)"
  shows "sub_table (wr64 m (slot t i) v) t' i' = sub_table m t' i'"
  using rd_slot_other [OF assms] by (simp add: sub_table_def Let_def)

lemma translate_eq:
  assumes wf: "wf_pt m r U" and U: "\<forall>p \<in> U. page_aligned p \<and> p \<noteq> 0"
  shows "translate m r va = (case table_at m r [vpn2 va, vpn1 va] of None \<Rightarrow> None
    | Some t \<Rightarrow> let e = rd64 m (slot t (vpn0 va)) in if e AND PERM_V = 0 then None else Some e)"
proof (cases "table_at m r [vpn2 va, vpn1 va]")
  case None
  then show ?thesis
    by (auto simp: translate_def find_pte_def sub_table_def Let_def split: if_splits option.splits)
next
  case (Some t)
  have "is_path [vpn2 va, vpn1 va]" by (simp add: is_path_def)
  then have "t \<in> U" using wf_ptD(1) [OF wf _ Some] by blast
  then have "slot t (vpn0 va) \<noteq> 0" using U slot_nonzero by simp
  then show ?thesis using Some
    by (auto simp: translate_def find_pte_def sub_table_def Let_def split: if_splits option.splits)
qed

section \<open>Writing one entry\<close>

text \<open>A write to entry \<open>k\<close> of the table at path \<open>l0\<close> is seen only through that entry.\<close>

lemma table_at_write:
  assumes wf: "wf_pt m r U" and U: "\<forall>p \<in> U. page_aligned p \<and> p \<noteq> 0"
    and l0: "is_path l0" "table_at m r l0 = Some t0" and k: "k < 512"
    and l: "is_path l" "\<nexists>rest. l = l0 @ k # rest"
  shows "table_at (wr64 m (slot t0 k) v) r l = table_at m r l"
  using l
proof (induction l rule: rev_induct)
  case (snoc i l)
  have "\<nexists>rest. l = l0 @ k # rest" using snoc.prems(2) by fastforce
  then have IH: "table_at (wr64 m (slot t0 k) v) r l = table_at m r l"
    using snoc by simp
  show ?case
  proof (cases "table_at m r l")
    case (Some t)
    have "(t, i) \<noteq> (t0, k)"
    proof
      assume "(t, i) = (t0, k)"
      then have "l = l0" "i = k" using wf_ptD(2) [OF wf l0] Some snoc.prems(1) by auto
      with snoc.prems(2) show False by simp
    qed
    moreover have "page_aligned t" "page_aligned t0"
      using wf_ptD(1) [OF wf _ Some] wf_ptD(1) [OF wf l0] U snoc.prems(1) by auto
    ultimately have "sub_table (wr64 m (slot t0 k) v) t i = sub_table m t i"
      using k snoc.prems(1) by (intro sub_table_other) auto
    with IH Some show ?thesis by (simp add: table_at_snoc)
  qed (simp add: table_at_snoc IH)
qed simp

lemma wr_slot_frame:
  assumes "i < 512" "\<not> x - t < 4096"
  shows "wr64 m (slot t i) v x = m x"
proof -
  have "\<not> unat (x - slot t i) < 8"
  proof
    assume *: "unat (x - slot t i) < 8"
    have i: "unat i < 512" using assms(1) by (simp add: word_less_nat_alt)
    have "x - t = 8 * i + (x - slot t i)" by (simp add: slot_def)
    then have "unat (x - t) = unat (8 * i + (x - slot t i))" by (rule arg_cong)
    also have "\<dots> = 8 * unat i + unat (x - slot t i)" using * i by (simp add: unat_word_ariths)
    finally have "unat (x - t) = 8 * unat i + unat (x - slot t i)" .
    then show False using * assms by (simp add: word_less_nat_alt)
  qed
  then show ?thesis by (simp add: wr64_def store_def)
qed

section \<open>The page allocator's interface\<close>

text \<open>
  \<open>used\<close> are the pages in use, \<open>pool\<close> all pages the allocator manages. Allocation fails only when
  all are in use; otherwise the page is a fresh one. Neither looks at the contents of memory.
\<close>

locale page_source =
  fixes alloc :: page_alloc
    and used :: "machine \<Rightarrow> u64 set"
    and ok :: "machine \<Rightarrow> bool"
    and pool :: "u64 set"
  assumes alloc_page: "ok s \<Longrightarrow> \<exists>p s'. alloc s = Inr (p, s') \<and>
      (p = 0 \<and> s' = s \<and> pool \<subseteq> used s \<or>
       p \<in> pool - used s \<and> ok s' \<and> mem s' = mem s \<and> used s' = insert p (used s))"
    and ok_mem [simp]: "ok (s\<lparr>mem := m\<rparr>) = ok s"
    and used_mem [simp]: "used (s\<lparr>mem := m\<rparr>) = used s"
    and used_pool: "ok s \<Longrightarrow> used s \<subseteq> pool"
    and pool_page: "p \<in> pool \<Longrightarrow> page_aligned p \<and> p \<noteq> 0 \<and> p - PA2VA_OFFSET < 2 ^ 56"
    and finite_pool: "finite pool"
begin

text \<open>The state of an address space with root \<open>r\<close>, and the number of pages still free.\<close>

definition good :: "u64 \<Rightarrow> machine \<Rightarrow> bool" where
  "good r s \<longleftrightarrow> ok s \<and> wf_pt (mem s) r (used s) \<and> clean pool (mem s) (used s)"

definition room :: "machine \<Rightarrow> nat" where
  "room s = card (pool - used s)"

lemma used_page: "ok s \<Longrightarrow> \<forall>p \<in> used s. page_aligned p \<and> p \<noteq> 0"
  using used_pool pool_page by blast

lemma room_insert:
  assumes "p \<in> pool - used s" "used s' = insert p (used s)"
  shows "Suc (room s') = room s"
proof -
  have "pool - used s = insert p (pool - used s')" "p \<notin> pool - used s'" using assms by auto
  then show ?thesis using finite_pool by (simp add: room_def)
qed

text \<open>
  What one level of the walk guarantees: the table it returns is now the one at the extended
  path, and apart from that the address space, memory outside its tables and the set of free
  pages are as before.
\<close>

definition extends :: "u64 \<Rightarrow> machine \<Rightarrow> machine \<Rightarrow> nat \<Rightarrow> bool" where
  "extends r s s' n \<longleftrightarrow> good r s' \<and> used s \<subseteq> used s' \<and> room s \<le> room s' + n
     \<and> (\<forall>l t. is_path l \<and> table_at (mem s) r l = Some t \<longrightarrow> table_at (mem s') r l = Some t)
     \<and> tables (mem s') r \<subseteq> tables (mem s) r \<union> (used s' - used s)
     \<and> (\<forall>x. (\<forall>t \<in> tables (mem s') r. \<not> x - t < 4096) \<longrightarrow> mem s' x = mem s x)"

lemma extends_refl: "good r s \<Longrightarrow> extends r s s 0"
  by (auto simp: extends_def)

lemma extends_tables: "extends r s s' n \<Longrightarrow> tables (mem s) r \<subseteq> tables (mem s') r"
  unfolding extends_def tables_def by blast

lemma extends_trans:
  assumes 1: "extends r s s' n" and 2: "extends r s' s'' n'"
  shows "extends r s s'' (n + n')"
proof -
  have sub: "tables (mem s') r \<subseteq> tables (mem s'') r" by (rule extends_tables [OF 2])
  show ?thesis
    unfolding extends_def
  proof (intro conjI allI impI; (elim conjE)?)
    show "room s \<le> room s'' + (n + n')" using 1 2 by (simp add: extends_def)
    show "table_at (mem s'') r l = Some t" if "is_path l" "table_at (mem s) r l = Some t" for l t
      using 1 2 that by (simp add: extends_def)
    show "mem s'' x = mem s x" if "\<forall>t \<in> tables (mem s'') r. \<not> x - t < 4096" for x
      using 1 2 that sub unfolding extends_def by (metis subsetD)
  qed (use 1 2 in \<open>auto simp: extends_def\<close>)
qed

lemma next_table_ok:
  assumes good: "good r s" and l0: "is_path l0" "length l0 \<le> 1" "table_at (mem s) r l0 = Some t0"
    and k: "k < 512" and free: "0 < room s"
  shows "\<exists>t s'. next_table alloc (slot t0 k) s = Inr (t, s') \<and> extends r s s' 1 \<and> t \<noteq> 0
    \<and> table_at (mem s') r (l0 @ [k]) = Some t
    \<and> (\<forall>va. translate (mem s') r va = translate (mem s) r va)"
proof -
  note wf = good [unfolded good_def, THEN conjunct2, THEN conjunct1]
  have ok: "ok s" and cl: "clean pool (mem s) (used s)" using good by (simp_all add: good_def)
  note U = used_page [OF ok]
  have path: "is_path (l0 @ [k])" using l0 k by simp
  show ?thesis
  proof (cases "sub_table (mem s) t0 k")
    case (Some t)
    then have "next_table alloc (slot t0 k) s = Inr (t, s)"
      by (auto simp: next_table_def sub_table_def Let_def split: if_splits)
    moreover have tab: "table_at (mem s) r (l0 @ [k]) = Some t" using Some l0 by (simp add: table_at_snoc)
    moreover have "t \<noteq> 0" using U wf_ptD(1) [OF wf path tab] by blast
    moreover have "extends r s s 1" using extends_refl [OF good] by (simp add: extends_def)
    ultimately show ?thesis by blast
  next
    case None
    have "\<not> pool \<subseteq> used s" using free by (auto simp: room_def card_gt_0_iff)
    then obtain p s1 where p: "alloc s = Inr (p, s1)" "p \<in> pool - used s" "ok s1" "mem s1 = mem s"
      "used s1 = insert p (used s)"
      using alloc_page [OF ok] by blast
    define m' where "m' = wr64 (mem s) (slot t0 k) (table_entry p)"
    define s' where "s' = s1\<lparr>mem := m'\<rparr>"
    have pp: "page_aligned p" "p \<noteq> 0" "entry_table (table_entry p) = p"
      using pool_page [of p] p(2) entry_table_entry by auto
    have run: "next_table alloc (slot t0 k) s = Inr (p, s')"
      using None p by (auto simp: next_table_def sub_table_def Let_def s'_def m'_def split: if_splits)
    have t0U: "t0 \<in> used s" "page_aligned t0" using wf_ptD(1) [OF wf l0(1,3)] U by auto
    have sub: "sub_table m' t i = (if (t, i) = (t0, k) then Some p else sub_table (mem s) t i)"
      if "page_aligned t" "i < 512" for t i
    proof (cases "(t, i) = (t0, k)")
      case True
      then show ?thesis
        using table_entry_valid pp(3) by (simp add: sub_table_def m'_def Let_def)
    next
      case False
      then have "sub_table m' t i = sub_table (mem s) t i"
        unfolding m'_def using t0U that k by (intro sub_table_other) auto
      with False show ?thesis by (simp only: if_False)
    qed
    have absent: "table_at (mem s) r (l0 @ [k]) = None" using None l0 by (simp add: table_at_snoc)
    have tab: "table_at m' r l = (if l = l0 @ [k] then Some p else table_at (mem s) r l)"
      if l: "is_path l" for l
    proof (cases "\<exists>rest. l = l0 @ k # rest")
      case False
      then have "table_at m' r l = table_at (mem s) r l"
        unfolding m'_def by (intro table_at_write [OF wf U l0(1,3) k l]) auto
      with False show ?thesis by auto
    next
      case True
      then obtain rest where rest: "l = (l0 @ [k]) @ rest" by auto
      have here: "table_at m' r l0 = Some t0"
        using table_at_write [OF wf U l0(1,3) k l0(1)] l0(3) by (simp add: m'_def)
      then have at: "table_at m' r (l0 @ [k]) = Some p" using sub [OF t0U(2) k] by (simp add: table_at_snoc)
      show ?thesis
      proof (cases rest)
        case Nil
        with rest at show ?thesis by simp
      next
        case (Cons j rest')
        have j: "j < 512" "rest' = []" using l rest Cons l0(2) by (auto simp: is_path_def)
        have "sub_table m' p j = sub_table (mem s) p j"
          using sub [OF pp(1) j(1)] t0U(1) p(2) by auto
        also have "\<dots> = None" using cl p(2) j(1) by (simp add: clean_def)
        finally have "table_at m' r l = None"
          using at rest Cons j(2) table_at_snoc [of m' r "l0 @ [k]" j] by simp
        moreover have "table_at (mem s) r l = None"
          using absent table_at_prefix [of "mem s" r "l0 @ [k]" rest] rest by metis
        ultimately show ?thesis using rest Cons by simp
      qed
    qed
    have wf': "wf_pt m' r (insert p (used s))"
      unfolding wf_pt_def
    proof (intro allI impI conjI; elim conjE)
      fix l t assume l: "is_path l" "table_at m' r l = Some t"
      show "t \<in> insert p (used s)" using l tab wf_ptD(1) [OF wf] by (auto split: if_splits)
      fix l' assume l': "is_path l'" "table_at m' r l' = Some t"
      show "l' = l"
        using l l' tab [OF l(1)] tab [OF l'(1)] wf_ptD [OF wf] p(2) by (auto split: if_splits)
    qed
    have cl': "clean pool m' (insert p (used s))"
      using cl t0U(1) pool_page by (auto simp: clean_def sub)
    have good': "good r s'" using wf' cl' p by (simp add: good_def s'_def)
    have "translate m' r va = translate (mem s) r va" for va
    proof -
      define l where "l = [vpn2 va, vpn1 va]"
      have l: "is_path l" by (simp add: l_def is_path_def)
      have U': "\<forall>q \<in> insert p (used s). page_aligned q \<and> q \<noteq> 0" using U pp by auto
      show ?thesis
      proof (cases "l = l0 @ [k]")
        case True
        have "sub_table m' p (vpn0 va) = None"
          using cl p(2) sub [OF pp(1)] t0U(1) by (auto simp: clean_def)
        then have "rd64 m' (slot p (vpn0 va)) AND PERM_V = 0"
          by (auto simp: sub_table_def Let_def split: if_splits)
        moreover have "table_at m' r [vpn2 va, vpn1 va] = Some p" "table_at (mem s) r [vpn2 va, vpn1 va] = None"
          using tab [OF l] True absent l_def by metis+
        ultimately show ?thesis
          unfolding translate_eq [OF wf' U'] translate_eq [OF wf U] by (simp del: table_at.simps)
      next
        case False
        have same: "table_at m' r l = table_at (mem s) r l" using tab [OF l] False by simp
        have "rd64 m' (slot t (vpn0 va)) = rd64 (mem s) (slot t (vpn0 va))"
          if t: "table_at (mem s) r l = Some t" for t
        proof -
          have "t \<noteq> t0" using wf_ptD(2) [OF wf l t l0(1)] l0 l_def by auto
          moreover have "page_aligned t" using wf_ptD(1) [OF wf l t] U by blast
          ultimately show ?thesis unfolding m'_def using t0U(2) k by (intro rd_slot_other) auto
        qed
        then show ?thesis
          using same unfolding l_def
          by (simp add: translate_eq [OF wf' U'] translate_eq [OF wf U] split: option.splits)
      qed
    qed
    moreover have "extends r s s' 1"
      unfolding extends_def
    proof (intro conjI allI impI; (elim conjE)?)
      show "good r s'" by (rule good')
      show "used s \<subseteq> used s'" "room s \<le> room s' + 1"
        using p room_insert [of p s s1] by (auto simp: s'_def room_def)
      show "table_at (mem s') r l = Some t" if "is_path l" "table_at (mem s) r l = Some t" for l t
        using tab [OF that(1)] that absent by (auto simp: s'_def)
      show "tables (mem s') r \<subseteq> tables (mem s) r \<union> (used s' - used s)"
        using tab p by (auto simp: tables_def s'_def split: if_splits)
      show "mem s' x = mem s x" if "\<forall>t \<in> tables (mem s') r. \<not> x - t < 4096" for x
      proof -
        have "table_at m' r l0 = Some t0" using tab [OF l0(1)] l0(3) by simp
        then have "t0 \<in> tables (mem s') r" using l0(1) by (auto simp: tables_def s'_def)
        then show ?thesis using that wr_slot_frame [OF k] by (simp add: s'_def m'_def)
      qed
    qed
    ultimately show ?thesis
      using run pp(2) tab [OF path] by (auto simp: s'_def)
  qed
qed

end

section \<open>Pages of the address space\<close>

lemma mask_9: "0x1ff = (mask 9 :: u64)"
  by (simp add: mask_eq_decr_exp)

lemma vpns_word:
  "take_bit 27 (drop_bit 12 va) = vpn0 va OR push_bit 9 (vpn1 va) OR push_bit 18 (vpn2 va)"
proof (rule bit_word_eqI)
  fix n assume "n < LENGTH(64)"
  consider "n < 9" | "9 \<le> n" "n < 18" | "18 \<le> n" "n < 27" | "27 \<le> n" by linarith
  then show "bit (take_bit 27 (drop_bit 12 va)) n
      = bit (vpn0 va OR push_bit 9 (vpn1 va) OR push_bit 18 (vpn2 va)) n"
    unfolding vpn0_def vpn1_def vpn2_def mask_9
    by cases (auto simp: bit_simps dest: bit_imp_le_length)
qed

lemma vpns_page:
  assumes "vpns x = vpns y"
  shows "unat x div 4096 mod 2 ^ 27 = unat y div 4096 mod 2 ^ 27"
proof -
  have "take_bit 27 (drop_bit 12 x) = take_bit 27 (drop_bit 12 y)"
    using assms unfolding vpns_word by (simp add: vpns_def)
  then have "unat (take_bit 27 (drop_bit 12 x)) = unat (take_bit 27 (drop_bit 12 y))" by (rule arg_cong)
  then show ?thesis by (simp add: take_bit_eq_mod drop_bit_eq_div unat_div unat_mod)
qed

lemma mod_mult_div: "0 < b \<Longrightarrow> x mod (b * c) div b = x div b mod (c :: nat)"
  by (simp add: mod_mult2_eq)

lemma mod_add_inj:
  assumes "(q + a) mod n = (q + b) mod n" "a < n" "b < (n :: nat)"
  shows "a = b"
proof -
  have "(int q + int a) mod int n = (int q + int b) mod int n"
    using assms(1) by (metis of_nat_add zmod_int)
  then have "(int q + int a - int q) mod int n = (int q + int b - int q) mod int n"
    by (intro mod_diff_cong refl)
  then show ?thesis using assms(2,3) by simp
qed

lemma vpns_offset_inj:
  assumes eq: "vpns (va + of_nat (4096 * a)) = vpns (va + of_nat (4096 * b))"
    and "a < 2 ^ 27" "b < 2 ^ 27"
  shows "a = b"
proof -
  have page: "unat (va + of_nat (4096 * c)) div 4096 mod 2 ^ 27 = (unat va div 4096 + c) mod 2 ^ 27"
    if "c < 2 ^ 27" for c
  proof -
    have "unat (of_nat (4096 * c) :: u64) = 4096 * c" using that by (intro unat_of_nat_small) simp
    then have "unat (va + of_nat (4096 * c)) = (unat va + 4096 * c) mod (4096 * 2 ^ 52)"
      by (simp add: unat_word_ariths)
    then have "unat (va + of_nat (4096 * c)) div 4096 = (unat va + 4096 * c) div 4096 mod 2 ^ 52"
      by (simp only: mod_mult_div)
    also have "(unat va + 4096 * c) div 4096 = unat va div 4096 + c" by simp
    finally show ?thesis by (simp add: mod_mod_cancel)
  qed
  have "(unat va div 4096 + a) mod 2 ^ 27 = (unat va div 4096 + b) mod 2 ^ 27"
    using vpns_page [OF eq] page assms(2,3) by simp
  then show ?thesis using assms(2,3) by (rule mod_add_inj)
qed

section \<open>Mapping pages\<close>

lemma valid_bit: "x AND PERM_V = 0 \<longleftrightarrow> \<not> bit x 0"
  by (simp add: layout and_one_eq bit_0 even_iff_mod_2_eq_zero)

lemma leaf_entry_valid: "perm AND PERM_V \<noteq> 0 \<Longrightarrow> leaf_entry pa perm AND PERM_V \<noteq> 0"
  by (simp add: leaf_entry_def valid_bit bit_simps)

text \<open>A write to a leaf entry changes the translation of its page and of no other.\<close>

lemma translate_leaf_write:
  fixes v :: u64
  assumes wf: "wf_pt m r U" and U: "\<forall>p \<in> U. page_aligned p \<and> p \<noteq> 0"
    and t: "table_at m r [vpn2 va, vpn1 va] = Some t"
  defines "m' \<equiv> wr64 m (slot t (vpn0 va)) v"
  shows "\<And>l. is_path l \<Longrightarrow> table_at m' r l = table_at m r l"
    and "wf_pt m' r U"
    and "translate m' r va' = (if vpns va' = vpns va then (if v AND PERM_V = 0 then None else Some v)
                              else translate m r va')"
proof -
  have l0: "is_path [vpn2 va, vpn1 va]" by (simp add: is_path_def)
  have tU: "t \<in> U" "page_aligned t" using wf_ptD(1) [OF wf l0 t] U by auto
  show tab: "table_at m' r l = table_at m r l" if l: "is_path l" for l
    unfolding m'_def using l
    by (intro table_at_write [OF wf U l0 t _ l]) (auto simp: is_path_def)
  show wf': "wf_pt m' r U" using wf tab unfolding wf_pt_def by metis
  have l: "is_path [vpn2 va', vpn1 va']" by (simp add: is_path_def)
  show "translate m' r va' = (if vpns va' = vpns va then (if v AND PERM_V = 0 then None else Some v)
                              else translate m r va')"
  proof (cases "table_at m r [vpn2 va', vpn1 va']")
    case None
    then have "vpns va' \<noteq> vpns va" using t by (auto simp: vpns_def simp del: table_at.simps)
    with None show ?thesis
      using translate_eq [OF wf U, of va'] translate_eq [OF wf' U, of va'] tab [OF l]
      by (simp del: table_at.simps)
  next
    case (Some u)
    have u: "page_aligned u" using wf_ptD(1) [OF wf l Some] U by blast
    have "vpns va' = vpns va \<longleftrightarrow> (u, vpn0 va') = (t, vpn0 va)"
      using wf_ptD(2) [OF wf l Some l0] Some t by (auto simp: vpns_def simp del: table_at.simps)
    moreover have "rd64 m' (slot u (vpn0 va'))
        = (if (u, vpn0 va') = (t, vpn0 va) then v else rd64 m (slot u (vpn0 va')))"
      using rd_slot_other [of t u "vpn0 va" "vpn0 va'"] tU u by (auto simp: m'_def)
    ultimately show ?thesis
      using Some translate_eq [OF wf U, of va'] translate_eq [OF wf' U, of va'] tab [OF l]
      by (auto simp add: Let_def simp del: table_at.simps)
  qed
qed

text \<open>Memory that agrees on all table entries has the same tables and translations.\<close>

lemma same_entries:
  assumes wf: "wf_pt m r U" and U: "\<forall>p \<in> U. page_aligned p \<and> p \<noteq> 0"
    and same: "\<forall>t \<in> tables m r. \<forall>i < 512. rd64 m' (slot t i) = rd64 m (slot t i)"
  shows "\<And>l. is_path l \<Longrightarrow> table_at m' r l = table_at m r l" and "wf_pt m' r U"
    and "translate m' r va = translate m r va"
proof -
  show tab: "table_at m' r l = table_at m r l" if "is_path l" for l
    using that
  proof (induction l rule: rev_induct)
    case (snoc i l)
    then have IH: "table_at m' r l = table_at m r l" and i: "is_path l" "i < 512" by simp_all
    show ?case
    proof (cases "table_at m r l")
      case (Some t)
      then have "t \<in> tables m r" using i(1) by (auto simp: tables_def)
      then have "sub_table m' t i = sub_table m t i" using same i(2) by (simp add: sub_table_def)
      with IH Some show ?thesis by (simp add: table_at_snoc)
    qed (simp add: table_at_snoc IH)
  qed simp
  show wf': "wf_pt m' r U" using wf tab unfolding wf_pt_def by metis
  have l: "is_path [vpn2 va, vpn1 va]" by (simp add: is_path_def)
  have "rd64 m' (slot t (vpn0 va)) = rd64 m (slot t (vpn0 va))"
    if "table_at m r [vpn2 va, vpn1 va] = Some t" for t
  proof -
    have "t \<in> tables m r" using that l unfolding tables_def by blast
    then show ?thesis using same by simp
  qed
  then show "translate m' r va = translate m r va"
    using translate_eq [OF wf U, of va] translate_eq [OF wf' U, of va] tab [OF l]
    by (simp del: table_at.simps split: option.splits)
qed

text \<open>Mapping a page whose table exists needs no allocation.\<close>

lemma map_page_existing:
  assumes wf: "wf_pt (mem s) r U" and U: "\<forall>p \<in> U. page_aligned p \<and> p \<noteq> 0"
    and t: "table_at (mem s) r [vpn2 va, vpn1 va] = Some t"
  shows "map_page alloc r va pa perm s
    = Inr (True, s\<lparr>mem := wr64 (mem s) (slot t (vpn0 va)) (leaf_entry pa perm)\<rparr>)"
proof -
  obtain pmd where pmd: "sub_table (mem s) r (vpn2 va) = Some pmd" "sub_table (mem s) pmd (vpn1 va) = Some t"
    using t by (auto split: option.splits)
  have "pmd \<noteq> 0" using wf_ptD(1) [OF wf, of "[vpn2 va]" pmd] pmd U by (auto simp: is_path_def)
  moreover have "t \<noteq> 0" using wf_ptD(1) [OF wf _ t] U by (auto simp: is_path_def)
  ultimately show ?thesis
    using pmd by (auto simp: map_page_def next_table_def sub_table_def Let_def split: if_splits)
qed

lemma create_mapping_one:
  "create_mapping_with alloc r va pa PGSIZE perm s
     = bindr (map_page alloc r va pa perm s) (\<lambda>(_, s). Inr s)"
proof -
  have "map_pages alloc r va pa PGSIZE perm (0 + PGSIZE) s' = Inr s'" for s'
    by (subst map_pages.simps) simp
  moreover have "\<not> 0 + PGSIZE \<le> 0" "0 < PGSIZE" by (simp_all add: PGSIZE_def)
  ultimately show ?thesis
    unfolding create_mapping_with_def
    by (subst map_pages.simps) (simp add: case_prod_beta bindr_def split: sum.splits)
qed

text \<open>
  The tables on the way to a virtual address, and how many of a set of tables do not exist yet:
  extending the page table takes just that many pages.
\<close>

definition prefixes :: "u64 \<Rightarrow> u64 list set" where
  "prefixes va = {[vpn2 va], [vpn2 va, vpn1 va]}"

definition missing :: "mem \<Rightarrow> u64 \<Rightarrow> u64 list set \<Rightarrow> nat" where
  "missing m r L = card {l \<in> L. table_at m r l = None}"

lemma prefixes_path: "l \<in> prefixes va \<Longrightarrow> is_path l"
  by (auto simp: prefixes_def is_path_def)

context page_source
begin

lemma leaf_write:
  fixes v :: u64
  assumes good: "good r s" and t: "table_at (mem s) r [vpn2 va, vpn1 va] = Some t"
  defines "s' \<equiv> s\<lparr>mem := wr64 (mem s) (slot t (vpn0 va)) v\<rparr>"
  shows "extends r s s' 0"
    and "translate (mem s') r va' = (if vpns va' = vpns va then (if v AND PERM_V = 0 then None else Some v)
                                    else translate (mem s) r va')"
proof -
  have ok: "ok s" and wf: "wf_pt (mem s) r (used s)" and cl: "clean pool (mem s) (used s)"
    using good by (simp_all add: good_def)
  note U = used_page [OF ok]
  define m' where "m' = wr64 (mem s) (slot t (vpn0 va)) v"
  note w = translate_leaf_write [OF wf U t, where v = v, folded m'_def]
  have l0: "is_path [vpn2 va, vpn1 va]" by (simp add: is_path_def)
  have tU: "t \<in> used s" "page_aligned t" using wf_ptD(1) [OF wf l0 t] U by auto
  have "clean pool m' (used s)"
    unfolding clean_def
  proof (intro ballI allI impI)
    fix p i assume p: "p \<in> pool - used s" and i: "(i::u64) < 512"
    have "sub_table m' p i = sub_table (mem s) p i"
      unfolding m'_def using p i tU pool_page by (intro sub_table_other) auto
    then show "sub_table m' p i = None" using cl p i by (simp add: clean_def)
  qed
  then have good': "good r s'" using ok w(2) by (simp add: good_def s'_def m'_def)
  show "extends r s s' 0"
    unfolding extends_def
  proof (intro conjI allI impI; (elim conjE)?)
    show "room s \<le> room s' + 0" by (simp add: room_def s'_def)
    show "mem s' x = mem s x" if "\<forall>t \<in> tables (mem s') r. \<not> x - t < 4096" for x
    proof -
      have "t \<in> tables (mem s') r" using l0 t w(1) [OF l0] by (auto simp: tables_def s'_def m'_def)
      then show ?thesis using that wr_slot_frame by (simp add: s'_def)
    qed
  qed (use good' w(1) in \<open>auto simp: s'_def m'_def tables_def\<close>)
  show "translate (mem s') r va' = (if vpns va' = vpns va then (if v AND PERM_V = 0 then None else Some v)
                                    else translate (mem s) r va')"
    using w(3) by (simp add: s'_def m'_def)
qed

text \<open>Extending the page table by the missing ones of \<open>L\<close>.\<close>

definition budget :: "u64 \<Rightarrow> u64 list set \<Rightarrow> machine \<Rightarrow> machine \<Rightarrow> bool" where
  "budget r L s s' \<longleftrightarrow> missing (mem s') r L \<le> missing (mem s) r L
     \<and> extends r s s' (missing (mem s) r L - missing (mem s') r L)"

lemma missing_mono:
  assumes "extends r s s' n" "finite L" "\<forall>l \<in> L. is_path l"
  shows "missing (mem s') r L \<le> missing (mem s) r L"
proof -
  have "{l \<in> L. table_at (mem s') r l = None} \<subseteq> {l \<in> L. table_at (mem s) r l = None}"
  proof clarify
    fix l assume l: "l \<in> L" "table_at (mem s') r l = None"
    then show "table_at (mem s) r l = None"
      using assms(1,3) by (cases "table_at (mem s) r l") (auto simp: extends_def)
  qed
  then show ?thesis unfolding missing_def using assms(2) by (intro card_mono) auto
qed

lemma extends_mono: "extends r s s' n \<Longrightarrow> n \<le> n' \<Longrightarrow> extends r s s' n'"
  by (simp add: extends_def)

lemma budget_zero:
  assumes "extends r s s' 0" "finite L" "\<forall>l \<in> L. is_path l"
  shows "budget r L s s'"
  using missing_mono [OF assms] extends_mono [OF assms(1)] by (simp add: budget_def)

lemma budget_trans: "budget r L s s' \<Longrightarrow> budget r L s' s'' \<Longrightarrow> budget r L s s''"
  unfolding budget_def by (auto dest: extends_trans)

lemma budget_room:
  assumes "budget r L s s'" "missing (mem s) r L \<le> room s"
  shows "missing (mem s') r L \<le> room s'" "good r s'"
  using assms by (auto simp: budget_def extends_def)

lemma next_table_budget:
  assumes good: "good r s" and l0: "is_path l0" "length l0 \<le> 1" "table_at (mem s) r l0 = Some t0"
    and k: "k < 512" and L: "finite L" "\<forall>l \<in> L. is_path l" "l0 @ [k] \<in> L"
    and left: "missing (mem s) r L \<le> room s"
  shows "\<exists>t s'. next_table alloc (slot t0 k) s = Inr (t, s') \<and> budget r L s s' \<and> t \<noteq> 0
    \<and> table_at (mem s') r (l0 @ [k]) = Some t
    \<and> (\<forall>va. translate (mem s') r va = translate (mem s) r va)"
proof (cases "table_at (mem s) r (l0 @ [k])")
  case (Some t)
  have wf: "wf_pt (mem s) r (used s)" and ok: "ok s" using good by (simp_all add: good_def)
  have "t \<noteq> 0" using wf_ptD(1) [OF wf _ Some] L(2,3) used_page [OF ok] by blast
  moreover have "next_table alloc (slot t0 k) s = Inr (t, s)"
    using Some l0(3) by (auto simp: table_at_snoc sub_table_def next_table_def Let_def split: if_splits)
  ultimately show ?thesis
    using Some budget_zero [OF extends_refl [OF good] L(1,2)] by blast
next
  case None
  have one: "0 < missing (mem s) r L"
    unfolding missing_def using L(1,3) None by (auto simp: card_gt_0_iff)
  then obtain t s' where t: "next_table alloc (slot t0 k) s = Inr (t, s')" "extends r s s' 1" "t \<noteq> 0"
    "table_at (mem s') r (l0 @ [k]) = Some t" "\<forall>va. translate (mem s') r va = translate (mem s) r va"
    using next_table_ok [OF good l0 k] left by auto
  have "{l \<in> L. table_at (mem s') r l = None} \<subseteq> {l \<in> L. table_at (mem s) r l = None} - {l0 @ [k]}"
    using t(2,4) L(2) unfolding extends_def by fastforce
  then have "missing (mem s') r L \<le> card ({l \<in> L. table_at (mem s) r l = None} - {l0 @ [k]})"
    unfolding missing_def using L(1) by (intro card_mono) auto
  then have "missing (mem s') r L < missing (mem s) r L"
    using None L(3) one unfolding missing_def by (simp add: card_Diff_singleton)
  then have "budget r L s s'" using extends_mono [OF t(2)] by (simp add: budget_def)
  then show ?thesis using t by blast
qed

lemma map_page_budget:
  assumes good: "good r s" and perm: "perm AND PERM_V \<noteq> 0" and L: "finite L" "\<forall>l \<in> L. is_path l" "prefixes va \<subseteq> L"
    and left: "missing (mem s) r L \<le> room s"
  shows "\<exists>s'. map_page alloc r va pa perm s = Inr (True, s') \<and> budget r L s s'
    \<and> (\<forall>va'. translate (mem s') r va' =
          (if vpns va' = vpns va then Some (leaf_entry pa perm) else translate (mem s) r va'))"
proof -
  have r: "is_path []" "table_at (mem s) r [] = Some r" by (simp_all add: is_path_def)
  have pre: "[] @ [vpn2 va] \<in> L" "[vpn2 va] @ [vpn1 va] \<in> L" using L(3) by (simp_all add: prefixes_def)
  obtain pmd s1 where 1: "next_table alloc (slot r (vpn2 va)) s = Inr (pmd, s1)" "budget r L s s1"
    "pmd \<noteq> 0" "table_at (mem s1) r [vpn2 va] = Some pmd"
    "\<forall>va. translate (mem s1) r va = translate (mem s) r va"
    using next_table_budget [OF good r(1) _ r(2) vpn_less(3) L(1,2) pre(1) left] by auto
  note b1 = budget_room [OF 1(2) left]
  obtain pte s2 where 2: "next_table alloc (slot pmd (vpn1 va)) s1 = Inr (pte, s2)" "budget r L s1 s2"
    "pte \<noteq> 0" "table_at (mem s2) r [vpn2 va, vpn1 va] = Some pte"
    "\<forall>va. translate (mem s2) r va = translate (mem s1) r va"
    using next_table_budget [OF b1(2) _ _ 1(4) vpn_less(2) L(1,2) pre(2) b1(1)] by (auto simp: is_path_def)
  have good2: "good r s2" using budget_room [OF 2(2) b1(1)] by simp
  note w = leaf_write [OF good2 2(4), of "leaf_entry pa perm"]
  have "budget r L s (s2\<lparr>mem := wr64 (mem s2) (slot pte (vpn0 va)) (leaf_entry pa perm)\<rparr>)"
    by (rule budget_trans [OF 1(2) budget_trans [OF 2(2) budget_zero [OF w(1) L(1,2)]]])
  then show ?thesis
    using 1 2 w(2) leaf_entry_valid [OF perm] by (auto simp: map_page_def)
qed

lemma map_pages_budget:
  assumes good: "good r s" and perm: "perm AND PERM_V \<noteq> 0"
    and L: "finite L" "\<forall>l \<in> L. is_path l" "\<And>i. i < n \<Longrightarrow> prefixes (va + of_nat (4096 * i)) \<subseteq> L"
    and left: "missing (mem s) r L \<le> room s"
    and n: "unat sz \<le> 4096 * n" "4096 * n < unat sz + 4096" "n < 2 ^ 27" and j: "j \<le> n"
  shows "\<exists>s'. map_pages alloc r va pa sz perm (of_nat (4096 * j)) s = Inr s' \<and> budget r L s s'
    \<and> (\<forall>i. j \<le> i \<and> i < n \<longrightarrow> translate (mem s') r (va + of_nat (4096 * i))
          = Some (leaf_entry (pa + of_nat (4096 * i)) perm))
    \<and> (\<forall>va'. (\<forall>i. j \<le> i \<and> i < n \<longrightarrow> vpns va' \<noteq> vpns (va + of_nat (4096 * i)))
          \<longrightarrow> translate (mem s') r va' = translate (mem s) r va')"
  using good left j
proof (induction "n - j" arbitrary: j s)
  case 0
  then have j: "j = n" by simp
  have "unat (of_nat (4096 * n) :: u64) = 4096 * n" using n(3) by (intro unat_of_nat_small) simp
  then have "\<not> of_nat (4096 * n) < sz" using n(1) by (simp add: word_less_nat_alt)
  then have "map_pages alloc r va pa sz perm (of_nat (4096 * j)) s = Inr s"
    using j by (simp add: map_pages.simps)
  then show ?case using budget_zero [OF extends_refl [OF "0.prems"(1)] L(1,2)] j by (intro exI [of _ s]) auto
next
  case (Suc d)
  then have j: "j < n" "d = n - Suc j" "Suc j \<le> n" by simp_all
  define off :: u64 where "off = of_nat (4096 * j)"
  have uo: "unat off = 4096 * j" using n(3) j(1) unfolding off_def by (intro unat_of_nat_small) simp
  then have lt: "off < sz" using n(2) j(1) by (simp add: word_less_nat_alt)
  have next_off: "off + PGSIZE = of_nat (4096 * Suc j)" by (simp add: off_def layout)
  have "unat (off + PGSIZE) = 4096 * Suc j"
    using n(3) j(1) unfolding next_off by (intro unat_of_nat_small) simp
  then have go: "\<not> off + PGSIZE \<le> off" using uo by (simp add: word_le_nat_alt)
  have pre: "prefixes (va + off) \<subseteq> L" unfolding off_def by (rule L(3) [OF j(1)])
  obtain s1 where s1: "map_page alloc r (va + off) (pa + off) perm s = Inr (True, s1)" "budget r L s s1"
    "\<forall>va'. translate (mem s1) r va' =
       (if vpns va' = vpns (va + off) then Some (leaf_entry (pa + off) perm) else translate (mem s) r va')"
    using map_page_budget [OF Suc.prems(1) perm L(1,2) pre Suc.prems(2), of "pa + off"] by blast
  note g1 = budget_room [OF s1(2) Suc.prems(2)]
  obtain s' where s': "map_pages alloc r va pa sz perm (of_nat (4096 * Suc j)) s1 = Inr s'" "budget r L s1 s'"
    "\<forall>i. Suc j \<le> i \<and> i < n \<longrightarrow> translate (mem s') r (va + of_nat (4096 * i))
          = Some (leaf_entry (pa + of_nat (4096 * i)) perm)"
    "\<forall>va'. (\<forall>i. Suc j \<le> i \<and> i < n \<longrightarrow> vpns va' \<noteq> vpns (va + of_nat (4096 * i)))
          \<longrightarrow> translate (mem s') r va' = translate (mem s1) r va'"
    using Suc.hyps(1) [OF j(2) g1(2,1) j(3)] by blast
  have run: "map_pages alloc r va pa sz perm (of_nat (4096 * j)) s = Inr s'"
    unfolding off_def [symmetric]
    using lt go s1(1) s'(1) next_off by (subst map_pages.simps) simp
  have "translate (mem s') r (va + of_nat (4096 * j)) = Some (leaf_entry (pa + of_nat (4096 * j)) perm)"
  proof -
    have "vpns (va + of_nat (4096 * j)) \<noteq> vpns (va + of_nat (4096 * i))" if "Suc j \<le> i \<and> i < n" for i
      using vpns_offset_inj [of va j i] that n(3) by auto
    then show ?thesis using s'(4) s1(3) by (simp add: off_def)
  qed
  then have "\<forall>i. j \<le> i \<and> i < n \<longrightarrow> translate (mem s') r (va + of_nat (4096 * i))
      = Some (leaf_entry (pa + of_nat (4096 * i)) perm)"
    using s'(3) by (metis Suc_leI le_neq_implies_less)
  moreover have "translate (mem s') r va' = translate (mem s) r va'"
    if "\<forall>i. j \<le> i \<and> i < n \<longrightarrow> vpns va' \<noteq> vpns (va + of_nat (4096 * i))" for va'
    using that s'(4) s1(3) j(1) by (auto simp: off_def)
  ultimately show ?case using run budget_trans [OF s1(2) s'(2)] by blast
qed

lemma budget_extends: "budget r L s s' \<Longrightarrow> missing (mem s) r L \<le> n \<Longrightarrow> extends r s s' n"
  by (auto simp: budget_def elim: extends_mono)

lemma missing_prefixes: "finite A \<Longrightarrow> missing m r (\<Union>va \<in> A. prefixes va) \<le> 2 * card A"
proof -
  assume A: "finite A"
  have two: "finite (prefixes va)" "card (prefixes va) \<le> 2" for va by (simp_all add: prefixes_def card_insert_if)
  have "missing m r (\<Union>va \<in> A. prefixes va) \<le> card (\<Union>va \<in> A. prefixes va)"
    unfolding missing_def using A two(1) by (intro card_mono) auto
  also have "\<dots> \<le> (\<Sum>va \<in> A. card (prefixes va))" by (rule card_UN_le [OF A])
  also have "\<dots> \<le> (\<Sum>va \<in> A. 2)" using two(2) by (intro sum_mono) simp
  finally show ?thesis by simp
qed

text \<open>Without looking at which tables exist, two pages for each page to be mapped are enough.\<close>

lemma map_page_ok:
  assumes good: "good r s" and perm: "perm AND PERM_V \<noteq> 0" and room: "2 \<le> room s"
  shows "\<exists>s'. map_page alloc r va pa perm s = Inr (True, s') \<and> extends r s s' 2
    \<and> (\<forall>va'. translate (mem s') r va' =
          (if vpns va' = vpns va then Some (leaf_entry pa perm) else translate (mem s) r va'))"
proof -
  have m: "missing (mem s) r (prefixes va) \<le> 2" using missing_prefixes [of "{va}" "mem s" r] by simp
  then show ?thesis
    using map_page_budget [OF good perm, of "prefixes va" va pa] room prefixes_path budget_extends [OF _ m]
    by (fastforce simp: prefixes_def)
qed

lemma map_pages_ok:
  assumes good: "good r s" and perm: "perm AND PERM_V \<noteq> 0" and room: "2 * n \<le> room s"
    and n: "unat sz \<le> 4096 * n" "4096 * n < unat sz + 4096" "n < 2 ^ 27"
  shows "\<exists>s'. map_pages alloc r va pa sz perm 0 s = Inr s' \<and> extends r s s' (2 * n)
    \<and> (\<forall>i < n. translate (mem s') r (va + of_nat (4096 * i)) = Some (leaf_entry (pa + of_nat (4096 * i)) perm))
    \<and> (\<forall>va'. (\<forall>i < n. vpns va' \<noteq> vpns (va + of_nat (4096 * i)))
          \<longrightarrow> translate (mem s') r va' = translate (mem s) r va')"
proof -
  define L where "L = (\<Union>a \<in> (\<lambda>i. va + of_nat (4096 * i)) ` {..< n}. prefixes a)"
  have "card ((\<lambda>i. va + of_nat (4096 * i)) ` {..< n}) \<le> n" using card_image_le [of "{..< n}"] by simp
  then have m: "missing (mem s) r L \<le> 2 * n"
    using missing_prefixes [of "(\<lambda>i. va + of_nat (4096 * i)) ` {..< n}" "mem s" r] by (simp add: L_def)
  have "finite L" "\<forall>l \<in> L. is_path l" "\<And>i. i < n \<Longrightarrow> prefixes (va + of_nat (4096 * i)) \<subseteq> L"
    using prefixes_path by (auto simp: L_def prefixes_def)
  then show ?thesis
    using map_pages_budget [OF good perm, of L n va sz 0 pa] m room n budget_extends [OF _ m] by auto
qed

end

end
