(* ===== verification/PageTable_Kalloc.thy ===== *)
theory PageTable_Kalloc
  imports PageTable_Correct Buddy_Correct
begin

text \<open>
  The kernel's page allocator provides the interface that the page-table code is proved from,
  and with it the guarantees of \<open>create_mapping\<close> hold for the code as it is composed.
\<close>

section \<open>The allocator's pages\<close>

definition page_va :: "nat \<Rightarrow> u64" where
  "page_va q = PA2VA (PFN2PHYS (of_nat q))"

definition page_pool :: "nat \<Rightarrow> u64 set" where
  "page_pool K = page_va ` {0 ..< 2 ^ min K 25}"

definition pages_in_use :: "nat \<Rightarrow> buddy \<Rightarrow> nat set" where
  "pages_in_use K b = (\<Union>x \<in> allocated K b. pages x)"

definition used_pages :: "nat \<Rightarrow> machine \<Rightarrow> u64 set" where
  "used_pages K s = page_va ` pages_in_use K (bud s)"

text \<open>
  Frame 0 holds the kernel image and is in use; at most \<open>2 ^ 25\<close> frames fit between the start of
  the direct map and the end of the address space.
\<close>

definition alloc_ok :: "nat \<Rightarrow> machine \<Rightarrow> bool" where
  "alloc_ok K s \<longleftrightarrow> K \<le> 25 \<and> mm_inv K (bud s) \<and> 0 \<in> pages_in_use K (bud s)"

lemma page_va_eq: "page_va q = of_nat (4096 * q) + VM_START"
proof -
  have "push_bit 12 (of_nat q :: u64) = of_nat (4096 * q)"
    by (simp add: push_bit_eq_mult)
  then show ?thesis by (simp add: page_va_def PA2VA_def PFN2PHYS_def PA2VA_OFFSET_def)
qed

lemma unat_page_va:
  assumes "q < 2 ^ 25"
  shows "unat (page_va q) = 0xffffffe000000000 + 4096 * q"
proof -
  have "unat (of_nat (4096 * q) :: u64) = 4096 * q" using assms by (intro unat_of_nat_small) simp
  then show ?thesis using assms unfolding page_va_eq by (simp add: layout unat_word_ariths del: of_nat_mult)
qed

lemma page_va_inj: "p < 2 ^ 25 \<Longrightarrow> q < 2 ^ 25 \<Longrightarrow> page_va p = page_va q \<longleftrightarrow> p = q"
  using unat_page_va [of p] unat_page_va [of q] by (auto simp: word_unat_eq_iff)

lemma page_va_page:
  assumes "q < 2 ^ 25"
  shows "page_aligned (page_va q)" "page_va q \<noteq> 0" "page_va q - PA2VA_OFFSET < 2 ^ 56"
proof -
  show "page_aligned (page_va q)" "page_va q \<noteq> 0"
    using unat_page_va [OF assms] by (auto simp: page_aligned_def word_unat_eq_iff)
  have "page_va q - PA2VA_OFFSET = of_nat (4096 * q) + PHY_START"
    by (simp add: page_va_eq PA2VA_OFFSET_def)
  moreover have "unat (of_nat (4096 * q) :: u64) = 4096 * q" using assms by (intro unat_of_nat_small) simp
  ultimately show "page_va q - PA2VA_OFFSET < 2 ^ 56"
    using assms by (simp add: word_less_nat_alt unat_word_ariths PHY_START_def del: of_nat_mult)
qed

lemma small_pow: "K \<le> 25 \<Longrightarrow> q < 2 ^ K \<Longrightarrow> q < (2::nat) ^ 25"
  by (erule order_less_le_trans) (use power_increasing [of K 25 "2::nat"] in simp)

lemma pages_in_use_bound:
  assumes "mm_inv K b" "q \<in> pages_in_use K b"
  shows "q < 2 ^ K"
proof -
  have bi: "buddy_inv K b" using assms(1) by (simp add: mm_inv_def)
  obtain x where x: "x \<in> allocated K b" "q \<in> pages x" using assms(2) by (auto simp: pages_in_use_def)
  have "pages x \<subseteq> {0 ..< 0 + 2 ^ K}"
    using blocks_bounds [OF buddy_inv_facts(4) [OF bi], of x 0] x(1) by (auto simp: allocated_def pages_def)
  with x(2) show ?thesis by auto
qed

section \<open>Allocating one page\<close>

lemma free_run_one:
  assumes "q < 2 ^ K"
  shows "free_run K b 0 q \<longleftrightarrow> q \<notin> pages_in_use K b"
  using assms by (auto simp: free_run_def pages_in_use_def)

lemma kalloc_success:
  assumes ok: "alloc_ok K s" and free: "q < 2 ^ K" "q \<notin> pages_in_use K (bud s)"
  shows "\<exists>p b. kalloc (bud s) = Inr (page_va p, b) \<and> p < 2 ^ K \<and> p \<notin> pages_in_use K (bud s)
    \<and> mm_inv K b \<and> pages_in_use K b = insert p (pages_in_use K (bud s))
    \<and> allocated K b = insert (p, 0) (allocated K (bud s)) \<and> ref_cnt b = (ref_cnt (bud s))[p := 1]"
proof -
  have K: "K \<le> 25" and inv: "mm_inv K (bud s)" and z: "0 \<in> pages_in_use K (bud s)"
    using ok by (simp_all add: alloc_ok_def)
  have "\<exists>x. free_run K (bud s) 0 x" using free free_run_one by blast
  then obtain pfn b where r: "buddy_alloc 1 (bud s) = Inr (pfn, b)" "free_run K (bud s) 0 (unat pfn)"
    "mm_inv K b" "allocated K b = insert (unat pfn, 0) (allocated K (bud s))"
    "ref_cnt b = (ref_cnt (bud s))[unat pfn := 1]"
    using buddy_alloc_success_aux [OF inv, of 1 0] by (auto simp: req_order_def)
  have p: "unat pfn < 2 ^ K" using r(2) by (auto simp: free_run_def)
  have nu: "unat pfn \<notin> pages_in_use K (bud s)" using r(2) free_run_one [OF p] by blast
  then have "unat pfn \<noteq> 0" using z by metis
  then have "pfn \<noteq> 0" by auto
  then have "kalloc (bud s) = Inr (page_va (unat pfn), b)"
    using r(1) by (simp add: kalloc_def alloc_page_def alloc_pages_def page_va_def)
  moreover have "pages_in_use K b = insert (unat pfn) (pages_in_use K (bud s))"
    using r(4) by (auto simp: pages_in_use_def pages_def)
  ultimately show ?thesis using p nu r(3-5) by blast
qed

lemma kalloc_full:
  assumes ok: "alloc_ok K s" and full: "\<And>q. q < 2 ^ K \<Longrightarrow> q \<in> pages_in_use K (bud s)"
  shows "kalloc (bud s) = Inr (0, bud s)"
proof -
  have inv: "mm_inv K (bud s)" using ok by (simp add: alloc_ok_def)
  have "\<nexists>x. free_run K (bud s) 0 x"
  proof
    assume "\<exists>x. free_run K (bud s) 0 x"
    then obtain x where x: "free_run K (bud s) 0 x" by blast
    then have "x < 2 ^ K" by (auto simp: free_run_def)
    with x full free_run_one show False by blast
  qed
  then have "buddy_alloc 1 (bud s) = Inr (0, bud s)"
    using buddy_alloc_refused_aux [OF inv, of 1 0] by (simp add: req_order_def)
  then show ?thesis by (simp add: kalloc_def alloc_page_def alloc_pages_def)
qed

lemma pool_member: "p \<in> page_pool K \<longleftrightarrow> (\<exists>q. q < 2 ^ min K 25 \<and> p = page_va q)"
  by (auto simp: page_pool_def)

interpretation kp: page_source kalloc_page "used_pages K" "alloc_ok K" "page_pool K" for K
proof
  fix s :: machine and m
  show "alloc_ok K (s\<lparr>mem := m\<rparr>) = alloc_ok K s" "used_pages K (s\<lparr>mem := m\<rparr>) = used_pages K s"
    by (simp_all add: alloc_ok_def used_pages_def)
  show "finite (page_pool K)" by (simp add: page_pool_def)
next
  fix p assume "p \<in> page_pool K"
  then obtain q where q: "q < 2 ^ min K 25" "p = page_va q" by (auto simp: pool_member)
  have "(2::nat) ^ min K 25 \<le> 2 ^ 25" by (intro power_increasing) simp_all
  with q show "page_aligned p \<and> p \<noteq> 0 \<and> p - PA2VA_OFFSET < 2 ^ 56"
    using page_va_page [of q] by simp
next
  fix s assume ok: "alloc_ok K s"
  then have K: "min K 25 = K" "K \<le> 25" and inv: "mm_inv K (bud s)" by (simp_all add: alloc_ok_def)
  show sub: "used_pages K s \<subseteq> page_pool K"
    using pages_in_use_bound [OF inv] K by (auto simp: used_pages_def page_pool_def)
  show "\<exists>p s'. kalloc_page s = Inr (p, s') \<and>
      (p = 0 \<and> s' = s \<and> page_pool K \<subseteq> used_pages K s \<or>
       p \<in> page_pool K - used_pages K s \<and> alloc_ok K s' \<and> mem s' = mem s \<and> used_pages K s' = insert p (used_pages K s))"
  proof (cases "\<exists>q < 2 ^ K. q \<notin> pages_in_use K (bud s)")
    case True
    then obtain p b where p: "kalloc (bud s) = Inr (page_va p, b)" "p < 2 ^ K"
      "p \<notin> pages_in_use K (bud s)" "mm_inv K b" "pages_in_use K b = insert p (pages_in_use K (bud s))"
      using kalloc_success [OF ok] by blast
    have "page_va p \<notin> used_pages K s"
      using p(2,3) pages_in_use_bound [OF inv] small_pow [OF K(2)] page_va_inj
      by (auto simp: used_pages_def)
    moreover have "page_va p \<in> page_pool K" using p(2) K by (auto simp: page_pool_def)
    ultimately show ?thesis
      using p ok by (auto simp: kalloc_page_def alloc_ok_def used_pages_def)
  next
    case False
    then have "kalloc_page s = Inr (0, s)"
      using kalloc_full [OF ok] by (simp add: kalloc_page_def)
    moreover have "page_pool K \<subseteq> used_pages K s"
      using False K by (auto simp: page_pool_def used_pages_def)
    ultimately show ?thesis by blast
  qed
qed

section \<open>Guarantees of create_mapping\<close>

text \<open>
  An address space with root \<open>r\<close>: its tables are distinct allocated pages, and free pages hold no
  valid entries (they are as zero as after reset; nothing in the kernel clears a page when it is
  allocated).
\<close>

definition address_space :: "nat \<Rightarrow> u64 \<Rightarrow> machine \<Rightarrow> bool" where
  "address_space K r s \<longleftrightarrow> alloc_ok K s \<and> wf_pt (mem s) r (used_pages K s)
     \<and> clean (page_pool K) (mem s) (used_pages K s)"

definition free_pages_left :: "nat \<Rightarrow> machine \<Rightarrow> nat" where
  "free_pages_left K s = card (page_pool K - used_pages K s)"

lemma address_space_good: "address_space K r s = kp.good K r s"
  by (simp add: address_space_def kp.good_def)

lemma free_pages_room: "free_pages_left K s = kp.room K s"
  by (simp add: free_pages_left_def kp.room_def)

text \<open>
  C11: \<open>create_mapping\<close> maps exactly the requested pages: every page of the range gets its entry,
  every other translation is unchanged, the address space stays well-formed, and only bytes of
  its own tables are written.
\<close>

theorem create_mapping_maps:
  assumes "address_space K r s" and "perm AND PERM_V \<noteq> 0"
    and "unat sz \<le> 4096 * n" and "4096 * n < unat sz + 4096" and "n < 2 ^ 27"
    and "2 * n \<le> free_pages_left K s"
  shows "\<exists>s'. create_mapping r va pa sz perm s = Inr s' \<and> address_space K r s'
    \<and> (\<forall>i < n. translate (mem s') r (va + of_nat (4096 * i)) = Some (leaf_entry (pa + of_nat (4096 * i)) perm))
    \<and> (\<forall>va'. (\<forall>i < n. vpns va' \<noteq> vpns (va + of_nat (4096 * i)))
         \<longrightarrow> translate (mem s') r va' = translate (mem s) r va')
    \<and> (\<forall>x. (\<forall>t \<in> tables (mem s') r. \<not> x - t < 4096) \<longrightarrow> mem s' x = mem s x)"
proof -
  obtain s' where s': "map_pages kalloc_page r va pa sz perm 0 s = Inr s'" "kp.extends K r s s' (2 * n)"
    "\<forall>i < n. translate (mem s') r (va + of_nat (4096 * i)) = Some (leaf_entry (pa + of_nat (4096 * i)) perm)"
    "\<forall>va'. (\<forall>i < n. vpns va' \<noteq> vpns (va + of_nat (4096 * i))) \<longrightarrow> translate (mem s') r va' = translate (mem s) r va'"
    using kp.map_pages_ok [of K r s perm n sz va pa] assms
    unfolding address_space_good free_pages_room by blast
  then have "kp.good K r s'" "\<forall>x. (\<forall>t \<in> tables (mem s') r. \<not> x - t < 4096) \<longrightarrow> mem s' x = mem s x"
    by (simp_all add: kp.extends_def)
  with s' show ?thesis
    unfolding address_space_good by (auto simp: create_mapping_def create_mapping_with_def)
qed

text \<open>
  C13: without a free page \<open>create_mapping\<close> returns early, and leaves in the root table an entry
  that is marked valid and leads to the null pointer: the table that was never allocated.
\<close>

theorem create_mapping_no_memory:
  assumes "address_space K r s" and "free_pages_left K s = 0" and "0 < sz"
    and "sub_table (mem s) r (vpn2 va) = None"
  shows "create_mapping r va pa sz perm s
      = Inr (s\<lparr>mem := wr64 (mem s) (slot r (vpn2 va)) (table_entry 0)\<rparr>)
    \<and> sub_table (wr64 (mem s) (slot r (vpn2 va)) (table_entry 0)) r (vpn2 va) = Some 0"
proof -
  have null: "entry_table (table_entry 0) = 0" by code_simp
  have ok: "alloc_ok K s" using assms(1) by (simp add: address_space_def)
  have "page_pool K - used_pages K s = {}"
    using assms(2) by (simp add: free_pages_left_def page_pool_def)
  then have "kalloc_page s = Inr (0, s)" using kp.alloc_page [OF ok] by auto
  then have "next_table kalloc_page (slot r (vpn2 va)) s
      = Inr (0, s\<lparr>mem := wr64 (mem s) (slot r (vpn2 va)) (table_entry 0)\<rparr>)"
    using assms(4) by (auto simp: next_table_def sub_table_def Let_def split: if_splits)
  then show ?thesis
    using assms(3) table_entry_valid [of 0] null
    by (simp add: create_mapping_def create_mapping_with_def map_pages.simps [of _ _ _ _ _ _ 0]
        map_page_def sub_table_def Let_def)
qed

end
