(* ===== verification/Vm_Correct.thy ===== *)
theory Vm_Correct
  imports Vm PageTable_Kalloc
begin

text \<open>
  Correctness of the memory areas and of the page-fault handler: lookup in the list of areas, the
  effect of \<open>do_mmap\<close>, and for a legal access the page the handler supplies: the copy of a shared
  page, or a fresh page with the bytes of the program image.
\<close>

section \<open>Lists of memory areas\<close>

text \<open>The areas \<open>ps\<close>, linked from \<open>p\<close>.\<close>

fun vma_list :: "vm_area_struct heap \<Rightarrow> u64 \<Rightarrow> u64 list \<Rightarrow> bool" where
  "vma_list h p [] \<longleftrightarrow> p = 0"
| "vma_list h p (q # qs) \<longleftrightarrow> p = q \<and> q \<noteq> 0 \<and> (\<exists>v. h q = Some v \<and> vma_list h (vm_next v) qs)"

definition covers :: "vm_area_struct heap \<Rightarrow> u64 \<Rightarrow> u64 \<Rightarrow> bool" where
  "covers h addr p \<longleftrightarrow> (case h p of None \<Rightarrow> False | Some v \<Rightarrow> vm_start v \<le> addr \<and> addr < vm_end v)"

definition first_cover :: "vm_area_struct heap \<Rightarrow> u64 \<Rightarrow> u64 list \<Rightarrow> u64" where
  "first_cover h addr ps = (case find (covers h addr) ps of None \<Rightarrow> 0 | Some p \<Rightarrow> p)"

lemma find_vma_from_list:
  "vma_list h p ps \<Longrightarrow> length ps \<le> n \<Longrightarrow> find_vma_from n h addr p = Inr (first_cover h addr ps)"
proof (induction ps arbitrary: p n)
  case (Cons q qs)
  then obtain v where v: "p = q" "q \<noteq> 0" "h q = Some v" "vma_list h (vm_next v) qs" by auto
  with Cons.prems(2) Cons.IH [OF v(4), of "n - 1"] show ?case
    by (subst find_vma_from.simps) (auto simp: first_cover_def covers_def)
qed (simp add: find_vma_from.simps first_cover_def)

lemma find_vma_list:
  assumes "vma_list h p ps" "length ps \<le> 2 ^ 64"
  shows "find_vma h p addr = Inr (first_cover h addr ps)"
  unfolding find_vma_def using assms by (rule find_vma_from_list)

text \<open>Only the links matter for the list; only the bounds matter for the lookup.\<close>

lemma vma_list_cong:
  assumes "\<And>q. q \<in> set ps \<Longrightarrow> map_option vm_next (h' q) = map_option vm_next (h q)"
  shows "vma_list h p ps \<Longrightarrow> vma_list h' p ps"
  using assms
proof (induction ps arbitrary: p)
  case (Cons q qs)
  then obtain v where v: "p = q" "q \<noteq> 0" "h q = Some v" "vma_list h (vm_next v) qs" by auto
  moreover obtain v' where "h' q = Some v'" "vm_next v' = vm_next v"
    using Cons.prems(2) [of q] v(3) by auto
  ultimately show ?case using Cons by auto
qed simp

lemma first_cover_cong:
  assumes "\<And>q. q \<in> set ps \<Longrightarrow> map_option (\<lambda>v. (vm_start v, vm_end v)) (h' q)
      = map_option (\<lambda>v. (vm_start v, vm_end v)) (h q)"
  shows "first_cover h' addr ps = first_cover h addr ps"
proof -
  have "covers h' addr q = covers h addr q" if "q \<in> set ps" for q
    using assms [OF that] by (auto simp: covers_def split: option.splits)
  then have "find (covers h' addr) ps = find (covers h addr) ps" by (intro find_cong refl)
  then show ?thesis by (simp add: first_cover_def)
qed

section \<open>do_mmap\<close>

text \<open>
  \<open>do_mmap\<close> puts the new area in front of the list: lookups inside it give the new area,
  lookups outside it what they gave before, and the other areas keep their bounds and links.
\<close>

lemma do_mmap_inserts:
  assumes "alloc_on k = Inr (cur, k1)" and "cur \<noteq> 0" and "t \<noteq> 0" and "task_at k t = Some tk"
    and "vma_list (vma_at k) (mmap tk) ps" and "cur \<notin> set ps" and "length ps < 2 ^ 64"
  shows "\<exists>k'. do_mmap t addr len pgoff filesz flags k = Inr (addr, k')
    \<and> task_at k' = (task_at k)(t \<mapsto> tk\<lparr>mmap := cur\<rparr>)
    \<and> vma_list (vma_at k') cur (cur # ps)
    \<and> (\<forall>a. find_vma (vma_at k') cur a
         = (if addr \<le> a \<and> a < addr + len then Inr cur else find_vma (vma_at k) (mmap tk) a))
    \<and> (\<exists>v. vma_at k' cur = Some v \<and> vm_flags v = flags \<and> vm_pgoff v = pgoff \<and> vm_filesz v = filesz
         \<and> vm_mm v = mm_of_task t)"
proof -
  have k1: "task_at k1 = task_at k" "vma_at k1 = vma_at k"
    using assms(1) by (auto simp: alloc_on_def with_machine_def)
  define v where "v = \<lparr>vm_mm = mm_of_task t, vm_start = addr, vm_end = addr + len, vm_next = mmap tk,
    vm_prev = 0, vm_flags = flags, vm_pgoff = pgoff, vm_filesz = filesz\<rparr>"
  define h1 where "h1 = (vma_at k)(cur \<mapsto> v)"
  define h2 where "h2 = (if mmap tk = 0 then h1
     else h1(mmap tk \<mapsto> (the (vma_at k (mmap tk)))\<lparr>vm_prev := cur\<rparr>))"
  have head: "\<exists>w. vma_at k (mmap tk) = Some w" "mmap tk \<noteq> cur" if "mmap tk \<noteq> 0"
    using assms(5,6) that by (cases ps; auto)+
  have run: "do_mmap t addr len pgoff filesz flags k
    = Inr (addr, k1\<lparr>vma_at := h2, task_at := (task_at k)(t \<mapsto> tk\<lparr>mmap := cur\<rparr>)\<rparr>)"
    using assms(1-4) head k1 by (auto simp: do_mmap_def Let_def h2_def h1_def v_def)
  have cur: "h2 cur = Some v" using head by (auto simp: h2_def h1_def)
  have same: "map_option (\<lambda>w. (vm_next w, vm_start w, vm_end w)) (h2 q)
      = map_option (\<lambda>w. (vm_next w, vm_start w, vm_end w)) (vma_at k q)" if "q \<noteq> cur" for q
    using that head by (auto simp: h2_def h1_def)
  have eqs: "map_option vm_next (h2 q) = map_option vm_next (vma_at k q)"
    "map_option (\<lambda>v. (vm_start v, vm_end v)) (h2 q) = map_option (\<lambda>v. (vm_start v, vm_end v)) (vma_at k q)"
    if "q \<in> set ps" for q
    using same [of q] that assms(6) by (cases "h2 q"; cases "vma_at k q"; auto)+
  have l: "vma_list h2 cur (cur # ps)"
    using vma_list_cong [OF eqs(1) assms(5)] cur assms(2) by (auto simp: v_def)
  have "find_vma h2 cur a = (if addr \<le> a \<and> a < addr + len then Inr cur else find_vma (vma_at k) (mmap tk) a)" for a
    using find_vma_list [OF l, of a] find_vma_list [OF assms(5), of a] assms(7)
      first_cover_cong [OF eqs(2), where addr = a] cur
    by (auto simp: first_cover_def covers_def v_def)
  then show ?thesis using run l cur by (simp add: v_def)
qed

section \<open>Pages\<close>

lemma vpns_round: "vpns (PGROUNDDOWN va) = vpns va"
proof -
  have "drop_bit n (PGROUNDDOWN va) = drop_bit n va" if "12 \<le> n" for n
    unfolding PGROUNDDOWN_def NOT_page_mask
    by (rule bit_word_eqI) (use that in \<open>auto simp: bit_simps dest: bit_imp_le_length\<close>)
  then show ?thesis by (simp add: vpns_def vpn0_def vpn1_def vpn2_def)
qed

lemma find_pte_cong: "vpns a = vpns b \<Longrightarrow> find_pte r a m = find_pte r b m"
  by (simp add: vpns_def find_pte_def Let_def)

lemma translate_cong: "vpns a = vpns b \<Longrightarrow> translate m r a = translate m r b"
  using find_pte_cong [of a b r m] by (simp add: translate_def)

lemma page_round: "page_aligned (PGROUNDDOWN va)" "PGROUNDDOWN va \<le> va" "va - PGROUNDDOWN va < 4096"
proof -
  have eq: "PGROUNDDOWN va = va - take_bit 12 va"
  proof -
    have "PGROUNDDOWN va = push_bit 12 (drop_bit 12 va)"
      unfolding PGROUNDDOWN_def NOT_page_mask by (rule bit_word_eqI) (auto simp: bit_simps)
    then have "PGROUNDDOWN va + take_bit 12 va = va" by (simp add: bits_ident)
    then show ?thesis by (metis add_diff_cancel)
  qed
  have tb: "unat (take_bit 12 va) = unat va mod 4096" by (simp add: take_bit_eq_mod unat_mod)
  then have le: "take_bit 12 va \<le> va" by (simp add: word_le_nat_alt)
  then have "unat (PGROUNDDOWN va) = unat va - unat va mod 4096"
    unfolding eq using tb by (simp add: unat_sub)
  then show "page_aligned (PGROUNDDOWN va)"
    unfolding page_aligned_def by (metis dvd_triv_left minus_mod_eq_mult_div)
  show "PGROUNDDOWN va \<le> va" unfolding eq using le by (rule word_sub_le)
  have "va - PGROUNDDOWN va = take_bit 12 va" by (simp add: eq)
  then show "va - PGROUNDDOWN va < 4096" using tb by (simp add: word_less_nat_alt)
qed

text \<open>Two pages are equal or apart, and so are their bytes.\<close>

lemma pages_apart:
  assumes "page_aligned p" "page_aligned q" "p \<noteq> q"
  shows "\<not> p - q < 4096"
proof -
  have "4096 dvd unat (p - q)"
  proof (cases "q \<le> p")
    case True
    then show ?thesis using assms by (simp add: unat_sub page_aligned_def word_le_nat_alt)
  next
    case False
    then have "unat (p - q) = 2 ^ 64 - (unat q - unat p)"
      using unat_diff_swap [of q p] assms(3) by (simp add: unat_sub word_le_nat_alt)
    then show ?thesis using assms(1,2) by (simp add: page_aligned_def)
  qed
  moreover have "0 < unat (p - q)" using assms(3) by (simp add: unat_gt_0)
  ultimately show ?thesis by (auto simp: word_less_nat_alt dest: dvd_imp_le)
qed

lemma unat_in_page:
  assumes "page_aligned p" "x - p < 4096"
  shows "unat x = unat p + unat (x - p)"
proof -
  have "unat p < 2 ^ 64" by (rule order_less_le_trans [OF unsigned_less]) simp
  moreover obtain q where "unat p = 4096 * q" using assms(1) by (auto simp: page_aligned_def)
  ultimately have "unat p + unat (x - p) < 2 ^ 64" using assms(2) by (simp add: word_less_nat_alt)
  then show ?thesis using unat_word_ariths(1) [of p "x - p"] by simp
qed

lemma page_bytes_apart:
  assumes "page_aligned p" "page_aligned q" "p \<noteq> q" "x - p < 4096"
  shows "\<not> x - q < 4096"
proof
  assume xq: "x - q < 4096"
  obtain i j where ij: "unat p = 4096 * i" "unat q = 4096 * j"
    using assms(1,2) by (metis dvdE page_aligned_def)
  have "unat (x - p) < 4096" "unat (x - q) < 4096" using assms(4) xq by (simp_all add: word_less_nat_alt)
  then have "unat x div 4096 = i" "unat x div 4096 = j"
    using unat_in_page [OF assms(1,4)] unat_in_page [OF assms(2) xq] ij by simp_all
  then have "unat p = unat q" using ij by simp
  with assms(3) show False by (simp add: word_unat_eq_iff)
qed

lemma rd64_page_frame:
  assumes "i < 512" "\<And>x. x - t < 4096 \<Longrightarrow> m' x = m x"
  shows "rd64 m' (slot t i) = rd64 m (slot t i)"
proof -
  have "m' (slot t i + of_nat j) = m (slot t i + of_nat j)" if "j < 8" for j
  proof (rule assms(2))
    have eq: "slot t i + of_nat j - t = 8 * i + of_nat j" by (simp add: slot_def)
    have "unat i < 512" using assms(1) by (simp add: word_less_nat_alt)
    moreover have "unat (of_nat j :: u64) = j" using that by (intro unat_of_nat_small) simp
    ultimately show "slot t i + of_nat j - t < 4096"
      unfolding eq using that by (simp add: word_less_nat_alt unat_word_ariths)
  qed
  then show ?thesis unfolding rd64_def by (metis load_cong)
qed

text \<open>Copying a page leaves every other page as it is.\<close>

lemma copy_page:
  assumes "page_aligned d" "page_aligned s" "d \<noteq> s"
  shows "x - d < 4096 \<Longrightarrow> memcpy d s PGSIZE m x = m (s + (x - d))"
    and "\<not> x - d < 4096 \<Longrightarrow> memcpy d s PGSIZE m x = m x"
proof -
  have "memcpy d s PGSIZE m = copied d s PGSIZE m"
    using pages_apart [OF assms] by (intro memcpy_eq) (simp add: PGSIZE_def)
  then show "x - d < 4096 \<Longrightarrow> memcpy d s PGSIZE m x = m (s + (x - d))"
    and "\<not> x - d < 4096 \<Longrightarrow> memcpy d s PGSIZE m x = m x"
    by (simp_all add: copied_def PGSIZE_def)
qed

lemma machine_of_simps [simp]:
  "bud (machine_of k) = bud k" "mem (machine_of k) = mem k"
  "machine_of (with_machine s k) = s"
  by (simp_all add: machine_of_def with_machine_def)

lemma alloc_on_fresh:
  assumes ok: "alloc_ok K (machine_of k)" and left: "0 < free_pages_left K (machine_of k)"
  shows "\<exists>q b. alloc_on k = Inr (page_va q, k\<lparr>bud := b\<rparr>) \<and> q < 2 ^ K \<and> q \<notin> pages_in_use K (bud k)
    \<and> mm_inv K b \<and> pages_in_use K b = insert q (pages_in_use K (bud k))
    \<and> allocated K b = insert (q, 0) (allocated K (bud k)) \<and> ref_cnt b = (ref_cnt (bud k))[q := 1]"
proof -
  have "page_pool K - used_pages K (machine_of k) \<noteq> {}" using left by (metis card.empty free_pages_left_def less_numeral_extra(3))
  then obtain p where "p \<in> page_pool K" "p \<notin> used_pages K (machine_of k)" by blast
  then obtain q where q: "q < 2 ^ min K 25" "page_va q \<notin> used_pages K (machine_of k)"
    by (auto simp: pool_member)
  then have "q < 2 ^ K" "q \<notin> pages_in_use K (bud k)"
    using ok by (auto simp: alloc_ok_def used_pages_def)
  then obtain p b where p: "kalloc (bud k) = Inr (page_va p, b)" "p < 2 ^ K \<and> p \<notin> pages_in_use K (bud k)
    \<and> mm_inv K b \<and> pages_in_use K b = insert p (pages_in_use K (bud k))
    \<and> allocated K b = insert (p, 0) (allocated K (bud k)) \<and> ref_cnt b = (ref_cnt (bud k))[p := 1]"
    using kalloc_success [OF ok] unfolding machine_of_simps by blast
  have "alloc_on k = Inr (page_va p, k\<lparr>bud := b\<rparr>)"
    using p(1) by (simp add: alloc_on_def kalloc_page_def with_machine_def)
  with p(2) show ?thesis by blast
qed

section \<open>Copy on write\<close>

lemma put_page_ok:
  assumes "mm_inv K b" "K \<le> 25" "(q, n) \<in> allocated K b"
  shows "\<exists>b'. put_page (page_va q) b = Inr b' \<and> mm_inv K b' \<and> ref_cnt b' = (ref_cnt b)[q := ref_cnt b ! q - 1]
    \<and> allocated K b' = (if ref_cnt b ! q = 1 then allocated K b - {(q, n)} else allocated K b)"
proof -
  have bi: "buddy_inv K b" using assms(1) by (simp add: mm_inv_def)
  have "q < 2 ^ K" by (rule allocated_bound [OF bi assms(3)])
  then have "PHYS2PFN (VA2PA (page_va q)) = of_nat q"
    unfolding page_va_def VA2PA_PA2VA by (rule pfn_roundtrip [OF bi])
  then show ?thesis
    using page_ref_dec_effect_aux [OF assms(1,3)] by (simp add: put_page_def)
qed

definition cow_entry :: "u64 \<Rightarrow> bool" where
  "cow_entry e \<longleftrightarrow> e AND PERM_V \<noteq> 0 \<and> e AND PERM_W = 0"

text \<open>The situation of a legal write to a page that is mapped without write permission.\<close>

definition cow_situation ::
  "nat \<Rightarrow> u64 \<Rightarrow> u64 \<Rightarrow> vm_area_struct \<Rightarrow> nat \<Rightarrow> nat \<Rightarrow> 'a kernel_scheme \<Rightarrow> bool" where
  "cow_situation K r p vma q n k \<longleftrightarrow>
     alloc_ok K (machine_of k) \<and> wf_pt (mem k) r (used_pages K (machine_of k))
     \<and> (\<exists>cur. current k \<noteq> 0 \<and> task_at k (current k) = Some cur \<and> pgd cur + PA2VA_OFFSET = r
          \<and> find_vma (vma_at k) (mmap cur) (stval k) = Inr p)
     \<and> p \<noteq> 0 \<and> vma_at k p = Some vma \<and> vm_flags vma AND VM_WRITE \<noteq> 0
     \<and> scause k AND 0x7FFFFFFF = SUPERVISOR_STORE_PAGE_FAULT
     \<and> (\<exists>e. translate (mem k) r (stval k) = Some e \<and> e AND PERM_W = 0 \<and> entry_table e = page_va q)
     \<and> (q, n) \<in> allocated K (bud k) \<and> page_va q \<notin> tables (mem k) r
     \<and> 0 < free_pages_left K (machine_of k)"

lemma perm_values: "fault_perm vma AND PERM_V \<noteq> 0"
proof -
  have "bit PERM_V 0" by (simp add: PERM_V_def)
  then show ?thesis by (simp only: fault_perm_def valid_bit bit_simps) simp
qed

lemma cow_fault_aux:
  assumes sit: "cow_situation K r p vma q n k"
  shows "\<exists>k' page. do_page_fault rdisk k = Inr k' \<and> page \<in> page_pool K - used_pages K (machine_of k)
    \<and> translate (mem k') r (stval k) = Some (leaf_entry (page - PA2VA_OFFSET) (fault_perm vma))
    \<and> (\<forall>va. vpns va \<noteq> vpns (stval k) \<longrightarrow> translate (mem k') r va = translate (mem k) r va)
    \<and> (\<forall>i < 4096. mem k' (page + i) = mem k (page_va q + i))
    \<and> (\<exists>t. table_at (mem k) r [vpn2 (stval k), vpn1 (stval k)] = Some t
         \<and> (\<forall>x. \<not> x - page < 4096 \<and> \<not> x - t < 4096 \<longrightarrow> mem k' x = mem k x))
    \<and> mm_inv K (bud k') \<and> ref_cnt (bud k') ! q = ref_cnt (bud k) ! q - 1"
proof -
  define U where "U = used_pages K (machine_of k)"
  have ok: "alloc_ok K (machine_of k)" and wf: "wf_pt (mem k) r U"
    using sit by (simp_all add: cow_situation_def U_def)
  then have K: "K \<le> 25" and inv: "mm_inv K (bud k)" by (simp_all add: alloc_ok_def)
  have U: "\<forall>p \<in> U. page_aligned p \<and> p \<noteq> 0" using kp.used_page [OF ok] by (simp add: U_def)
  obtain cur where cur: "current k \<noteq> 0" "task_at k (current k) = Some cur" "pgd cur + PA2VA_OFFSET = r"
    "find_vma (vma_at k) (mmap cur) (stval k) = Inr p"
    using sit by (auto simp: cow_situation_def)
  obtain e where e: "translate (mem k) r (stval k) = Some e" "e AND PERM_W = 0" "entry_table e = page_va q"
    using sit by (auto simp: cow_situation_def)
  have vma: "p \<noteq> 0" "vma_at k p = Some vma" "vm_flags vma AND VM_WRITE \<noteq> 0"
    "scause k AND 0x7FFFFFFF = SUPERVISOR_STORE_PAGE_FAULT"
    and q: "(q, n) \<in> allocated K (bud k)" "page_va q \<notin> tables (mem k) r"
    and left: "0 < free_pages_left K (machine_of k)"
    using sit by (simp_all add: cow_situation_def)
  define va where "va = PGROUNDDOWN (stval k)"
  have vv: "vpns va = vpns (stval k)" by (simp add: va_def vpns_round)
  define pte where "pte = find_pte r va (mem k)"
  have pte: "pte \<noteq> 0" "rd64 (mem k) pte = e" "e AND PERM_V \<noteq> 0"
    using e(1) find_pte_cong [OF vv, of r "mem k"]
    by (auto simp: translate_def Let_def pte_def split: if_splits)
  have check: "check_access r (stval k) vma SUPERVISOR_STORE_PAGE_FAULT (mem k) = Inr (True, pte)"
    using vma(3) pte e(2) by (simp add: check_access_def SUPERVISOR_STORE_PAGE_FAULT_def
        SUPERVISOR_INST_PAGE_FAULT_def pte_def va_def Let_def)
  obtain f b where f: "alloc_on k = Inr (page_va f, k\<lparr>bud := b\<rparr>)" "f < 2 ^ K" "f \<notin> pages_in_use K (bud k)"
    "mm_inv K b" "allocated K b = insert (f, 0) (allocated K (bud k))" "ref_cnt b = (ref_cnt (bud k))[f := 1]"
    using alloc_on_fresh [OF ok left] by blast
  define page where "page = page_va f"
  have fs: "f < 2 ^ 25" using small_pow [OF K f(2)] .
  have page: "page_aligned page" "page \<noteq> 0" using page_va_page [OF fs] by (simp_all add: page_def)
  have q_use: "q \<in> pages_in_use K (bud k)" using q(1) by (force simp: pages_in_use_def pages_def)
  then have qs: "q < 2 ^ 25" "q \<noteq> f" using pages_in_use_bound [OF inv] small_pow [OF K] f(3) by auto
  have src: "page_aligned (page_va q)" "page \<noteq> page_va q"
    using page_va_page [OF qs(1)] page_va_inj [OF fs qs(1)] qs(2) by (auto simp: page_def)
  have fresh: "page \<in> page_pool K - U"
    using f(2,3) K pages_in_use_bound [OF inv] small_pow [OF K] page_va_inj fs
    by (auto simp: page_pool_def U_def used_pages_def page_def)
  have notab: "page \<notin> tables (mem k) r" using fresh wf_ptD(1) [OF wf] by (auto simp: tables_def)
  define m1 where "m1 = memcpy page (page_va q) PGSIZE (mem k)"
  have tabs: "page_aligned t \<and> t \<noteq> page" if "t \<in> tables (mem k) r" for t
    using that wf_ptD(1) [OF wf] U notab by (auto simp: tables_def)
  have same: "\<forall>t \<in> tables (mem k) r. \<forall>i < 512. rd64 m1 (slot t i) = rd64 (mem k) (slot t i)"
  proof (intro ballI allI impI)
    fix t i assume t: "t \<in> tables (mem k) r" and i: "(i :: u64) < 512"
    show "rd64 m1 (slot t i) = rd64 (mem k) (slot t i)"
      using copy_page(2) [OF page(1) src] page_bytes_apart [of t page] tabs [OF t] page(1) i
      by (intro rd64_page_frame) (auto simp: m1_def)
  qed
  note s1 = same_entries [OF wf U same]
  obtain b' where b': "put_page (page_va q) b = Inr b'" "mm_inv K b'"
    "ref_cnt b' = (ref_cnt b)[q := ref_cnt b ! q - 1]"
    using put_page_ok [OF f(4) K, of q n] q(1) f(5) by auto
  obtain t where t: "table_at m1 r [vpn2 va, vpn1 va] = Some t"
  proof -
    have "translate m1 r va = Some e" using s1(3) e(1) translate_cong [OF vv] by simp
    then show thesis using that translate_eq [OF s1(2) U, of va] by (auto split: option.splits simp del: table_at.simps)
  qed
  define v where "v = leaf_entry (page - PA2VA_OFFSET) (fault_perm vma)"
  have vok: "v AND PERM_V \<noteq> 0" unfolding v_def by (rule leaf_entry_valid [OF perm_values])
  note w = translate_leaf_write [OF s1(2) U t, where v = v]
  define k' where "k' = k\<lparr>bud := b', mem := wr64 m1 (slot t (vpn0 va)) v\<rparr>"
  have map: "map_page kalloc_page r va (page - PA2VA_OFFSET) (fault_perm vma) \<lparr>bud = b', mem = m1\<rparr>
      = Inr (True, \<lparr>bud = b', mem = wr64 m1 (slot t (vpn0 va)) v\<rparr>)"
    using map_page_existing [of "\<lparr>bud = b', mem = m1\<rparr>" r U va t] s1(2) U t by (simp add: v_def)
  have "cow_fault r (stval k) vma pte page (k\<lparr>bud := b\<rparr>) = Inr k'"
    unfolding cow_fault_def create_mapping_def on_machine_def create_mapping_one
    using page(2) pte(2) e(3) b'(1) map
    by (simp add: copy_to_page_def put_page_on_def Let_def va_def [symmetric] machine_of_def with_machine_def
        k'_def m1_def)
  then have run: "do_page_fault rdisk k = Inr k'"
    using cur vma check f(1) by (simp add: do_page_fault_def Let_def page_def)
  have l0: "is_path [vpn2 va, vpn1 va]" by (simp add: is_path_def)
  have tt: "t \<in> tables (mem k) r"
    using t s1(1) [OF l0] l0 unfolding tables_def by auto
  have frame: "mem k' x = m1 x" if "\<not> x - t < 4096" for x
    using wr_slot_frame [OF vpn_less(1) that] by (simp add: k'_def)
  have "mem k' (page + i) = mem k (page_va q + i)" if "i < 4096" for i
  proof -
    have "\<not> page + i - t < 4096"
      using page_bytes_apart [OF page(1), of t "page + i"] tabs [OF tt] that by auto
    then show ?thesis using frame copy_page(1) [OF page(1) src, of "page + i"] that by (simp add: m1_def)
  qed
  moreover have "table_at (mem k) r [vpn2 (stval k), vpn1 (stval k)] = Some t"
    using t s1(1) [OF l0] vv by (simp add: vpns_def del: table_at.simps)
  moreover have "mem k' x = mem k x" if "\<not> x - page < 4096" "\<not> x - t < 4096" for x
    using frame that copy_page(2) [OF page(1) src] by (simp add: m1_def)
  moreover have "translate (mem k') r a = (if vpns a = vpns va then Some v else translate (mem k) r a)" for a
    using w(3) s1(3) vok by (simp add: k'_def)
  moreover have "ref_cnt (bud k') ! q = ref_cnt (bud k) ! q - 1"
  proof -
    have "q < 2 ^ K" using pages_in_use_bound [OF inv q_use] .
    moreover have "length (ref_cnt (bud k)) = 2 ^ K" using inv by (simp add: mm_inv_def buddy_inv_def)
    ultimately show ?thesis using b'(3) f(6) qs(2) by (simp add: k'_def)
  qed
  ultimately show ?thesis
    using run fresh b'(2) vv unfolding U_def v_def
    by (intro exI [of _ k'] exI [of _ page]) (simp add: k'_def del: table_at.simps)
qed

text \<open>
  C14: a write to a page that is shared copy-on-write gets a fresh page with the same contents,
  mapped with the permissions of the area; the other translations and all other memory outside
  the page tables are untouched, and the shared page loses one reference.
\<close>

theorem cow_fault_copies:
  assumes "cow_situation K r p vma q n k"
  shows "\<exists>k' page. do_page_fault rdisk k = Inr k' \<and> page \<in> page_pool K - used_pages K (machine_of k)
    \<and> translate (mem k') r (stval k) = Some (leaf_entry (page - PA2VA_OFFSET) (fault_perm vma))
    \<and> (\<forall>va. vpns va \<noteq> vpns (stval k) \<longrightarrow> translate (mem k') r va = translate (mem k) r va)
    \<and> (\<forall>i < 4096. mem k' (page + i) = mem k (page_va q + i))
    \<and> (\<forall>x. \<not> x - page < 4096 \<and> (\<forall>t \<in> tables (mem k) r. \<not> x - t < 4096) \<longrightarrow> mem k' x = mem k x)
    \<and> mm_inv K (bud k') \<and> ref_cnt (bud k') ! q = ref_cnt (bud k) ! q - 1"
proof -
  have "t \<in> tables (mem k) r" if "table_at (mem k) r [vpn2 (stval k), vpn1 (stval k)] = Some t" for t
    using that unfolding tables_def
    by (intro CollectI exI [of _ "[vpn2 (stval k), vpn1 (stval k)]"]) (simp add: is_path_def del: table_at.simps)
  then show ?thesis using cow_fault_aux [OF assms, of rdisk] by metis
qed

section \<open>Demand paging\<close>

lemma find_vma_from_covers:
  "find_vma_from n h addr p = Inr q \<Longrightarrow> q \<noteq> 0 \<Longrightarrow> covers h addr q"
proof (induction n h addr p rule: find_vma_from.induct)
  case (1 n h addr p)
  show ?case
  proof (cases "p = 0 \<or> n = 0")
    case True
    then show ?thesis using "1.prems" by (auto simp: find_vma_from.simps split: if_splits)
  next
    case False
    then obtain v where v: "deref h p = Inr v"
      "(if vm_start v \<le> addr \<and> addr < vm_end v then Inr p else find_vma_from (n - 1) h addr (vm_next v)) = Inr q"
      using "1.prems"(1) by (subst (asm) find_vma_from.simps) auto
    show ?thesis
    proof (cases "vm_start v \<le> addr \<and> addr < vm_end v")
      case True
      then show ?thesis using v by (auto simp: covers_def elim!: deref_InrE)
    next
      case out: False
      have "find_vma_from (n - 1) h addr (vm_next v) = Inr q" using v(2) unfolding if_not_P [OF out] .
      then show ?thesis using "1.IH" [OF _ _ v(1) out] False "1.prems"(2) by blast
    qed
  qed
qed

lemma find_vma_covers:
  assumes "find_vma h p addr = Inr q" "q \<noteq> 0" "h q = Some v"
  shows "vm_start v \<le> addr" "addr < vm_end v"
  using find_vma_from_covers [of _ h addr p q] assms by (auto simp: find_vma_def covers_def)

lemma unat_round: "unat (PGROUNDDOWN va) = unat va - unat va mod 4096"
proof -
  have "unat va = unat (PGROUNDDOWN va) + unat (va - PGROUNDDOWN va)"
    by (rule unat_in_page [OF page_round(1,3)])
  moreover have "unat (va - PGROUNDDOWN va) < 4096" using page_round(3) by (simp add: word_less_nat_alt)
  moreover obtain j where "unat (PGROUNDDOWN va) = 4096 * j"
    using page_round(1) by (auto simp: page_aligned_def)
  ultimately show ?thesis by simp
qed

lemma page_end:
  assumes "unat a < 2 ^ 63"
  shows "unat (PGROUNDUP (a + 1)) = unat (PGROUNDDOWN a) + 4096"
proof -
  have "PGROUNDUP (a + 1) = PGROUNDDOWN (a + 4096)" by (simp add: PGROUNDUP_def PGROUNDDOWN_def PGSIZE_def add.commute)
  moreover have "unat (a + 4096) = unat a + 4096" using assms by (simp add: unat_word_ariths)
  ultimately show ?thesis using unat_round [of "a + 4096"] unat_round [of a] by simp
qed

text \<open>The bytes of the page that lie in the area, as the copy sees them.\<close>

lemma fill_range:
  fixes a vs ve i :: u64
  defines "ps \<equiv> PGROUNDDOWN a" and "pe \<equiv> PGROUNDUP (a + 1)"
  assumes a: "vs \<le> a" "a < ve" "unat a < 2 ^ 63"
  shows "max ps vs - ps < 4096"
    and "unat (max ps vs - vs) + unat (min pe ve - max ps vs) \<le> unat (ve - vs)"
    and "unat (max ps vs - ps) + unat (min pe ve - max ps vs) \<le> 4096"
    and "i < 4096 \<Longrightarrow> i - (max ps vs - ps) < min pe ve - max ps vs \<longleftrightarrow> vs \<le> ps + i \<and> ps + i < ve"
proof -
  define A S E M N where "A = unat ps" and "S = unat vs" and "E = unat ve"
    and "M = max A S" and "N = min (A + 4096) E"
  have e: "unat pe = A + 4096" unfolding pe_def A_def ps_def by (rule page_end [OF a(3)])
  have aA: "A \<le> unat a" "unat a < A + 4096"
    using unat_round [of a] mod_less_divisor [of 4096 "unat a"] by (simp_all add: A_def ps_def)
  have mx: "unat (max ps vs) = M" by (simp add: M_def A_def S_def max_def word_le_nat_alt)
  have mn: "unat (min pe ve) = N" using e by (simp add: N_def A_def E_def min_def word_le_nat_alt)
  have SE: "S \<le> unat a" "unat a < E" using a by (simp_all add: S_def E_def word_le_nat_alt word_less_nat_alt)
  have o: "unat (max ps vs - ps) = M - A" "unat (max ps vs - vs) = M - S"
    using mx by (simp_all add: unat_sub word_le_nat_alt A_def S_def M_def)
  have n: "unat (min pe ve - max ps vs) = N - M"
    using mx mn aA SE by (subst unat_sub) (simp_all add: word_le_nat_alt M_def N_def)
  show "max ps vs - ps < 4096" using o aA SE by (simp add: word_less_nat_alt M_def)
  have "unat (ve - vs) = E - S" using a by (simp add: unat_sub E_def S_def word_le_nat_alt word_less_nat_alt)
  then show "unat (max ps vs - vs) + unat (min pe ve - max ps vs) \<le> unat (ve - vs)"
    unfolding o n using aA SE by (simp add: M_def N_def)
  show "unat (max ps vs - ps) + unat (min pe ve - max ps vs) \<le> 4096"
    unfolding o n using aA SE by (simp add: M_def N_def)
  assume i: "i < 4096"
  define I where "I = unat i"
  have I: "I < 4096" using i by (simp add: I_def word_less_nat_alt)
  have psi: "unat (ps + i) = A + I"
    using I aA a(3) by (simp add: unat_word_ariths A_def I_def)
  show "i - (max ps vs - ps) < min pe ve - max ps vs \<longleftrightarrow> vs \<le> ps + i \<and> ps + i < ve"
  proof (cases "max ps vs - ps \<le> i")
    case True
    then have "unat (i - (max ps vs - ps)) = I - (M - A)" "M - A \<le> I"
      using o(1) by (simp_all add: unat_sub I_def word_le_nat_alt)
    then show ?thesis
      unfolding word_less_nat_alt word_le_nat_alt psi n S_def [symmetric] E_def [symmetric]
      using aA SE I by (auto simp: M_def N_def max_def min_def split: if_splits)
  next
    case False
    then have lt: "I < M - A" using o(1) by (simp add: I_def word_le_nat_alt)
    have "max ps vs - ps \<noteq> i" using False by auto
    then have "unat (i - (max ps vs - ps)) = 2 ^ 64 - (M - A - I)"
      using unat_diff_swap [of "max ps vs - ps" i] False o(1) by (simp add: unat_sub I_def)
    moreover have "M - A - I < 4096" "N - M < 2 ^ 62"
      using aA SE a(3) by (simp_all add: M_def N_def)
    ultimately have "\<not> i - (max ps vs - ps) < min pe ve - max ps vs"
      by (simp add: word_less_nat_alt n)
    moreover have "\<not> vs \<le> ps + i"
      using lt by (simp add: word_le_nat_alt psi S_def [symmetric] M_def max_def split: if_splits)
    ultimately show ?thesis by simp
  qed
qed

definition access_allowed :: "vm_area_struct \<Rightarrow> u64 \<Rightarrow> bool" where
  "access_allowed vma code \<longleftrightarrow>
     code = SUPERVISOR_INST_PAGE_FAULT \<and> vm_flags vma AND VM_EXEC \<noteq> 0
     \<or> code = SUPERVISOR_LOAD_PAGE_FAULT \<and> vm_flags vma AND VM_READ \<noteq> 0
     \<or> code = SUPERVISOR_STORE_PAGE_FAULT \<and> vm_flags vma AND VM_WRITE \<noteq> 0"

text \<open>The running task and the memory area of a faulting access.\<close>

definition fault_area :: "u64 \<Rightarrow> u64 \<Rightarrow> vm_area_struct \<Rightarrow> 'a kernel_scheme \<Rightarrow> bool" where
  "fault_area r p vma k \<longleftrightarrow>
     (\<exists>cur. current k \<noteq> 0 \<and> task_at k (current k) = Some cur \<and> pgd cur + PA2VA_OFFSET = r
          \<and> find_vma (vma_at k) (mmap cur) (stval k) = Inr p)
     \<and> p \<noteq> 0 \<and> vma_at k p = Some vma"

text \<open>
  The situation of a legal access to a page that is not mapped yet. The bytes of the program
  image lie outside the free pages.
\<close>

definition demand_situation ::
  "nat \<Rightarrow> u64 \<Rightarrow> u64 \<Rightarrow> u64 \<Rightarrow> vm_area_struct \<Rightarrow> 'a kernel_scheme \<Rightarrow> bool" where
  "demand_situation K rdisk r p vma k \<longleftrightarrow>
     address_space K r (machine_of k) \<and> fault_area r p vma k
     \<and> access_allowed vma (scause k AND 0x7FFFFFFF)
     \<and> translate (mem k) r (stval k) = None \<and> unat (stval k) < 2 ^ 63
     \<and> 3 \<le> free_pages_left K (machine_of k)
     \<and> (\<forall>j < vm_end vma - vm_start vma. \<forall>f \<in> page_pool K - used_pages K (machine_of k).
          \<not> rdisk + vm_pgoff vma + j - f < 4096)"

lemma check_demand:
  assumes "access_allowed vma code" "translate m r a = None"
  shows "\<exists>pte. check_access r a vma code m = Inr (False, pte)"
proof -
  have "\<not> (find_pte r (PGROUNDDOWN a) m \<noteq> 0 \<and> rd64 m (find_pte r (PGROUNDDOWN a) m) AND PERM_V \<noteq> 0)"
    using assms(2) find_pte_cong [OF vpns_round, of r a m] by (auto simp: translate_def Let_def split: if_splits)
  then show ?thesis
    using assms(1) by (auto simp: check_access_def access_allowed_def Let_def SUPERVISOR_INST_PAGE_FAULT_def
        SUPERVISOR_LOAD_PAGE_FAULT_def SUPERVISOR_STORE_PAGE_FAULT_def)
qed

text \<open>Taking a free page keeps the address space, and so does filling it.\<close>

lemma address_space_take:
  assumes sp: "address_space K r s" and b: "mm_inv K b" "f < 2 ^ K" "f \<notin> pages_in_use K (bud s)"
    "pages_in_use K b = insert f (pages_in_use K (bud s))"
  shows "address_space K r (s\<lparr>bud := b\<rparr>)" "page_va f \<in> page_pool K - used_pages K s"
    "used_pages K (s\<lparr>bud := b\<rparr>) = insert (page_va f) (used_pages K s)"
    "Suc (free_pages_left K (s\<lparr>bud := b\<rparr>)) = free_pages_left K s"
proof -
  have ok: "alloc_ok K s" using sp by (simp add: address_space_def)
  then have K: "K \<le> 25" and inv: "mm_inv K (bud s)" by (simp_all add: alloc_ok_def)
  show used: "used_pages K (s\<lparr>bud := b\<rparr>) = insert (page_va f) (used_pages K s)"
    using b(4) by (simp add: used_pages_def)
  show mem: "page_va f \<in> page_pool K - used_pages K s"
    using b(2,3) K pages_in_use_bound [OF inv] small_pow [OF K] page_va_inj
    by (auto simp: page_pool_def used_pages_def)
  show "address_space K r (s\<lparr>bud := b\<rparr>)"
    using sp b used by (auto simp: address_space_def alloc_ok_def wf_pt_def clean_def)
  show "Suc (free_pages_left K (s\<lparr>bud := b\<rparr>)) = free_pages_left K s"
    unfolding free_pages_room using kp.room_insert [OF mem used] .
qed

lemma address_space_fill:
  assumes sp: "address_space K r s" and pg: "page \<in> used_pages K s" "page \<notin> tables (mem s) r"
    and frame: "\<And>x. \<not> x - page < 4096 \<Longrightarrow> m x = mem s x"
  shows "address_space K r (s\<lparr>mem := m\<rparr>)" "translate m r va = translate (mem s) r va"
    "tables m r = tables (mem s) r"
proof -
  have ok: "alloc_ok K s" and wf: "wf_pt (mem s) r (used_pages K s)"
    using sp by (simp_all add: address_space_def)
  note U = kp.used_page [OF ok]
  have other: "rd64 m (slot t i) = rd64 (mem s) (slot t i)" if "page_aligned t" "t \<noteq> page" "i < 512" for t i
    using that page_bytes_apart [of t page] U pg(1) frame by (intro rd64_page_frame) auto
  have same: "\<forall>t \<in> tables (mem s) r. \<forall>i < 512. rd64 m (slot t i) = rd64 (mem s) (slot t i)"
  proof (intro ballI allI impI)
    fix t i assume t: "t \<in> tables (mem s) r" and i: "(i :: u64) < 512"
    have "page_aligned t" using t wf_ptD(1) [OF wf] U by (auto simp: tables_def)
    then show "rd64 m (slot t i) = rd64 (mem s) (slot t i)" using other t i pg(2) by auto
  qed
  note e = same_entries [OF wf U same]
  have "clean (page_pool K) m (used_pages K s)"
    unfolding clean_def
  proof (intro ballI allI impI)
    fix p i assume p: "p \<in> page_pool K - used_pages K s" and i: "(i :: u64) < 512"
    have "rd64 m (slot p i) = rd64 (mem s) (slot p i)"
      using p i pg(1) kp.pool_page by (intro other) auto
    then show "sub_table m p i = None" using sp p i by (simp add: address_space_def clean_def sub_table_def)
  qed
  then show "address_space K r (s\<lparr>mem := m\<rparr>)"
    using sp e(2) by (simp add: address_space_def)
  show "translate m r va = translate (mem s) r va" by (rule e(3))
  show "tables m r = tables (mem s) r" using e(1) unfolding tables_def by auto
qed

text \<open>The bytes of the fresh page after the copy from the image.\<close>

definition paged_in :: "u64 \<Rightarrow> vm_area_struct \<Rightarrow> u64 \<Rightarrow> mem \<Rightarrow> u64 \<Rightarrow> u64 \<Rightarrow> u8" where
  "paged_in rdisk vma a m page i =
     (let va = PGROUNDDOWN a + i
      in if vm_flags vma AND VM_ANON = 0 \<and> vm_start vma \<le> va \<and> va < vm_end vma
         then m (rdisk + vm_pgoff vma + (va - vm_start vma)) else m (page + i))"

lemma image_copy:
  fixes m :: mem
  assumes a: "vm_start vma \<le> a" "a < vm_end vma" "unat a < 2 ^ 63" and img: "vm_flags vma AND VM_ANON = 0"
    and pg: "page_aligned page"
    and src: "\<And>j. j < vm_end vma - vm_start vma \<Longrightarrow> \<not> rdisk + vm_pgoff vma + j - page < 4096"
  defines "lo \<equiv> max (PGROUNDDOWN a) (vm_start vma)" and "hi \<equiv> min (PGROUNDUP (a + 1)) (vm_end vma)"
  defines "m' \<equiv> memcpy (page + (lo - PGROUNDDOWN a)) (rdisk + vm_pgoff vma + (lo - vm_start vma)) (hi - lo) m"
  shows "i < 4096 \<Longrightarrow> m' (page + i) = paged_in rdisk vma a m page i"
    and "\<not> x - page < 4096 \<Longrightarrow> m' x = m x"
proof -
  note r = fill_range [OF a, folded lo_def hi_def]
  define d s where "d = page + (lo - PGROUNDDOWN a)" and "s = rdisk + vm_pgoff vma + (lo - vm_start vma)"
  have "\<not> (0 < d - s \<and> d - s < hi - lo)"
  proof
    assume *: "0 < d - s \<and> d - s < hi - lo"
    define j where "j = lo - vm_start vma + (d - s)"
    have sum: "unat (lo - vm_start vma) + unat (d - s) < unat (vm_end vma - vm_start vma)"
      using r(2) * by (simp add: word_less_nat_alt)
    moreover have "unat (vm_end vma - vm_start vma) < 2 ^ 64" by (rule order_less_le_trans [OF unsigned_less]) simp
    ultimately have "unat j = unat (lo - vm_start vma) + unat (d - s)"
      unfolding j_def by (subst unat_word_ariths) simp
    then have "j < vm_end vma - vm_start vma" using sum by (simp add: word_less_nat_alt)
    then have "\<not> rdisk + vm_pgoff vma + j - page < 4096" by (rule src)
    moreover have "rdisk + vm_pgoff vma + j = d" by (simp add: j_def s_def)
    ultimately show False using r(1) by (simp add: d_def)
  qed
  then have m': "m' = copied d s (hi - lo) m" unfolding m'_def d_def s_def by (rule memcpy_eq)
  show "m' (page + i) = paged_in rdisk vma a m page i" if "i < 4096" for i
  proof -
    have di: "page + i - d = i - (lo - PGROUNDDOWN a)" by (simp add: d_def)
    have si: "s + (page + i - d) = rdisk + vm_pgoff vma + (PGROUNDDOWN a + i - vm_start vma)"
      by (simp add: s_def d_def)
    show ?thesis
      unfolding m' copied_def paged_in_def Let_def si unfolding di r(4) [OF that] using img by simp
  qed
  show "m' x = m x" if x: "\<not> x - page < 4096" for x
  proof -
    have "\<not> x - d < hi - lo"
    proof
      assume *: "x - d < hi - lo"
      have "x - page = (lo - PGROUNDDOWN a) + (x - d)" by (simp add: d_def)
      then have "unat (x - page) = unat ((lo - PGROUNDDOWN a) + (x - d))" by (rule arg_cong)
      also have "\<dots> = unat (lo - PGROUNDDOWN a) + unat (x - d)"
        using r(3) * by (subst unat_word_ariths) (simp add: word_less_nat_alt)
      finally show False using r(3) * x by (simp add: word_less_nat_alt)
    qed
    then show ?thesis by (simp add: m' copied_def)
  qed
qed

lemma address_space_map:
  assumes sp: "address_space K r s" and room: "2 \<le> free_pages_left K s" and perm: "perm AND PERM_V \<noteq> 0"
    and pg: "page \<in> used_pages K s" "page \<notin> tables (mem s) r"
  shows "\<exists>s'. create_mapping r va pa PGSIZE perm s = Inr s' \<and> address_space K r s'
    \<and> (\<forall>va'. translate (mem s') r va' = (if vpns va' = vpns va then Some (leaf_entry pa perm)
                                           else translate (mem s) r va'))
    \<and> (\<forall>i < 4096. mem s' (page + i) = mem s (page + i))"
proof -
  obtain s' where s': "map_page kalloc_page r va pa perm s = Inr (True, s')" "kp.extends K r s s' 2"
    "\<forall>va'. translate (mem s') r va' =
       (if vpns va' = vpns va then Some (leaf_entry pa perm) else translate (mem s) r va')"
    using kp.map_page_ok [of K r s perm va pa] sp room perm
    unfolding address_space_good free_pages_room by blast
  have good: "kp.good K r s'" using s'(2) by (simp add: kp.extends_def)
  then have ok: "alloc_ok K s'" and wf: "wf_pt (mem s') r (used_pages K s')" by (simp_all add: kp.good_def)
  have ok0: "alloc_ok K s" using sp by (simp add: address_space_def)
  have "mem s' (page + i) = mem s (page + i)" if i: "i < 4096" for i
  proof -
    have "\<not> page + i - t < 4096" if t: "t \<in> tables (mem s') r" for t
    proof -
      have "t \<noteq> page" using t pg s'(2) by (auto simp: kp.extends_def)
      moreover have "page_aligned t" using t wf_ptD(1) [OF wf] kp.used_page [OF ok] by (auto simp: tables_def)
      moreover have "page_aligned page" using pg(1) kp.used_page [OF ok0] by blast
      ultimately show ?thesis using page_bytes_apart [of page t "page + i"] i by auto
    qed
    then show ?thesis using s'(2) by (simp add: kp.extends_def)
  qed
  moreover have "create_mapping r va pa PGSIZE perm s = Inr s'"
    unfolding create_mapping_def create_mapping_one using s'(1) by simp
  ultimately show ?thesis using good s'(3) unfolding address_space_good by blast
qed

lemma sint_below:
  fixes w :: u64
  assumes "w < 2 ^ 63"
  shows "sint w = uint w"
proof -
  have "uint w < 2 ^ 63" using assms by (simp add: word_less_iff_unsigned [where 'a = int])
  moreover have "0 \<le> uint w" by simp
  ultimately have "- (2 ^ 63) \<le> uint w" "uint w < 2 ^ 63" by linarith+
  then show ?thesis by (simp add: sint_uint signed_take_bit_int_eq_self)
qed

lemma demand_fault_ok:
  assumes sp: "address_space K r (machine_of k)" and left: "2 \<le> free_pages_left K (machine_of k)"
    and pg: "page \<in> used_pages K (machine_of k)" "page \<notin> tables (mem k) r" "page_aligned page" "page \<noteq> 0"
    and a: "vm_start vma \<le> a" "a < vm_end vma" "unat a < 2 ^ 63"
    and src: "\<And>j. j < vm_end vma - vm_start vma \<Longrightarrow> \<not> rdisk + vm_pgoff vma + j - page < 4096"
  shows "\<exists>k'. demand_fault rdisk r a vma page k = Inr k' \<and> address_space K r (machine_of k')
    \<and> (\<forall>va. translate (mem k') r va = (if vpns va = vpns a then Some (leaf_entry (page - PA2VA_OFFSET) (fault_perm vma))
                                          else translate (mem k) r va))
    \<and> (\<forall>i < 4096. mem k' (page + i) = paged_in rdisk vma a (mem k) page i)"
proof -
  define ps lo hi where "ps = PGROUNDDOWN a" and "lo = max ps (vm_start vma)"
    and "hi = min (PGROUNDUP (a + 1)) (vm_end vma)"
  define m1 where "m1 = (if vm_flags vma AND VM_ANON = 0
    then memcpy (page + (lo - ps)) (rdisk + vm_pgoff vma + (lo - vm_start vma)) (hi - lo) (mem k) else mem k)"
  have m1: "m1 (page + i) = paged_in rdisk vma a (mem k) page i" if "i < 4096" for i
    using image_copy(1) [OF a _ pg(3) src that, of "mem k", folded ps_def, folded lo_def hi_def]
    by (auto simp: m1_def paged_in_def ps_def)
  have frame: "m1 x = mem k x" if "\<not> x - page < 4096" for x
    using image_copy(2) [OF a _ pg(3) src that, of "mem k", folded ps_def, folded lo_def hi_def]
    by (auto simp: m1_def)
  define s1 where "s1 = machine_of k\<lparr>mem := m1\<rparr>"
  have fill: "address_space K r s1" "\<And>va. translate m1 r va = translate (mem k) r va"
    "tables m1 r = tables (mem k) r"
    using address_space_fill [OF sp pg(1), of m1] pg(2) frame by (simp_all add: s1_def)
  have s1: "2 \<le> free_pages_left K s1" "page \<in> used_pages K s1" "page \<notin> tables (mem s1) r"
    using left pg fill(3) by (simp_all add: s1_def free_pages_left_def)
  obtain s' where s': "create_mapping r ps (page - PA2VA_OFFSET) PGSIZE (fault_perm vma) s1 = Inr s'"
    "address_space K r s'"
    "\<forall>va'. translate (mem s') r va' = (if vpns va' = vpns ps then Some (leaf_entry (page - PA2VA_OFFSET) (fault_perm vma))
                                           else translate (mem s1) r va')"
    "\<forall>i < 4096. mem s' (page + i) = mem s1 (page + i)"
    using address_space_map [OF fill(1) s1(1) perm_values s1(2,3), of ps "page - PA2VA_OFFSET"] by blast
  have off: "(if 0 <s lo - ps then page + (lo - ps) else page) = page + (lo - ps)"
  proof (cases "lo = ps")
    case False
    have "lo - ps < 4096" using fill_range(1) [OF a, folded ps_def, folded lo_def] .
    then have "lo - ps < 2 ^ 63" by (rule order_less_trans) simp
    moreover have "lo - ps \<noteq> 0" using False by simp
    ultimately have "0 <s lo - ps"
      by (metis less_le sint_below uint_0_iff unsigned_greater_eq word_sless_alt sint_0)
    then show ?thesis by simp
  qed simp
  have "demand_fault rdisk r a vma page k = Inr (with_machine s' k)"
    unfolding demand_fault_def Let_def ps_def [symmetric] lo_def [symmetric] hi_def [symmetric] off
    using s'(1) pg(4)
    by (auto simp: copy_to_page_def on_machine_def m1_def s1_def machine_of_def with_machine_def)
  moreover have "mem (with_machine s' k) = mem s'" by (simp add: with_machine_def)
  ultimately show ?thesis
    using s' fill(2) m1 vpns_round [of a] by (intro exI [of _ "with_machine s' k"]) (simp add: s1_def ps_def)
qed

text \<open>
  C15: a legal access to a page that is not mapped gets a fresh page, mapped with the permissions
  of the area; the part of the page inside a file area holds the bytes of the image at the
  corresponding offset, every other byte of it is what the page held before; the address space
  stays well-formed and no other translation changes.
\<close>

theorem page_fault_supplies:
  assumes sit: "demand_situation K rdisk r p vma k"
  shows "\<exists>k' page. do_page_fault rdisk k = Inr k' \<and> page \<in> page_pool K - used_pages K (machine_of k)
    \<and> address_space K r (machine_of k')
    \<and> translate (mem k') r (stval k) = Some (leaf_entry (page - PA2VA_OFFSET) (fault_perm vma))
    \<and> (\<forall>va. vpns va \<noteq> vpns (stval k) \<longrightarrow> translate (mem k') r va = translate (mem k) r va)
    \<and> (\<forall>i < 4096. mem k' (page + i) = paged_in rdisk vma (stval k) (mem k) page i)"
proof -
  have sp: "address_space K r (machine_of k)" and area: "fault_area r p vma k"
    and acc: "access_allowed vma (scause k AND 0x7FFFFFFF)"
    and tr: "translate (mem k) r (stval k) = None" and a: "unat (stval k) < 2 ^ 63"
    and left: "3 \<le> free_pages_left K (machine_of k)"
    using sit by (simp_all add: demand_situation_def)
  have ok: "alloc_ok K (machine_of k)" and wf: "wf_pt (mem k) r (used_pages K (machine_of k))"
    using sp by (simp_all add: address_space_def)
  obtain cur where cur: "current k \<noteq> 0" "task_at k (current k) = Some cur" "pgd cur + PA2VA_OFFSET = r"
    "find_vma (vma_at k) (mmap cur) (stval k) = Inr p" "p \<noteq> 0" "vma_at k p = Some vma"
    using area by (auto simp: fault_area_def)
  note bounds = find_vma_covers [OF cur(4-6)]
  obtain pte where check: "check_access r (stval k) vma (scause k AND 0x7FFFFFFF) (mem k) = Inr (False, pte)"
    using check_demand [OF acc tr] by blast
  obtain f b where f: "alloc_on k = Inr (page_va f, k\<lparr>bud := b\<rparr>)" "f < 2 ^ K" "f \<notin> pages_in_use K (bud k)"
    "mm_inv K b" "pages_in_use K b = insert f (pages_in_use K (bud k))"
    using alloc_on_fresh [OF ok, of] left by auto
  define page k1 where "page = page_va f" and "k1 = k\<lparr>bud := b\<rparr>"
  have m1: "machine_of k1 = machine_of k\<lparr>bud := b\<rparr>" "mem k1 = mem k"
    by (simp_all add: k1_def machine_of_def)
  have take: "address_space K r (machine_of k1)" "page \<in> page_pool K - used_pages K (machine_of k)"
    "used_pages K (machine_of k1) = insert page (used_pages K (machine_of k))"
    "Suc (free_pages_left K (machine_of k1)) = free_pages_left K (machine_of k)"
    using address_space_take [OF sp f(4,2)] f(3,5) by (simp_all add: m1 page_def)
  have notab: "page \<notin> tables (mem k1) r"
    using take(2) wf_ptD(1) [OF wf] by (auto simp: tables_def m1)
  have pg: "page_aligned page" "page \<noteq> 0" using take(2) kp.pool_page by auto
  have src: "\<not> rdisk + vm_pgoff vma + j - page < 4096" if "j < vm_end vma - vm_start vma" for j
    using sit that take(2) by (simp add: demand_situation_def)
  obtain k' where k': "demand_fault rdisk r (stval k) vma page k1 = Inr k'" "address_space K r (machine_of k')"
    "\<forall>va. translate (mem k') r va = (if vpns va = vpns (stval k)
        then Some (leaf_entry (page - PA2VA_OFFSET) (fault_perm vma)) else translate (mem k1) r va)"
    "\<forall>i < 4096. mem k' (page + i) = paged_in rdisk vma (stval k) (mem k1) page i"
    using demand_fault_ok [OF take(1) _ _ notab pg bounds a src] take(3,4) left by auto
  have "do_page_fault rdisk k = Inr k'"
    using cur check f(1) k'(1) by (simp add: do_page_fault_def Let_def page_def k1_def)
  then show ?thesis using k' take(2) m1(2) by (intro exI [of _ k'] exI [of _ page]) simp
qed






end
