(* ===== verification/PageTable_Witness.thy ===== *)
theory PageTable_Witness
  imports PageTable_Kalloc Buddy_Witness
begin

text \<open>Concrete address spaces on which the properties of \<open>create_mapping\<close> are applied.\<close>

text \<open>The page of frame 0 as an empty root table, three pages or no page left.\<close>

definition empty_space :: machine where
  "empty_space = \<lparr>bud = four_one_used, mem = \<lambda>_. 0\<rparr>"

definition full_space :: machine where
  "full_space = \<lparr>bud = \<lparr>bsize = 1, bitmap = [0, 0], ref_cnt = [1]\<rparr>, mem = \<lambda>_. 0\<rparr>"

lemma le_word_zeros: "le_word (replicate n 0) = 0"
  by (induction n) simp_all

lemma rd64_zero: "rd64 (\<lambda>_. 0) a = 0"
proof -
  have "load (\<lambda>_. 0) a 8 = replicate 8 0" by (simp add: load_def map_replicate_const)
  then show ?thesis by (simp add: rd64_def le_word_zeros)
qed

lemma sub_table_zero: "sub_table (\<lambda>_. 0) t i = None"
  by (simp add: sub_table_def rd64_zero)

lemma zero_space:
  assumes "alloc_ok K s" "mem s = (\<lambda>_. 0)" "r \<in> used_pages K s"
  shows "address_space K r s"
proof -
  have "table_at (\<lambda>_. 0) r l = (if l = [] then Some r else None)" for l
    by (cases l) (simp_all add: sub_table_zero)
  then show ?thesis
    using assms by (auto simp: address_space_def wf_pt_def clean_def sub_table_zero split: if_splits)
qed

lemma empty_space_pages: "pages_in_use 2 four_one_used = {0}"
  by (simp add: pages_in_use_def four_one_used_alloc pages_def)

lemma empty_space_ok: "address_space 2 (page_va 0) empty_space"
  by (rule zero_space)
     (simp_all add: alloc_ok_def empty_space_def four_one_used_inv empty_space_pages used_pages_def)

lemma empty_space_left: "free_pages_left 2 empty_space = 3"
proof -
  have "page_pool 2 = {page_va 0, page_va 1, page_va 2, page_va 3}"
    by (auto simp: page_pool_def less_4)
  then have "page_pool 2 - used_pages 2 empty_space = {page_va 1, page_va 2, page_va 3}"
    by (auto simp: used_pages_def empty_space_def empty_space_pages page_va_inj)
  then show ?thesis by (simp add: free_pages_left_def page_va_inj)
qed

theorem create_mapping_maps_witness:
  "\<exists>s'. create_mapping (page_va 0) 0x10000 0x80003000 0x1000 0xDF empty_space = Inr s'
     \<and> translate (mem s') (page_va 0) 0x10000 = Some (leaf_entry 0x80003000 0xDF)"
  using create_mapping_maps [OF empty_space_ok, of "0xDF" "0x1000" 1 "0x10000" "0x80003000"]
  by (auto simp: empty_space_left PERM_V_def)

lemma full_space_tree: "tree_of [0, 0] 0 0 = Used"
  by simp

lemma full_space_alloc: "allocated 0 (bud full_space) = {(0, 0)}"
  by (simp add: allocated_def full_space_def)

lemma full_space_ok: "address_space 0 (page_va 0) full_space"
  by (rule zero_space)
     (simp_all add: alloc_ok_def used_pages_def pages_in_use_def full_space_alloc pages_def mm_inv_def
       counts_ok_def, simp_all add: full_space_def buddy_inv_def)

theorem create_mapping_no_memory_witness:
  "create_mapping (page_va 0) 0x10000 0x80003000 0x1000 0xDF full_space
     = Inr (full_space\<lparr>mem := wr64 (\<lambda>_. 0) (slot (page_va 0) 0) (table_entry 0)\<rparr>)"
proof -
  have "free_pages_left 0 full_space = 0"
    by (simp add: free_pages_left_def page_pool_def used_pages_def pages_in_use_def full_space_alloc pages_def)
  moreover have "vpn2 0x10000 = 0" by code_simp
  ultimately show ?thesis
    using create_mapping_no_memory [OF full_space_ok, of "0x1000" "0x10000" "0x80003000" "0xDF"]
    by (simp add: full_space_def sub_table_zero)
qed

end
