(* ===== verification/Vm_Witness.thy ===== *)
theory Vm_Witness
  imports Vm_Correct PageTable_Witness Sched_Test
begin

text \<open>
  A kernel with one task and one memory area, on which the properties of the page-fault handler
  are applied: eight frames, of which frame 0 is the root table and frame 1 a user page.
\<close>

definition eight_two_used :: buddy where
  "eight_two_used = \<lparr>bsize = 8, bitmap = [4, 2, 4, 0, 2, 2, 2, 0, 0, 1, 1, 1, 1, 1, 1, 0],
     ref_cnt = [1, 1, 0, 0, 0, 0, 0, 0]\<rparr>"

definition two_used_tree :: btree where
  "two_used_tree = Split (Split (Split Used Used) Free) Free"

lemma eight_tree: "tree_of (bitmap eight_two_used) 3 0 = two_used_tree"
  and eight_repr: "repr (bitmap eight_two_used) 3 0 two_used_tree"
  by code_simp+

lemma eight_alloc: "allocated 3 eight_two_used = {(0, 0), (1, 0)}"
  by (auto simp: allocated_def eight_tree two_used_tree_def)

lemma less_8: "{0 ..< 8} = {0, 1, 2, 3, 4, 5, 6, 7 :: nat}"
  by auto

lemma eight_inv: "mm_inv 3 eight_two_used"
  using eight_repr
  by (simp only: mm_inv_def buddy_inv_def counts_ok_def eight_alloc eight_tree)
     (simp add: eight_two_used_def less_8)

lemma eight_in_use: "pages_in_use 3 eight_two_used = {0, 1}"
  by (auto simp: pages_in_use_def eight_alloc pages_def)

definition one_task :: "machine \<Rightarrow> u64 \<Rightarrow> u64 \<Rightarrow> kernel" where
  "one_task s va code =
     with_machine s (run_queue [1])
       \<lparr>current := 0x1000,
        task_at := [0x1000 \<mapsto> (blank_task 0 0)\<lparr>pgd := page_va 0 - PA2VA_OFFSET, mmap := 0x5000\<rparr>],
        vma_at := [0x5000 \<mapsto> \<lparr>vm_mm = 0, vm_start = 0x10000, vm_end = 0x20000, vm_next = 0, vm_prev = 0,
                             vm_flags = VM_READ OR VM_WRITE, vm_pgoff = 0, vm_filesz = 0\<rparr>],
        stval := va, scause := code\<rparr>"

definition the_area :: vm_area_struct where
  "the_area = \<lparr>vm_mm = 0, vm_start = 0x10000, vm_end = 0x20000, vm_next = 0, vm_prev = 0,
     vm_flags = VM_READ OR VM_WRITE, vm_pgoff = 0, vm_filesz = 0\<rparr>"

lemma one_task_simps:
  "machine_of (one_task s va code) = s" "mem (one_task s va code) = mem s" "bud (one_task s va code) = bud s"
  "stval (one_task s va code) = va" "scause (one_task s va code) = code"
  "vma_at (one_task s va code) = [0x5000 \<mapsto> the_area]" "current (one_task s va code) = 0x1000"
  "task_at (one_task s va code) 0x1000 = Some ((blank_task 0 0)\<lparr>pgd := page_va 0 - PA2VA_OFFSET, mmap := 0x5000\<rparr>)"
  by (simp_all add: one_task_def machine_of_def with_machine_def the_area_def)

lemma area_lookup:
  "find_vma [0x5000 \<mapsto> the_area] 0x5000 a = (if 0x10000 \<le> a \<and> a < 0x20000 then Inr 0x5000 else Inr 0)"
proof -
  have "vma_list [0x5000 \<mapsto> the_area] 0x5000 [0x5000]" by (simp add: the_area_def)
  from find_vma_list [OF this, of a] show ?thesis
    by (auto simp: first_cover_def covers_def the_area_def)
qed

lemma area_ok: "0x10000 \<le> va \<Longrightarrow> va < 0x20000 \<Longrightarrow> fault_area (page_va 0) 0x5000 the_area (one_task s va code)"
  by (simp add: fault_area_def one_task_simps area_lookup)

definition start_space :: machine where
  "start_space = \<lparr>bud = eight_two_used, mem = \<lambda>_. 0\<rparr>"

lemma start_ok: "address_space 3 (page_va 0) start_space"
  by (rule zero_space)
     (simp_all add: alloc_ok_def start_space_def eight_inv eight_in_use used_pages_def)

lemma start_left: "free_pages_left 3 start_space = 6"
proof -
  have "page_pool 3 = page_va ` {0, 1, 2, 3, 4, 5, 6, 7}" by (simp add: page_pool_def less_8)
  moreover have "inj_on page_va {0, 1, 2, 3, 4, 5, 6, 7}" by (auto simp: inj_on_def page_va_inj)
  ultimately have "page_pool 3 - used_pages 3 start_space = page_va ` ({0, 1, 2, 3, 4, 5, 6, 7} - {0, 1})"
    by (simp add: used_pages_def start_space_def eight_in_use inj_on_image_set_diff)
  moreover have "inj_on page_va {2, 3, 4, 5, 6, 7}" by (auto simp: inj_on_def page_va_inj)
  ultimately show ?thesis by (simp add: free_pages_left_def card_image)
qed

lemma start_unmapped: "translate (\<lambda>_. 0) r va = None"
  by (simp add: translate_def find_pte_def rd64_zero)

lemma disk_apart: "j < 0x10000 \<Longrightarrow> f \<in> page_pool 3 \<Longrightarrow> \<not> 0x1000000 + j - f < 4096"
proof
  assume j: "j < 0x10000" and f: "f \<in> page_pool 3" and lt: "0x1000000 + j - f < 4096"
  obtain q where q: "f = page_va q" "q < 2 ^ min 3 25" using f by (auto simp: page_pool_def)
  have "unat f = 0xffffffe000000000 + 4096 * q" using q unat_page_va [of q] by simp
  moreover have "unat (0x1000000 + j) = unat f + unat (0x1000000 + j - f)"
    using page_va_page(1) [of q] q by (intro unat_in_page [OF _ lt]) simp
  moreover have "unat (0x1000000 + j) < 0x2000000"
    using j by (simp add: word_less_nat_alt unat_word_ariths)
  ultimately show False by simp
qed

theorem page_fault_supplies_witness:
  "\<exists>k'. do_page_fault 0x1000000 (one_task start_space 0x12345 SUPERVISOR_LOAD_PAGE_FAULT) = Inr k'
     \<and> translate (mem k') (page_va 0) 0x12345 \<noteq> None"
proof -
  have "demand_situation 3 0x1000000 (page_va 0) 0x5000 the_area
      (one_task start_space 0x12345 SUPERVISOR_LOAD_PAGE_FAULT)"
    unfolding demand_situation_def one_task_simps
    using start_ok start_left area_ok [of "0x12345"] disk_apart
    by (auto simp: start_space_def start_unmapped access_allowed_def the_area_def
        SUPERVISOR_LOAD_PAGE_FAULT_def VM_READ_def VM_WRITE_def)
  from page_fault_supplies [OF this] show ?thesis by (auto simp: one_task_simps)
qed


text \<open>A page table in frames 0, 1, 2 that maps page \<open>0x12000\<close> to frame 3 without write permission.\<close>

definition eight_four_used :: buddy where
  "eight_four_used = \<lparr>bsize = 8, bitmap = [4, 0, 4, 0, 0, 2, 2, 0, 0, 0, 0, 1, 1, 1, 1, 0],
     ref_cnt = [1, 1, 1, 2, 0, 0, 0, 0]\<rparr>"

definition four_used_tree :: btree where
  "four_used_tree = Split (Split (Split Used Used) (Split Used Used)) Free"

lemma four_tree: "tree_of (bitmap eight_four_used) 3 0 = four_used_tree"
  and four_repr: "repr (bitmap eight_four_used) 3 0 four_used_tree"
  by code_simp+

lemma four_alloc: "allocated 3 eight_four_used = {(0, 0), (1, 0), (2, 0), (3, 0)}"
  unfolding allocated_def four_tree four_used_tree_def by (auto simp: numeral_eq_Suc)

lemma four_inv: "mm_inv 3 eight_four_used"
  using four_repr
  by (simp only: mm_inv_def buddy_inv_def counts_ok_def four_alloc four_tree)
     (simp add: eight_four_used_def less_8)

lemma four_in_use: "pages_in_use 3 eight_four_used = {0, 1, 2, 3}"
  by (auto simp: pages_in_use_def four_alloc pages_def)

definition shared_entry :: u64 where
  "shared_entry = leaf_entry (page_va 3 - PA2VA_OFFSET) (PERM_A OR PERM_U OR PERM_R OR PERM_V)"

text \<open>Root table in frame 0, the two tables below it in frames 1 and 2, and the leaf entry \<open>e\<close>.\<close>

definition leaf_mem :: "u64 \<Rightarrow> mem" where
  "leaf_mem e = wr64 (wr64 (wr64 (\<lambda>_. 0) (slot (page_va 0) 0) (table_entry (page_va 1)))
      (slot (page_va 1) 0) (table_entry (page_va 2))) (slot (page_va 2) 0x12) e"

lemma page_va_slots: "q < 2 ^ 25 \<Longrightarrow> page_aligned (page_va q)"
  by (rule page_va_page(1))

lemma rd_wr_slot:
  assumes "p < 2 ^ 25" "q < 2 ^ 25" "i < 512" "j < 512"
  shows "rd64 (wr64 m (slot (page_va p) i) v) (slot (page_va q) j)
    = (if q = p \<and> j = i then v else rd64 m (slot (page_va q) j))"
  using assms rd_slot_other [of "page_va p" "page_va q" i j] page_va_page(1) page_va_inj by auto

lemma leaf_rd:
  assumes "i < 512"
  shows "rd64 (leaf_mem e) (slot (page_va 0) i) = (if i = 0 then table_entry (page_va 1) else 0)"
    "rd64 (leaf_mem e) (slot (page_va 1) i) = (if i = 0 then table_entry (page_va 2) else 0)"
    "rd64 (leaf_mem e) (slot (page_va 2) i) = (if i = 0x12 then e else 0)"
    "2 < q \<Longrightarrow> q < 2 ^ 25 \<Longrightarrow> rd64 (leaf_mem e) (slot (page_va q) i) = 0"
  using assms by (simp_all add: leaf_mem_def rd_wr_slot rd64_zero)

lemma leaf_sub:
  assumes "i < 512"
  shows "sub_table (leaf_mem e) (page_va 0) i = (if i = 0 then Some (page_va 1) else None)"
    "sub_table (leaf_mem e) (page_va 1) i = (if i = 0 then Some (page_va 2) else None)"
  using leaf_rd [OF assms] table_entry_valid entry_table_entry page_va_page
  by (simp_all add: sub_table_def Let_def)

lemma leaf_tables:
  assumes "is_path l"
  shows "table_at (leaf_mem e) (page_va 0) l =
    (if l = [] then Some (page_va 0) else if l = [0] then Some (page_va 1)
     else if l = [0, 0] then Some (page_va 2) else None)"
proof -
  consider "l = []" | i where "l = [i]" "i < 512" | i j where "l = [i, j]" "i < 512" "j < 512"
    using assms by (cases l; cases "tl l") (auto simp: is_path_def)
  then show ?thesis by cases (auto simp: leaf_sub leaf_sub [simplified])
qed

lemma leaf_wf: "page_va ` {0, 1, 2} \<subseteq> U \<Longrightarrow> wf_pt (leaf_mem e) (page_va 0) U"
  unfolding wf_pt_def by (auto simp: leaf_tables page_va_inj split: if_splits)

definition shared_mem :: mem where
  "shared_mem = leaf_mem shared_entry"

definition shared_space :: machine where
  "shared_space = \<lparr>bud = eight_four_used, mem = shared_mem\<rparr>"

lemmas shared_tables = leaf_tables [where e = shared_entry, folded shared_mem_def]
lemmas shared_rd = leaf_rd [where e = shared_entry, folded shared_mem_def]

lemma shared_wf: "wf_pt shared_mem (page_va 0) (used_pages 3 shared_space)"
  unfolding shared_mem_def by (rule leaf_wf) (simp add: used_pages_def shared_space_def four_in_use)

lemma shared_vpn: "vpn2 0x12345 = 0" "vpn1 0x12345 = 0" "vpn0 0x12345 = 0x12"
  by code_simp+

lemma shared_entry_facts:
  "shared_entry AND PERM_V \<noteq> 0" "shared_entry AND PERM_W = 0" "entry_table shared_entry = page_va 3"
  by code_simp+

lemma shared_ok: "alloc_ok 3 shared_space"
  by (simp add: alloc_ok_def shared_space_def four_inv four_in_use)

lemma shared_translate: "translate shared_mem (page_va 0) 0x12345 = Some shared_entry"
  using translate_eq [OF shared_wf, of "0x12345"] kp.used_page [OF shared_ok]
    shared_tables [of "[0, 0]"] shared_rd(3) [of "0x12"] shared_entry_facts(1)
  by (simp add: shared_vpn is_path_def del: table_at.simps)

theorem cow_fault_copies_witness:
  "\<exists>k' page. do_page_fault 0x1000000 (one_task shared_space 0x12345 SUPERVISOR_STORE_PAGE_FAULT) = Inr k'
     \<and> translate (mem k') (page_va 0) 0x12345 = Some (leaf_entry (page - PA2VA_OFFSET) (fault_perm the_area))
     \<and> ref_cnt (bud k') ! 3 = 1"
proof -
  have "page_va 4 \<in> page_pool 3 - used_pages 3 shared_space"
    by (auto simp: page_pool_def used_pages_def shared_space_def four_in_use page_va_inj)
  then have "page_pool 3 - used_pages 3 shared_space \<noteq> {}" by blast
  then have left: "0 < free_pages_left 3 shared_space"
    using kp.finite_pool [of 3] by (simp add: free_pages_left_def card_gt_0_iff)
  have "page_va 3 \<notin> tables shared_mem (page_va 0)"
    by (auto simp: tables_def shared_tables page_va_inj split: if_splits)
  then have "cow_situation 3 (page_va 0) 0x5000 the_area 3 0
      (one_task shared_space 0x12345 SUPERVISOR_STORE_PAGE_FAULT)"
    unfolding cow_situation_def one_task_simps
    using shared_ok shared_wf left shared_translate shared_entry_facts area_lookup [of "0x12345"]
    by (simp add: shared_space_def four_alloc the_area_def SUPERVISOR_STORE_PAGE_FAULT_def
        VM_WRITE_def VM_READ_def)
  from cow_fault_copies [OF this, of "0x1000000"] obtain k' page where k':
    "do_page_fault 0x1000000 (one_task shared_space 0x12345 SUPERVISOR_STORE_PAGE_FAULT) = Inr k'"
    "translate (mem k') (page_va 0) 0x12345 = Some (leaf_entry (page - PA2VA_OFFSET) (fault_perm the_area))"
    "ref_cnt (bud k') ! 3 = ref_cnt (bud shared_space) ! 3 - 1"
    unfolding one_task_simps by blast
  have "ref_cnt (bud shared_space) ! 3 - 1 = 1" by (simp add: shared_space_def eight_four_used_def)
  with k' show ?thesis by auto
qed

end
