(* ===== verification/Format.thy ===== *)
theory Format
  imports CMemory
begin

text \<open>
  Formatted output: \<^verbatim>\<open>lib/printk.c\<close>, whose code \<^verbatim>\<open>user/printf.c\<close> repeats with another \<^verbatim>\<open>putc\<close>.
  A C string is the list of its bytes without the terminator; reading at the end gives 0. The
  variadic arguments are a list of 64-bit slots, of which an int takes the low half. The
  characters handed to \<^verbatim>\<open>putch\<close> are collected in order, and the C variable \<^verbatim>\<open>written\<close> is counted
  beside them by its own statements, as in the code.
\<close>

section \<open>C strings\<close>

definition chr :: "u8 list \<Rightarrow> u8" where
  "chr p = (case p of [] \<Rightarrow> 0 | c # _ \<Rightarrow> c)"

definition ascii :: "string \<Rightarrow> u8 list" where
  "ascii = map of_char"

text \<open>
  How a pointer argument is followed in the state \<open>'m\<close> of the caller: reading the string at it, and
  storing bytes there. The kernel and the user program have their own.
\<close>

record 'm pointers =
  string_at :: "u64 \<Rightarrow> 'm \<Rightarrow> u8 list res"
  store_at :: "u64 \<Rightarrow> u8 list \<Rightarrow> 'm \<Rightarrow> 'm res"

section \<open>strtol\<close>

definition isspace :: "u8 \<Rightarrow> bool" where
  "isspace c \<longleftrightarrow> c = 0x20 \<or> 0x09 \<le> c \<and> c \<le> 0x0D"

definition is_digit :: "u8 \<Rightarrow> bool" where
  "is_digit c \<longleftrightarrow> 0x30 \<le> c \<and> c \<le> 0x39"

definition digit_of :: "u8 \<Rightarrow> u32 option" where
  "digit_of c =
     (if is_digit c then Some (ucast c - 0x30)
      else if 0x61 \<le> c \<and> c \<le> 0x7A then Some (ucast c - (0x61 - 10))
      else if 0x41 \<le> c \<and> c \<le> 0x5A then Some (ucast c - (0x41 - 10))
      else None)"

text \<open>The digit loop: the value so far, and the text from the first character that is no digit.\<close>

fun strtol_digits :: "u32 \<Rightarrow> u64 \<Rightarrow> u8 list \<Rightarrow> u64 \<times> u8 list" where
  "strtol_digits base ret [] = (ret, [])"
| "strtol_digits base ret (c # p) =
     (case digit_of c of
        None \<Rightarrow> (ret, c # p)
      | Some d \<Rightarrow> if base \<le>s d then (ret, c # p)
                  else strtol_digits base (ret * scast base + scast d) p)"

definition strtol :: "u8 list \<Rightarrow> u32 \<Rightarrow> u64 \<times> u8 list" where
  "strtol nptr base =
     (let p = dropWhile isspace nptr;
          neg = (chr p = 0x2D);
          p = (if chr p = 0x2D \<or> chr p = 0x2B then tl p else p);
          (base, p) =
            (if base = 0
             then if chr p = 0x30
                  then if chr (tl p) = 0x78 \<or> chr (tl p) = 0x58 then (16, tl (tl p)) else (8, tl p)
                  else (10, p)
             else (base, p));
          (ret, p) = strtol_digits base 0 p
      in (if neg then - ret else ret, p))"

section \<open>Conversions\<close>

record fmt_flags =
  in_format :: bool
  longflag :: bool
  sharpflag :: bool
  zeroflag :: bool
  spaceflag :: bool
  sign :: bool
  width :: u32
  prec :: u32

definition smax :: "u32 \<Rightarrow> u32 \<Rightarrow> u32" where
  "smax a b = (if b <s a then a else b)"

text \<open>The characters put out so far and the variable \<^verbatim>\<open>written\<close>, with the two statements on them.\<close>

type_synonym printed = "u8 list \<times> u32"

definition putch :: "u8 \<Rightarrow> printed \<Rightarrow> printed" where
  "putch c s = (fst s @ [c], snd s)"

definition add_written :: "u32 \<Rightarrow> printed \<Rightarrow> printed" where
  "add_written k s = (fst s, snd s + k)"

primrec put_times :: "nat \<Rightarrow> u8 \<Rightarrow> printed \<Rightarrow> printed" where
  "put_times 0 c s = s"
| "put_times (Suc k) c s = put_times k c (add_written 1 (putch c s))"

text \<open>\<^verbatim>\<open>for (int i = n; i > 0; i--) { putch(c); ++written; }\<close>\<close>

definition repeat :: "u32 \<Rightarrow> u8 \<Rightarrow> printed \<Rightarrow> printed" where
  "repeat n c s = put_times (nat (sint n)) c s"

text \<open>\<^verbatim>\<open>for (int i = m; i < n; i++) { putch(c); ++written; }\<close>\<close>

definition fill :: "u32 \<Rightarrow> u32 \<Rightarrow> u8 \<Rightarrow> printed \<Rightarrow> printed" where
  "fill m n c s = put_times (nat (sint n - sint m)) c s"

text \<open>\<^verbatim>\<open>for (int i = digits - 1; i >= 0; i--) { putch(buf[i]); ++written; }\<close>, on the reversed buffer\<close>

primrec put_digits :: "u8 list \<Rightarrow> printed \<Rightarrow> printed" where
  "put_digits [] s = s"
| "put_digits (c # cs) s = put_digits cs (add_written 1 (putch c s))"

text \<open>The digits that the \<^verbatim>\<open>do ... while (num)\<close> loops put into \<^verbatim>\<open>buf\<close>, least significant first.\<close>

lemma unat_div_less: "num div d \<noteq> 0 \<Longrightarrow> 1 < d \<Longrightarrow> unat (num div d) < unat num" for num d :: "'a::len word"
proof -
  assume "num div d \<noteq> 0" and d: "1 < d"
  then have "0 < unat num" by (auto simp: unat_gt_0)
  moreover have "1 < unat d" using d by (simp add: word_less_nat_alt)
  ultimately show ?thesis by (simp add: unat_div)
qed

function dec_digits :: "u64 \<Rightarrow> u8 list" where
  "dec_digits num =
     (ucast (num mod 10) + 0x30) # (if num div 10 = 0 then [] else dec_digits (num div 10))"
  by pat_completeness auto
termination
  by (relation "measure unat") (auto intro: unat_div_less)

definition xdigit :: "bool \<Rightarrow> u64 \<Rightarrow> u8" where
  "xdigit upper d = (if d < 10 then ucast d + 0x30 else ucast d - 10 + (if upper then 0x41 else 0x61))"

function hex_digits :: "bool \<Rightarrow> u64 \<Rightarrow> u8 list" where
  "hex_digits upper num =
     xdigit upper (num AND 0xf) # (if drop_bit 4 num = 0 then [] else hex_digits upper (drop_bit 4 num))"
  by pat_completeness auto
termination
  by (relation "measure (\<lambda>(_, num). unat num)") (auto simp: drop_bit_eq_div intro: unat_div_less)

declare dec_digits.simps [simp del] hex_digits.simps [simp del]

text \<open>\<^verbatim>\<open>while (*p) putch(*p++)\<close>: the characters, and where \<^verbatim>\<open>p\<close> ends.\<close>

primrec puts_loop :: "u8 list \<Rightarrow> u64 \<Rightarrow> u8 list \<Rightarrow> u8 list \<times> u64" where
  "puts_loop [] p out = (out, p)"
| "puts_loop (c # cs) p out = puts_loop cs (p + 1) (out @ [c])"

text \<open>
  \<^verbatim>\<open>puts_wo_nl\<close>, with the returned \<^verbatim>\<open>p - s\<close>. The address of the literal \<^verbatim>\<open>"(null)"\<close> is not in the model
  and the difference does not depend on it.
\<close>

definition puts_bytes :: "u8 list \<Rightarrow> u64 \<Rightarrow> printed" where
  "puts_bytes cs s = (case puts_loop cs s [] of (out, p) \<Rightarrow> (out, ucast (p - s)))"

definition puts_wo_nl :: "'m pointers \<Rightarrow> 'm \<Rightarrow> u64 \<Rightarrow> printed res" where
  "puts_wo_nl ptr m s =
     bindr (if s = 0 then Inr (ascii ''(null)'') else string_at ptr s m) (\<lambda>cs. Inr (puts_bytes cs s))"

text \<open>\<^verbatim>\<open>print_dec_int\<close>: the characters it puts out and the \<^verbatim>\<open>written\<close> it returns.\<close>

definition print_dec_int :: "u64 \<Rightarrow> bool \<Rightarrow> fmt_flags \<Rightarrow> printed" where
  "print_dec_int num is_signed flags =
     (if is_signed \<and> num = 0x8000000000000000 then puts_bytes (ascii ''-9223372036854775808'') 0
      else if prec flags = 0 \<and> num = 0 then ([], 0)
      else let neg = (is_signed \<and> num <s 0);
               num = (if neg then - num else num);
               has_sign_char = (is_signed \<and> (neg \<or> sign flags \<or> spaceflag flags));
               hs = (if has_sign_char then 1 else 0);
               buf = dec_digits num;
               decdigits = of_nat (length buf);
               pr = (if prec flags = - 1 \<and> zeroflag flags then width flags else prec flags);
               s = repeat (width flags - smax decdigits pr - hs) 0x20 ([], 0);
               s = (if has_sign_char
                    then add_written 1 (putch (if neg then 0x2D else if sign flags then 0x2B else 0x20) s)
                    else s);
               s = fill decdigits (pr - hs) 0x30 s
           in put_digits (rev buf) s)"

text \<open>
  The conversions \<^verbatim>\<open>%x\<close>, \<^verbatim>\<open>%X\<close> and \<^verbatim>\<open>%p\<close>, which are inline in \<^verbatim>\<open>vprintfmt\<close> and count in its own
  \<^verbatim>\<open>written\<close>.
\<close>

definition print_hex :: "u8 \<Rightarrow> u64 \<Rightarrow> fmt_flags \<Rightarrow> u32 \<Rightarrow> printed" where
  "print_hex c num flags written =
     (if prec flags = 0 \<and> num = 0 \<and> c \<noteq> 0x70 then ([], written)
      else let prefix = (c = 0x70 \<or> sharpflag flags \<and> num \<noteq> 0);
               two = (if prefix then 2 else 0);
               buf = hex_digits (c = 0x58) num;
               hexdigits = of_nat (length buf);
               pr = (if prec flags = - 1 \<and> zeroflag flags then width flags - two else prec flags);
               s = repeat (width flags - two - smax hexdigits pr) 0x20 ([], written);
               s = (if prefix
                    then add_written 2 (putch (if c = 0x58 then 0x58 else 0x78) (putch 0x30 s))
                    else s);
               s = fill hexdigits pr 0x30 s
           in put_digits (rev buf) s)"

section \<open>vprintfmt\<close>

text \<open>Taking the next argument; there is no value when the caller passed too few.\<close>

definition va_arg :: "u64 list \<Rightarrow> (u64 \<times> u64 list) res" where
  "va_arg vl = (case vl of [] \<Rightarrow> Inl Out_Of_Bounds | a # vl \<Rightarrow> Inr (a, vl))"

definition int_of :: "u64 \<Rightarrow> u64" where "int_of a = scast (ucast a :: u32)"
definition uint_of :: "u64 \<Rightarrow> u64" where "uint_of a = ucast (ucast a :: u32)"

definition fresh_flags :: fmt_flags where
  "fresh_flags = \<lparr>in_format = True, longflag = False, sharpflag = False, zeroflag = False,
     spaceflag = False, sign = False, width = 0, prec = - 1\<rparr>"

definition no_flags :: fmt_flags where
  "no_flags = fresh_flags\<lparr>in_format := False, prec := 0\<rparr>"

text \<open>
  A conversion character: the characters it puts out, the new value of \<^verbatim>\<open>written\<close>, the remaining
  arguments and the memory (\<^verbatim>\<open>%n\<close> stores \<^verbatim>\<open>written\<close>). Every other character prints itself.
\<close>

definition conversion ::
  "'m pointers \<Rightarrow> fmt_flags \<Rightarrow> u8 \<Rightarrow> u32 \<Rightarrow> u64 list \<Rightarrow> 'm \<Rightarrow> (printed \<times> u64 list \<times> 'm) res" where
  "conversion ptr flags c written vl m =
     (if c = 0x78 \<or> c = 0x58 \<or> c = 0x70
      then bindr (va_arg vl) (\<lambda>(a, vl).
             Inr (print_hex c (if c = 0x70 \<or> longflag flags then a else uint_of a) flags written, vl, m))
      else if c = 0x64 \<or> c = 0x69 \<or> c = 0x75
      then bindr (va_arg vl) (\<lambda>(a, vl).
             let (cs, n) = print_dec_int (if longflag flags then a else int_of a) (c \<noteq> 0x75) flags
             in Inr ((cs, written + n), vl, m))
      else if c = 0x6E
      then bindr (va_arg vl) (\<lambda>(a, vl).
             bindr (store_at ptr a (if longflag flags then le_bytes 8 (scast written :: u64)
                                    else le_bytes 4 written) m) (\<lambda>m. Inr (([], written), vl, m)))
      else if c = 0x73
      then bindr (va_arg vl) (\<lambda>(a, vl).
             bindr (puts_wo_nl ptr m a) (\<lambda>(cs, n). Inr ((cs, written + n), vl, m)))
      else if c = 0x63
      then bindr (va_arg vl) (\<lambda>(a, vl). Inr (add_written 1 (putch (ucast a) ([], written)), vl, m))
      else if c = 0x25 then Inr (add_written 1 (putch 0x25 ([], written)), vl, m)
      else Inr (add_written 1 (putch c ([], written)), vl, m))"

lemma strtol_digits_length: "length (snd (strtol_digits b r p)) \<le> length p"
  by (induction b r p rule: strtol_digits.induct) (auto split: option.splits)

lemma strtol_length: "length (snd (strtol p b)) \<le> length p"
proof -
  define q where "q = dropWhile isspace p"
  define q' where "q' = (if chr q = 0x2D \<or> chr q = 0x2B then tl q else q)"
  have q: "length q \<le> length p" by (simp add: q_def length_dropWhile_le)
  have q': "length q' \<le> length q" by (simp add: q'_def)
  have "\<exists>r b' x. snd (strtol p b) = snd (strtol_digits b' 0 x) \<and> length x \<le> length q'"
    unfolding strtol_def Let_def q_def [symmetric] q'_def [symmetric]
    by (cases "b = 0"; cases "chr q' = 0x30"; cases "chr (tl q') = 0x78 \<or> chr (tl q') = 0x58")
       (auto simp: case_prod_beta intro!: exI)
  then show ?thesis using q q' strtol_digits_length by (metis le_trans)
qed

lemma digit_not_space: "0x31 \<le> c \<Longrightarrow> c \<le> 0x39 \<Longrightarrow> \<not> isspace c \<and> c \<noteq> 0x2D \<and> c \<noteq> 0x2B \<and> digit_of c = Some (ucast c - 0x30)"
  by (auto simp: isspace_def digit_of_def is_digit_def word_le_nat_alt)

lemma strtol_decimal:
  assumes "0x31 \<le> c" "c \<le> 0x39"
  shows "strtol (c # p) 10 = strtol_digits 10 0 (c # p)"
  using digit_not_space [OF assms] by (simp add: strtol_def Let_def chr_def split: prod.split)

lemma digit_cases:
  assumes "is_digit c"
  shows "c \<in> {0x30, 0x31, 0x32, 0x33, 0x34, 0x35, 0x36, 0x37, 0x38, 0x39}"
proof -
  have "unat c \<le> 57" "48 \<le> unat c" using assms by (simp_all add: is_digit_def word_le_nat_alt)
  then have "unat c = 48 \<or> unat c = 49 \<or> unat c = 50 \<or> unat c = 51 \<or> unat c = 52
    \<or> unat c = 53 \<or> unat c = 54 \<or> unat c = 55 \<or> unat c = 56 \<or> unat c = 57" by presburger
  then show ?thesis by (simp add: word_unat_eq_iff)
qed

lemma digit_less_10: "is_digit c \<Longrightarrow> \<not> (10 :: u32) \<le>s ucast c - 0x30"
  by (drule digit_cases) (auto simp: word_sle_eq)

lemma strtol_shorter:
  assumes "0x31 \<le> c" "c \<le> 0x39"
  shows "length (snd (strtol (c # p) 10)) \<le> length p"
proof -
  have "is_digit c" using assms by (simp add: is_digit_def word_le_nat_alt)
  then show ?thesis
    using digit_not_space [OF assms] strtol_digits_length [of 10 _ p]
    by (simp add: strtol_decimal [OF assms] digit_less_10)
qed

text \<open>
  The loop over the format. \<^verbatim>\<open>strtol\<close> leaves \<^verbatim>\<open>fmt\<close> at the first character it did not use; the
  \<^verbatim>\<open>fmt--\<close> that follows cancels the \<^verbatim>\<open>fmt++\<close> of the loop. The precision that \<^verbatim>\<open>print_dec_int\<close>
  leaves in the flags is never read, as the next conversion starts with new flags.
\<close>

function (sequential) vprintfmt_loop ::
  "'m pointers \<Rightarrow> fmt_flags \<Rightarrow> u8 list \<Rightarrow> u64 list \<Rightarrow> u32 \<Rightarrow> u8 list \<Rightarrow> 'm \<Rightarrow> (u8 list \<times> u32 \<times> 'm) res" where
  "vprintfmt_loop ptr flags [] vl written out m = Inr (out, written, m)"
| "vprintfmt_loop ptr flags (c # fmt) vl written out m =
     (if in_format flags
      then if c = 0x23
           then vprintfmt_loop ptr (flags\<lparr>sharpflag := True\<rparr>) fmt vl written out m
           else if c = 0x30
           then vprintfmt_loop ptr (flags\<lparr>zeroflag := True\<rparr>) fmt vl written out m
           else if c = 0x6C \<or> c = 0x7A \<or> c = 0x74 \<or> c = 0x6A
           then vprintfmt_loop ptr (flags\<lparr>longflag := True\<rparr>) fmt vl written out m
           else if c = 0x2B
           then vprintfmt_loop ptr (flags\<lparr>sign := True\<rparr>) fmt vl written out m
           else if c = 0x20
           then vprintfmt_loop ptr (flags\<lparr>spaceflag := True\<rparr>) fmt vl written out m
           else if c = 0x2A
           then bindr (va_arg vl) (\<lambda>(a, vl).
                  vprintfmt_loop ptr (flags\<lparr>width := ucast a\<rparr>) fmt vl written out m)
           else if 0x31 \<le> c \<and> c \<le> 0x39
           then vprintfmt_loop ptr (flags\<lparr>width := ucast (fst (strtol (c # fmt) 10))\<rparr>)
                  (snd (strtol (c # fmt) 10)) vl written out m
           else if c = 0x2E
           then if chr fmt = 0x2A
                then bindr (va_arg vl) (\<lambda>(a, vl).
                       vprintfmt_loop ptr (flags\<lparr>prec := ucast a\<rparr>) (tl fmt) vl written out m)
                else vprintfmt_loop ptr (flags\<lparr>prec := ucast (fst (strtol fmt 10))\<rparr>)
                       (snd (strtol fmt 10)) vl written out m
           else bindr (conversion ptr flags c written vl m) (\<lambda>((cs, written), vl, m).
                  vprintfmt_loop ptr (flags\<lparr>in_format := False\<rparr>) fmt vl written (out @ cs) m)
      else if c = 0x25 then vprintfmt_loop ptr fresh_flags fmt vl written out m
      else vprintfmt_loop ptr flags fmt vl (written + 1) (out @ [c]) m)"
  by pat_completeness auto
termination
  by (relation "measure (\<lambda>(ptr, flags, fmt, vl, written, out, m). length fmt)")
     (auto simp: strtol_shorter less_Suc_eq_le strtol_length)

definition vprintfmt :: "'m pointers \<Rightarrow> u8 list \<Rightarrow> u64 list \<Rightarrow> 'm \<Rightarrow> (u8 list \<times> u32 \<times> 'm) res" where
  "vprintfmt ptr fmt vl m = vprintfmt_loop ptr no_flags fmt vl 0 [] m"

end
