(* ===== verification/Uaccess.thy ===== *)
theory Uaccess
  imports PageTable
begin

text \<open>
  How the kernel reads and writes through pointers that a system call passes in. \<open>mem\<close> holds the
  bytes at their direct-map addresses, so an address below the kernel's range goes through the
  page table that \<^verbatim>\<open>satp\<close> selects. An access that the table does not allow is a trap inside the
  kernel; here it is the fault \<open>Bad_Pointer\<close>.
\<close>

definition page_root :: "'a kernel_scheme \<Rightarrow> u64" where
  "page_root k = push_bit 12 (satp k AND PPN_MASK) + PA2VA_OFFSET"

definition resolve :: "u64 \<Rightarrow> 'a kernel_scheme \<Rightarrow> u64 \<Rightarrow> u64 res" where
  "resolve perm k a =
     (if VM_START \<le> a then Inr a
      else let pte = find_pte (page_root k) a (mem k);
               e = rd64 (mem k) pte
           in if pte \<noteq> 0 \<and> e AND (PERM_V OR perm) = PERM_V OR perm
              then Inr (entry_table e + (a AND (PGSIZE - 1))) else Inl Bad_Pointer)"

definition vload8 :: "'a kernel_scheme \<Rightarrow> u64 \<Rightarrow> u8 res" where
  "vload8 k a = bindr (resolve PERM_R k a) (\<lambda>p. Inr (mem k p))"

definition vstore8 :: "u64 \<Rightarrow> u8 \<Rightarrow> 'a kernel_scheme \<Rightarrow> 'a kernel_scheme res" where
  "vstore8 a c k = bindr (resolve PERM_W k a) (\<lambda>p. Inr (k\<lparr>mem := (mem k)(p := c)\<rparr>))"

text \<open>Runs of bytes, and a string up to its terminator.\<close>

definition vload :: "'a kernel_scheme \<Rightarrow> u64 \<Rightarrow> u64 \<Rightarrow> u8 list res" where
  "vload k a n = for_range 0 n (\<lambda>i out. bindr (vload8 k (a + i)) (\<lambda>c. Inr (out @ [c]))) []"

fun vstore :: "u64 \<Rightarrow> u8 list \<Rightarrow> 'a kernel_scheme \<Rightarrow> 'a kernel_scheme res" where
  "vstore a [] k = Inr k"
| "vstore a (c # cs) k = bindr (vstore8 a c k) (vstore (a + 1) cs)"

function vstring_from :: "'a kernel_scheme \<Rightarrow> u64 \<Rightarrow> u64 \<Rightarrow> u8 list res" where
  "vstring_from k s len =
     bindr (vload8 k (s + len)) (\<lambda>c.
       if c = 0 then Inr []
       else if len + 1 = 0 then Inl No_Return
       else bindr (vstring_from k s (len + 1)) (\<lambda>cs. Inr (c # cs)))"
  by pat_completeness auto
termination
  by (relation "measure (\<lambda>(k, s, len). unat (- 1 - len))") (auto simp: word_up_less)

definition vstring :: "'a kernel_scheme \<Rightarrow> u64 \<Rightarrow> u8 list res" where
  "vstring k s = vstring_from k s 0"

declare vstring_from.simps [simp del]

lemma resolve_kernel [simp]: "VM_START \<le> a \<Longrightarrow> resolve perm k a = Inr a"
  by (simp add: resolve_def)

text \<open>The bytes at \<open>a\<close> are readable and equal \<open>cs\<close>.\<close>

definition readable :: "'a kernel_scheme \<Rightarrow> u64 \<Rightarrow> u8 list \<Rightarrow> bool" where
  "readable k a cs \<longleftrightarrow> length cs < 2 ^ 64 \<and> (\<forall>i < length cs. vload8 k (a + of_nat i) = Inr (cs ! i))"

lemma vload_readable:
  assumes "readable k a cs"
  shows "vload k a (of_nat (length cs)) = Inr cs"
proof -
  have len: "unat (of_nat (length cs) :: u64) = length cs"
    using assms by (intro unat_of_nat_small) (simp add: readable_def)
  have "\<exists>s'. for_range 0 (of_nat (length cs)) (\<lambda>i out. bindr (vload8 k (a + i)) (\<lambda>c. Inr (out @ [c]))) []
      = Inr s' \<and> s' = take (unat (of_nat (length cs) :: u64)) cs"
  proof (rule for_range_inv [where P = "\<lambda>i out. out = take (unat i) cs"])
    fix j :: u64 and t
    assume j: "0 \<le> j" "j < of_nat (length cs)" and t: "t = take (unat j) cs"
    have lt: "unat j < length cs" using j(2) len by (simp add: word_less_nat_alt)
    then have "vload8 k (a + j) = Inr (cs ! unat j)"
      using assms unfolding readable_def by (metis ucast_id of_nat_unat)
    moreover have "unat (j + 1) = Suc (unat j)" using j(2) by (rule word_Suc_less(1))
    ultimately show "\<exists>t'. bindr (vload8 k (a + j)) (\<lambda>c. Inr (t @ [c])) = Inr t' \<and> t' = take (unat (j + 1)) cs"
      using lt t by (simp add: take_Suc_conv_app_nth)
  qed simp_all
  then show ?thesis by (simp add: vload_def len)
qed

lemma vstring_readable:
  assumes "readable k a (cs @ [0])" "0 \<notin> set cs" "n \<le> length cs"
  shows "vstring_from k a (of_nat n) = Inr (drop n cs)"
  using assms(3)
proof (induction n rule: inc_induct)
  case base
  have "vload8 k (a + of_nat (length cs)) = Inr ((cs @ [0]) ! length cs)"
    using assms(1) by (auto simp: readable_def)
  then show ?case by (subst vstring_from.simps) simp
next
  case (step n)
  have "vload8 k (a + of_nat n) = Inr ((cs @ [0]) ! n)" using assms(1) step.hyps by (auto simp: readable_def)
  moreover have "cs ! n \<noteq> 0" using assms(2) step.hyps by (metis nth_mem)
  moreover have "unat (of_nat (Suc n) :: u64) = Suc n"
    using assms(1) step.hyps by (intro unat_of_nat_small) (simp add: readable_def)
  then have "of_nat n + 1 \<noteq> (0 :: u64)" by (metis Suc_not_Zero add.commute of_nat_Suc unsigned_0)
  ultimately show ?case
    using step.IH step.hyps
    by (subst vstring_from.simps) (simp add: add.commute nth_append Cons_nth_drop_Suc)
qed

lemma vstring_eq: "readable k a (cs @ [0]) \<Longrightarrow> 0 \<notin> set cs \<Longrightarrow> vstring k a = Inr cs"
  using vstring_readable [of k a cs 0] by (simp add: vstring_def)

text \<open>What can be read depends on the page table and memory only.\<close>

lemma vload8_cong: "satp k = satp k' \<Longrightarrow> mem k = mem k' \<Longrightarrow> vload8 k a = vload8 k' a"
  by (simp only: vload8_def resolve_def page_root_def)

lemma readable_cong: "satp k = satp k' \<Longrightarrow> mem k = mem k' \<Longrightarrow> readable k a cs \<longleftrightarrow> readable k' a cs"
  by (simp add: readable_def vload8_cong [of k k'])

lemma readable_append: "readable k a (cs @ ds) \<Longrightarrow> readable k a cs"
  unfolding readable_def by (simp add: nth_append)

end
