(* ===== verification/Console.thy ===== *)
theory Console
  imports Format Uaccess
begin

text \<open>
  The SBI calls of \<^verbatim>\<open>arch/riscv/kernel/sbi.c\<close>, the timer of \<^verbatim>\<open>clock.c\<close>, \<^verbatim>\<open>printk\<close> of \<^verbatim>\<open>lib/printk.c\<close>,
  and the console files of \<^verbatim>\<open>fs/vfs.c\<close>. The firmware that answers an \<^verbatim>\<open>ecall\<close> and the hardware
  clock are parameters: a \<open>platform\<close> acts on a world of its own and on memory.
\<close>

section \<open>SBI calls\<close>

record sbiret =
  error :: u64
  val :: u64

text \<open>\<open>ecall\<close> gets the registers \<^verbatim>\<open>a7\<close>, \<^verbatim>\<open>a6\<close>, \<^verbatim>\<open>a0\<close> to \<^verbatim>\<open>a5\<close>.\<close>

record 'w platform =
  ecall :: "u64 list \<Rightarrow> mem \<Rightarrow> 'w \<Rightarrow> sbiret \<times> mem \<times> 'w"
  rdtime :: "'w \<Rightarrow> u64 \<times> 'w"

record 'w hosted = kernel +
  world :: 'w

type_synonym ('w, 'a) sbi_op = "('w, 'a) hosted_scheme \<Rightarrow> sbiret \<times> ('w, 'a) hosted_scheme"

definition sbi_ecall ::
  "'w platform \<Rightarrow> u64 \<Rightarrow> u64 \<Rightarrow> u64 \<Rightarrow> u64 \<Rightarrow> u64 \<Rightarrow> u64 \<Rightarrow> u64 \<Rightarrow> u64 \<Rightarrow> ('w, 'a) sbi_op" where
  "sbi_ecall p eid fid arg0 arg1 arg2 arg3 arg4 arg5 k =
     (case ecall p [eid, fid, arg0, arg1, arg2, arg3, arg4, arg5] (mem k) (world k) of
        (r, m, w) \<Rightarrow> (r, k\<lparr>mem := m, world := w\<rparr>))"

definition sbi_set_timer :: "'w platform \<Rightarrow> u64 \<Rightarrow> ('w, 'a) sbi_op" where
  "sbi_set_timer p stime_value = sbi_ecall p 0x54494d45 0 stime_value 0 0 0 0 0"

definition sbi_debug_console_write :: "'w platform \<Rightarrow> u64 \<Rightarrow> u64 \<Rightarrow> u64 \<Rightarrow> ('w, 'a) sbi_op" where
  "sbi_debug_console_write p num_bytes base_addr_lo base_addr_hi =
     sbi_ecall p 0x4442434E 0 num_bytes base_addr_lo base_addr_hi 0 0 0"

definition sbi_debug_console_read :: "'w platform \<Rightarrow> u64 \<Rightarrow> u64 \<Rightarrow> u64 \<Rightarrow> ('w, 'a) sbi_op" where
  "sbi_debug_console_read p num_bytes base_addr_lo base_addr_hi =
     sbi_ecall p 0x4442434E 1 num_bytes base_addr_lo base_addr_hi 0 0 0"

definition sbi_debug_console_write_byte :: "'w platform \<Rightarrow> u8 \<Rightarrow> ('w, 'a) sbi_op" where
  "sbi_debug_console_write_byte p byte = sbi_ecall p 0x4442434E 2 (ucast byte) 0 0 0 0 0"

definition sbi_system_reset :: "'w platform \<Rightarrow> u32 \<Rightarrow> u32 \<Rightarrow> ('w, 'a) sbi_op" where
  "sbi_system_reset p reset_type reset_reason =
     sbi_ecall p 0x53525354 0 (ucast reset_type) (ucast reset_reason) 0 0 0 0"

section \<open>The timer\<close>

definition TIMECLOCK :: u64 where "TIMECLOCK = 5000000"

definition get_cycles :: "'w platform \<Rightarrow> ('w, 'a) hosted_scheme \<Rightarrow> u64 \<times> ('w, 'a) hosted_scheme" where
  "get_cycles p k = (case rdtime p (world k) of (cycles, w) \<Rightarrow> (cycles, k\<lparr>world := w\<rparr>))"

definition clock_set_next_event :: "'w platform \<Rightarrow> ('w, 'a) hosted_scheme \<Rightarrow> ('w, 'a) hosted_scheme" where
  "clock_set_next_event p k =
     (case get_cycles p k of (cycles, k) \<Rightarrow>
        let next_event = cycles + TIMECLOCK in snd (sbi_set_timer p next_event k))"

section \<open>printk\<close>

definition putc :: "'w platform \<Rightarrow> u8 \<Rightarrow> ('w, 'a) hosted_scheme \<Rightarrow> ('w, 'a) hosted_scheme" where
  "putc p c k = snd (sbi_debug_console_write_byte p c k)"

definition kernel_pointers :: "'a kernel_scheme pointers" where
  "kernel_pointers = \<lparr>string_at = (\<lambda>a k. vstring k a), store_at = vstore\<rparr>"

definition printk ::
  "'w platform \<Rightarrow> u8 list \<Rightarrow> u64 list \<Rightarrow> ('w, 'a) hosted_scheme \<Rightarrow> (u32 \<times> ('w, 'a) hosted_scheme) res" where
  "printk p s vl k =
     bindr (vprintfmt kernel_pointers s vl k) (\<lambda>(out, n, k). Inr (n, fold (putc p) out k))"

section \<open>The console files\<close>

text \<open>
  \<^verbatim>\<open>uart_getchar\<close> asks for one byte at the address of its local \<open>ret\<close> until it gets one; the value
  \<open>None\<close> is a loop that never ends.
\<close>

partial_function (option) uart_wait ::
  "'w platform \<Rightarrow> u64 \<Rightarrow> ('w, 'a) hosted_scheme \<Rightarrow> ('w, 'a) hosted_scheme option" where
  "uart_wait p ret k =
     (case sbi_debug_console_read p 1 (ret - PA2VA_OFFSET) 0 k of (sbi_result, k) \<Rightarrow>
        if error sbi_result = 0 \<and> val sbi_result = 1 then Some k else uart_wait p ret k)"

definition uart_getchar ::
  "'w platform \<Rightarrow> u64 \<Rightarrow> ('w, 'a) hosted_scheme \<Rightarrow> (u8 \<times> ('w, 'a) hosted_scheme) res" where
  "uart_getchar p ret k = (case uart_wait p ret k of None \<Rightarrow> Inl No_Return | Some k \<Rightarrow> Inr (mem k ret, k))"

definition stdin_read ::
  "'w platform \<Rightarrow> u64 \<Rightarrow> u64 \<Rightarrow> u64 \<Rightarrow> ('w, 'a) hosted_scheme \<Rightarrow> (u64 \<times> ('w, 'a) hosted_scheme) res" where
  "stdin_read p ret buf len k =
     bindr (for_range 0 len (\<lambda>i k. bindr (uart_getchar p ret k) (\<lambda>(c, k). vstore8 (buf + i) c k)) k) (\<lambda>k.
     Inr (len, k))"

text \<open>
  The writers copy \<open>len\<close> bytes to a local that they do not use, and print \<open>buf\<close> as a format
  without arguments, up to its first zero byte.
\<close>

definition stdout_write ::
  "'w platform \<Rightarrow> u64 \<Rightarrow> u64 \<Rightarrow> ('w, 'a) hosted_scheme \<Rightarrow> (u64 \<times> ('w, 'a) hosted_scheme) res" where
  "stdout_write p buf len k =
     bindr (vload k buf len) (\<lambda>to_print.
     bindr (vstring k buf) (\<lambda>s.
     bindr (printk p s [] k) (\<lambda>(n, k). Inr (scast n, k))))"

definition RED :: "u8 list" where "RED = 0x1B # ascii ''[31m''"
definition CLEAR :: "u8 list" where "CLEAR = 0x1B # ascii ''[0m''"

definition stderr_write ::
  "'w platform \<Rightarrow> u64 \<Rightarrow> u64 \<Rightarrow> ('w, 'a) hosted_scheme \<Rightarrow> (u64 \<times> ('w, 'a) hosted_scheme) res" where
  "stderr_write p buf len k =
     bindr (vload k buf len) (\<lambda>to_print.
     bindr (printk p RED [] k) (\<lambda>(n, k).
     bindr (vstring k buf) (\<lambda>s.
     bindr (printk p s [] k) (\<lambda>(ret, k).
     bindr (printk p CLEAR [] k) (\<lambda>(n, k). Inr (scast ret, k))))))"

end
