(* ===== verification/Format_Correct.thy ===== *)
theory Format_Correct
  imports Format
begin

text \<open>
  What the formatted output promises: the count it returns is the number of characters it put
  out, the digit buffers are large enough, and what the integer conversions print is read back
  by \<^verbatim>\<open>strtol\<close> as the number that was printed, whatever the flags.
\<close>

section \<open>What is put out and what is counted\<close>

lemma put_times: "put_times k c s = (fst s @ replicate k c, snd s + of_nat k)"
  by (induction k arbitrary: s) (auto simp: putch_def add_written_def replicate_app_Cons_same)

lemma put_digits: "put_digits cs s = (fst s @ cs, snd s + of_nat (length cs))"
  by (induction cs arbitrary: s) (auto simp: putch_def add_written_def)

lemma puts_loop: "puts_loop cs p out = (out @ cs, p + of_nat (length cs))"
  by (induction cs arbitrary: p out) auto

lemma puts_bytes: "puts_bytes cs s = (cs, of_nat (length cs))"
proof -
  have "ucast (of_nat n :: u64) = (of_nat n :: u32)" for n
    by (rule bit_word_eqI) (simp add: bit_simps)
  then show ?thesis by (simp add: puts_bytes_def puts_loop)
qed

lemmas printing = putch_def add_written_def repeat_def fill_def put_times put_digits puts_bytes

text \<open>The characters of the two integer conversions, read off their loops.\<close>

lemma print_dec_int_chars:
  "fst (print_dec_int num is_signed flags) =
     (if is_signed \<and> num = 0x8000000000000000 then ascii ''-9223372036854775808''
      else if prec flags = 0 \<and> num = 0 then []
      else let neg = (is_signed \<and> num <s 0);
               num = (if neg then - num else num);
               sgn = (is_signed \<and> (neg \<or> sign flags \<or> spaceflag flags));
               buf = dec_digits num;
               n = of_nat (length buf);
               pr = (if prec flags = - 1 \<and> zeroflag flags then width flags else prec flags)
           in replicate (nat (sint (width flags - smax n pr - (if sgn then 1 else 0)))) 0x20
              @ (if sgn then [if neg then 0x2D else if sign flags then 0x2B else 0x20] else [])
              @ replicate (nat (sint (pr - (if sgn then 1 else 0)) - sint n)) 0x30
              @ rev buf)"
  by (auto simp: print_dec_int_def printing Let_def)

lemma print_hex_chars:
  "fst (print_hex c num flags written) =
     (if prec flags = 0 \<and> num = 0 \<and> c \<noteq> 0x70 then []
      else let prefix = (c = 0x70 \<or> sharpflag flags \<and> num \<noteq> 0);
               two = (if prefix then 2 else 0);
               buf = hex_digits (c = 0x58) num;
               n = of_nat (length buf);
               pr = (if prec flags = - 1 \<and> zeroflag flags then width flags - two else prec flags)
           in replicate (nat (sint (width flags - two - smax n pr))) 0x20
              @ (if prefix then [0x30, if c = 0x58 then 0x58 else 0x78] else [])
              @ replicate (nat (sint pr - sint n)) 0x30
              @ rev buf)"
  by (simp add: print_hex_def printing Let_def)

section \<open>The returned count\<close>

lemma print_dec_int_count:
  "snd (print_dec_int num is_signed flags) = of_nat (length (fst (print_dec_int num is_signed flags)))"
  by (simp add: print_dec_int_def printing Let_def)

lemma print_hex_count:
  "snd (print_hex c num flags written)
   = written + of_nat (length (fst (print_hex c num flags written)))"
  by (simp add: print_hex_def printing Let_def)

lemma conversion_count:
  assumes "conversion ptr flags c written vl m = Inr ((cs, written'), vl', m')"
  shows "written' = written + of_nat (length cs)"
  using assms print_hex_count print_dec_int_count
  by (auto simp: conversion_def puts_wo_nl_def printing Let_def elim!: bindr_InrE
      split: if_split_asm prod.splits) (metis fst_conv snd_conv)+

lemma vprintfmt_loop_count:
  "vprintfmt_loop ptr flags fmt vl written out m = Inr (out', written', m')
   \<Longrightarrow> written = of_nat (length out) \<Longrightarrow> written' = of_nat (length out')"
proof (induction "length fmt" arbitrary: flags fmt vl written out m rule: less_induct)
  case less
  note IH = less.hyps [OF _ _ refl]
  show ?case
  proof (cases fmt)
    case (Cons c p)
    have shorter: "length p < length fmt" "length (tl p) < length fmt"
      "length (snd (strtol p 10)) < length fmt"
      "0x31 \<le> c \<Longrightarrow> c \<le> 0x39 \<Longrightarrow> length (snd (strtol (c # p) 10)) < length fmt"
      using strtol_length [of p 10] strtol_shorter [of c p] by (auto simp: Cons)
    have out: "of_nat (length out) + of_nat (length cs) = (of_nat (length (out @ cs)) :: u32)"
      "of_nat (length out) + 1 = (of_nat (length (out @ [c])) :: u32)" for cs by simp_all
    note step = IH [OF shorter(1)] IH [OF shorter(2)] IH [OF shorter(3)] IH [OF shorter(4)]
    from less.prems show ?thesis
      by (simp only: Cons vprintfmt_loop.simps out split: if_splits)
         (auto simp only: prod.case out elim!: bindr_InrE split: prod.splits
            dest: step dest!: conversion_count)
  qed (use less.prems in auto)
qed

text \<open>C17: The value that \<^verbatim>\<open>vprintfmt\<close> returns is the number of characters it handed to
  \<^verbatim>\<open>putch\<close>, for every format, arguments and memory.\<close>

theorem vprintfmt_returns_count:
  assumes "vprintfmt ptr fmt vl m = Inr (out, written, m')"
  shows "written = of_nat (length out)"
  using vprintfmt_loop_count [of ptr no_flags fmt vl 0 "[]"] assms by (simp add: vprintfmt_def)

section \<open>Digits\<close>

lemma dec_digits_length: "unat num < 10 ^ Suc n \<Longrightarrow> length (dec_digits num) \<le> Suc n"
proof (induction n arbitrary: num)
  case 0
  then have "num div 10 = 0" by (simp add: word_unat_eq_iff unat_div)
  then show ?case by (simp add: dec_digits.simps)
next
  case (Suc n)
  then have "unat (num div 10) < 10 ^ Suc n" by (simp add: unat_div)
  from Suc.IH [OF this] show ?case by (subst dec_digits.simps) simp
qed

lemma hex_digits_length: "unat num < 16 ^ Suc n \<Longrightarrow> length (hex_digits upper num) \<le> Suc n"
proof (induction n arbitrary: num)
  case 0
  then have "drop_bit 4 num = 0" by (simp add: word_unat_eq_iff unat_div drop_bit_eq_div)
  then show ?case by (simp add: hex_digits.simps)
next
  case (Suc n)
  then have "unat (drop_bit 4 num) < 16 ^ Suc n" by (simp add: unat_div drop_bit_eq_div)
  from Suc.IH [OF this] show ?case by (subst hex_digits.simps) simp
qed

text \<open>C18: The digit loops stay inside their buffers, \<^verbatim>\<open>char buf[20]\<close> for decimal and
  \<^verbatim>\<open>char buf[16]\<close> for hexadecimal, and write at least one digit.\<close>

theorem digit_buffers_fit:
  "length (dec_digits num) \<in> {1 .. 20} \<and> length (hex_digits upper num) \<in> {1 .. 16}"
proof -
  have "unat num < 10 ^ Suc 19" "unat num < 16 ^ Suc 15"
    using unsigned_less [of num, where ?'a = nat] by simp_all
  then show ?thesis
    using dec_digits_length [of num 19] hex_digits_length [of num 15 upper]
    by (auto simp: dec_digits.simps [of num] hex_digits.simps [of upper num] Suc_le_eq)
qed

section \<open>Reading back what was printed\<close>

lemma strtol_digits_append:
  assumes "\<forall>c \<in> set cs. \<exists>d. digit_of c = Some d \<and> \<not> base \<le>s d"
  shows "strtol_digits base r (cs @ p)
    = strtol_digits base (foldl (\<lambda>r c. r * scast base + scast (the (digit_of c))) r cs) p"
  using assms by (induction cs arbitrary: r) auto

lemma strtol_digits_stop:
  assumes "\<forall>d. digit_of (chr p) = Some d \<longrightarrow> base \<le>s d"
  shows "strtol_digits base r p = (r, p)"
  using assms by (cases p) (auto simp: chr_def split: option.split)

lemma digit_char:
  fixes n :: u64
  assumes "n < 10"
  shows "digit_of (ucast n + 0x30) = Some (ucast n)" "\<not> (10 :: u32) \<le>s ucast n"
    "scast (ucast n :: u32) = n"
proof -
  have "unat n < 10" using assms by (simp add: word_less_nat_alt)
  then have "unat n \<in> {..<10}" by simp
  then have "n \<in> {0, 1, 2, 3, 4, 5, 6, 7, 8, 9}"
    by (simp add: word_unat_eq_iff lessThan_nat_numeral lessThan_Suc) (elim disjE; simp)
  then show "digit_of (ucast n + 0x30) = Some (ucast n)" "\<not> (10 :: u32) \<le>s ucast n"
    "scast (ucast n :: u32) = n"
    by (auto simp: digit_of_def is_digit_def word_sle_eq)
qed

lemma hex_char:
  fixes n :: u64
  assumes "n < 16"
  shows "digit_of (xdigit upper n) = Some (ucast n)" "\<not> (16 :: u32) \<le>s ucast n"
    "scast (ucast n :: u32) = n"
proof -
  have "unat n < 16" using assms by (simp add: word_less_nat_alt)
  then have "unat n \<in> {..<16}" by simp
  then have *: "n \<in> {0, 1, 2, 3, 4, 5, 6, 7, 8, 9, 10, 11, 12, 13, 14, 15}"
    by (simp add: word_unat_eq_iff lessThan_nat_numeral lessThan_Suc) (elim disjE; simp)
  then show "digit_of (xdigit upper n) = Some (ucast n)"
    by (elim insertE emptyE; cases upper; simp add: digit_of_def is_digit_def xdigit_def)
  show "\<not> (16 :: u32) \<le>s ucast n" "scast (ucast n :: u32) = n"
    using * by (elim insertE emptyE; simp add: word_sle_eq)+
qed

text \<open>A numeral: characters that are all digits of the base, and the value \<^verbatim>\<open>strtol\<close> gives them.\<close>

definition numeral_of :: "u32 \<Rightarrow> u8 list \<Rightarrow> u64 \<Rightarrow> bool" where
  "numeral_of base cs v \<longleftrightarrow> (\<forall>c \<in> set cs. \<exists>d. digit_of c = Some d \<and> \<not> base \<le>s d)
     \<and> foldl (\<lambda>r c. r * scast base + scast (the (digit_of c))) 0 cs = v"

lemma numeral_of_snoc:
  assumes "numeral_of base cs v" "digit_of c = Some d" "\<not> base \<le>s d"
  shows "numeral_of base (cs @ [c]) (v * scast base + scast d)"
  using assms by (auto simp: numeral_of_def)

lemma numeral_of_zeros:
  assumes "numeral_of base cs v" "0 <s base"
  shows "numeral_of base (replicate n 0x30 @ cs) v"
  using assms by (induction n) (auto simp: numeral_of_def digit_of_def is_digit_def word_sless_alt word_sle_eq)

lemma numeral_of_dec: "numeral_of 10 (rev (dec_digits num)) num"
proof (induction num rule: dec_digits.induct)
  case (1 num)
  have "num mod 10 < 10" by (simp add: word_less_nat_alt unat_mod)
  note digit = digit_char [OF this]
  have "numeral_of 10 (rev (dec_digits (num div 10))) (num div 10)" if "num div 10 \<noteq> 0" using 1 that .
  moreover have "numeral_of 10 [] 0" by (simp add: numeral_of_def)
  moreover have "num div 10 * 10 + num mod 10 = num" by (rule div_mult_mod_eq)
  ultimately show ?case
    using numeral_of_snoc [OF _ digit(1,2)] digit(3)
    by (subst dec_digits.simps) (fastforce split: if_splits)
qed

lemma numeral_of_hex: "numeral_of 16 (rev (hex_digits upper num)) num"
proof (induction upper num rule: hex_digits.induct)
  case (1 upper num)
  have mod: "num AND 0xf = num mod 16"
    using take_bit_eq_mask [of 4 num] by (simp add: take_bit_eq_mod mask_eq_decr_exp)
  have "num AND 0xf < 16" by (simp add: mod word_less_nat_alt unat_mod)
  note digit = hex_char [OF this]
  have "numeral_of 16 (rev (hex_digits upper (drop_bit 4 num))) (drop_bit 4 num)"
    if "drop_bit 4 num \<noteq> 0" using 1 that .
  moreover have "numeral_of 16 [] 0" by (simp add: numeral_of_def)
  moreover have "drop_bit 4 num * 16 + (num AND 0xf) = num"
    using div_mult_mod_eq [of num 16] by (simp add: mod drop_bit_eq_div)
  ultimately show ?case
    using numeral_of_snoc [OF _ digit(1,2)] digit(3)
    by (subst hex_digits.simps) (fastforce split: if_splits)
qed

lemma digit_no_separator:
  assumes "digit_of c = Some d"
  shows "\<not> isspace c" "c \<noteq> 0x2D" "c \<noteq> 0x2B"
  using assms
  by (auto simp: digit_of_def is_digit_def isspace_def word_le_nat_alt split: if_splits)

lemma dropWhile_spaces: "isspace x \<Longrightarrow> dropWhile isspace (replicate i x @ p) = dropWhile isspace p"
  by (induction i) auto

lemma strtol_numeral:
  assumes num: "numeral_of base cs v" "cs \<noteq> []" and stop: "\<forall>d. digit_of (chr p) = Some d \<longrightarrow> base \<le>s d"
    and sg: "sg \<in> {[], [0x20], [0x2B], [0x2D]}" and base: "base \<noteq> 0"
  shows "strtol (replicate i 0x20 @ sg @ cs @ p) base = (if sg = [0x2D] then - v else v, p)"
proof -
  obtain c cs' d where c: "cs = c # cs'" "digit_of c = Some d"
    using num by (cases cs) (auto simp: numeral_of_def)
  have digits: "strtol_digits base 0 (c # cs' @ p) = (v, p)"
    using num strtol_digits_append [of cs base 0 p] strtol_digits_stop [OF stop]
    by (simp add: numeral_of_def c)
  have "isspace 0x20" "\<not> isspace 0x2B" "\<not> isspace 0x2D" by (simp_all add: isspace_def)
  with sg digit_no_separator [OF c(2)] base digits show ?thesis
    by (auto simp: strtol_def dropWhile_spaces c(1) chr_def)
qed

lemma strtol_prefixed:
  assumes num: "numeral_of 16 cs v" and stop: "\<forall>d. digit_of (chr p) = Some d \<longrightarrow> 16 \<le>s d"
    and x: "x = 0x78 \<or> x = 0x58"
  shows "strtol (replicate i 0x20 @ 0x30 # x # cs @ p) 0 = (v, p)"
proof -
  have "strtol_digits 16 0 (cs @ p) = (v, p)"
    using num strtol_digits_append [of cs 16 0 p] strtol_digits_stop [OF stop]
    by (simp add: numeral_of_def)
  moreover have "isspace 0x20" "\<not> isspace 0x30" by (simp_all add: isspace_def)
  ultimately show ?thesis using x by (auto simp: strtol_def dropWhile_spaces chr_def)
qed

lemma letter_digit:
  assumes "digit_of c = Some d" "\<not> is_digit c"
  shows "10 \<le>s d"
proof -
  have "unat (ucast c :: u32) = unat c"
    using unsigned_less [of c, where ?'a = nat] by (simp add: unsigned_ucast_eq take_bit_nat_eq_self)
  then have "unat d < 2 ^ 31 \<and> 10 \<le> unat d"
    using assms by (auto simp: digit_of_def word_le_nat_alt unat_sub split: if_splits)
  then show ?thesis by (subst sle_small(1)) (simp_all add: word_le_nat_alt)
qed

text \<open>C19: What \<^verbatim>\<open>print_dec_int\<close> prints for a number, under any width, precision and flags, is
  read back by \<^verbatim>\<open>strtol\<close> as that number, and reading stops where the printed text ends. The only
  exception is the number 0 with precision 0, which prints nothing.\<close>

theorem print_dec_int_roundtrip:
  assumes "prec flags \<noteq> 0 \<or> num \<noteq> 0" and "\<not> is_digit (chr p)"
  shows "strtol (fst (print_dec_int num is_signed flags) @ p) 10 = (num, p)"
proof -
  have stop: "\<forall>d. digit_of (chr p) = Some d \<longrightarrow> 10 \<le>s d"
    using letter_digit assms(2) by blast
  show ?thesis
  proof (cases "is_signed \<and> num = 0x8000000000000000")
    case True
    have "numeral_of 10 (ascii ''9223372036854775808'') 0x8000000000000000"
      by (simp add: numeral_of_def ascii_def digit_of_def is_digit_def word_sle_eq)
    from strtol_numeral [OF this _ stop, of "[0x2D]" 0] True show ?thesis
      by (simp add: print_dec_int_chars ascii_def)
  next
    case False
    have ne: "dec_digits n \<noteq> []" for n by (subst dec_digits.simps) simp
    have num: "numeral_of 10 (replicate k 0x30 @ rev (dec_digits n)) n" for k n
      by (intro numeral_of_zeros numeral_of_dec) (simp add: word_sless_alt)
    show ?thesis
      using strtol_numeral [OF num _ stop, of _ _ "[]"] strtol_numeral [OF num _ stop, of _ _ "[_]"]
        ne assms(1) False
      by (auto simp: print_dec_int_chars Let_def)
  qed
qed

text \<open>C20: What \<^verbatim>\<open>%x\<close>, \<^verbatim>\<open>%X\<close> and \<^verbatim>\<open>%p\<close> print is read back as the number that was printed: with base 0
  when the text carries the \<^verbatim>\<open>0x\<close> prefix, with base 16 when it does not.\<close>

theorem print_hex_roundtrip:
  assumes "prec flags \<noteq> 0 \<or> num \<noteq> 0 \<or> c = 0x70"
    and "digit_of (chr p) = None \<or> 16 \<le>s the (digit_of (chr p))"
  shows "strtol (fst (print_hex c num flags written) @ p) (if c = 0x70 \<or> sharpflag flags \<and> num \<noteq> 0 then 0 else 16)
    = (num, p)"
proof -
  have stop: "\<forall>d. digit_of (chr p) = Some d \<longrightarrow> 16 \<le>s d" using assms(2) by auto
  have ne: "hex_digits u num \<noteq> []" for u by (subst hex_digits.simps) simp
  have num: "numeral_of 16 (replicate k 0x30 @ rev (hex_digits u num)) num" for k u
    by (intro numeral_of_zeros numeral_of_hex) (simp add: word_sless_alt)
  show ?thesis
    using strtol_prefixed [OF num stop] strtol_numeral [OF num _ stop, of _ _ "[]"] ne assms(1)
    by (auto simp: print_hex_chars Let_def)
qed

end
