(* ===== verification/Console_Props.thy ===== *)
theory Console_Props
  imports Console Format_Correct
begin

text \<open>
  The console from the firmware's documented behaviour: \<open>console_out\<close> says that the
  \<^verbatim>\<open>write_byte\<close> call of the debug console extension puts out one byte and leaves memory alone,
  \<open>console_in\<close> that the \<^verbatim>\<open>read\<close> call takes the next byte of the input if there is one.
\<close>

definition console_out :: "'w platform \<Rightarrow> ('w \<Rightarrow> u8 list) \<Rightarrow> bool" where
  "console_out p out \<longleftrightarrow> (\<forall>c m w. \<exists>r w'.
     ecall p [0x4442434E, 2, ucast (c :: u8), 0, 0, 0, 0, 0] m w = (r, m, w') \<and> out w' = out w @ [c])"

definition console_in :: "'w platform \<Rightarrow> ('w \<Rightarrow> u8 list) \<Rightarrow> bool" where
  "console_in p input \<longleftrightarrow> (\<forall>a m w.
     case input w of
       [] \<Rightarrow> \<exists>w'. ecall p [0x4442434E, 1, 1, a, 0, 0, 0, 0] m w = (\<lparr>error = 0, val = 0\<rparr>, m, w') \<and> input w' = []
     | c # cs \<Rightarrow> \<exists>w'. ecall p [0x4442434E, 1, 1, a, 0, 0, 0, 0] m w
         = (\<lparr>error = 0, val = 1\<rparr>, m(a + PA2VA_OFFSET := c), w') \<and> input w' = cs)"

section \<open>Output\<close>

lemma putc_all:
  assumes "console_out p out"
  shows "\<exists>w. fold (putc p) cs k = k\<lparr>world := w\<rparr> \<and> out w = out (world k) @ cs"
proof (induction cs arbitrary: k)
  case Nil
  show ?case by (intro exI [of _ "world k"]) simp
next
  case (Cons c cs)
  obtain r w where w: "ecall p [0x4442434E, 2, ucast c, 0, 0, 0, 0, 0] (mem k) (world k) = (r, mem k, w)"
    "out w = out (world k) @ [c]" using assms by (fastforce simp: console_out_def)
  then have "putc p c k = k\<lparr>world := w\<rparr>"
    by (simp add: putc_def sbi_debug_console_write_byte_def sbi_ecall_def)
  with Cons.IH [of "k\<lparr>world := w\<rparr>"] w(2) show ?case by auto
qed

lemma vprintfmt_loop_plain:
  assumes "0x25 \<notin> set cs" "\<not> in_format flags"
  shows "vprintfmt_loop ptr flags cs vl written out m = Inr (out @ cs, written + of_nat (length cs), m)"
  using assms by (induction cs arbitrary: written out) auto

lemma plain_prefix:
  assumes "0x25 \<notin> set cs" "\<not> in_format flags"
  shows "vprintfmt_loop ptr flags (cs @ fmt) vl written out m
    = vprintfmt_loop ptr flags fmt vl (written + of_nat (length cs)) (out @ cs) m"
  using assms by (induction cs arbitrary: written out) (auto simp: add.assoc)

lemma vprintfmt_plain:
  "0x25 \<notin> set cs \<Longrightarrow> vprintfmt ptr cs vl m = Inr (cs, of_nat (length cs), m)"
  by (simp add: vprintfmt_def vprintfmt_loop_plain no_flags_def fresh_flags_def)

lemma printk_plain:
  assumes "console_out p out" "0x25 \<notin> set cs"
  shows "\<exists>w. printk p cs vl k = Inr (of_nat (length cs), k\<lparr>world := w\<rparr>) \<and> out w = out (world k) @ cs"
  using putc_all [OF assms(1), of cs k] assms(2) by (auto simp: printk_def vprintfmt_plain)

lemma scast_of_nat: "n < 2 ^ 31 \<Longrightarrow> scast (of_nat n :: u32) = (of_nat n :: u64)"
proof -
  assume n: "n < 2 ^ 31"
  then have "unat (of_nat n :: u32) = n" by (intro unat_of_nat_small) simp
  with n have "sint (of_nat n :: u32) = int n" by (subst sint_small) simp_all
  then show ?thesis by (simp add: scast_eq)
qed

text \<open>C21: Writing a zero-terminated text without a per cent sign to standard output prints
  exactly that text, returns its length, and changes nothing in the kernel; the same text sent to
  standard error appears between the two colour sequences.\<close>

theorem console_write_prints:
  assumes "console_out p out" and "readable k buf (cs @ [0])"
    and "0 \<notin> set cs" and "0x25 \<notin> set cs" and "length cs < 2 ^ 31"
  shows "(\<exists>w. stdout_write p buf (of_nat (length cs)) k = Inr (of_nat (length cs), k\<lparr>world := w\<rparr>)
        \<and> out w = out (world k) @ cs)
    \<and> (\<exists>w. stderr_write p buf (of_nat (length cs)) k = Inr (of_nat (length cs), k\<lparr>world := w\<rparr>)
        \<and> out w = out (world k) @ RED @ cs @ CLEAR)"
proof
  have r: "readable (k\<lparr>world := w\<rparr>) buf (cs @ [0])" for w
    using assms(2) by (subst readable_cong [of _ k]) simp_all
  note load = vload_readable [OF readable_append [OF assms(2)]]
  note str = vstring_eq [OF r assms(3)]
  have plain: "0x25 \<notin> set RED" "0x25 \<notin> set CLEAR" by (simp_all add: RED_def CLEAR_def ascii_def)
  note P = printk_plain [OF assms(1)]
  show "\<exists>w. stdout_write p buf (of_nat (length cs)) k = Inr (of_nat (length cs), k\<lparr>world := w\<rparr>)
      \<and> out w = out (world k) @ cs"
    using P [OF assms(4), of "[]" k] str [of "world k"] assms(5)
    by (auto simp: stdout_write_def load scast_of_nat)
  obtain w1 where 1: "\<exists>n. printk p RED [] k = Inr (n, k\<lparr>world := w1\<rparr>)" "out w1 = out (world k) @ RED"
    using P [OF plain(1), of "[]" k] by blast
  obtain w2 where 2: "printk p cs [] (k\<lparr>world := w1\<rparr>) = Inr (of_nat (length cs), k\<lparr>world := w2\<rparr>)"
    "out w2 = out w1 @ cs" using P [OF assms(4), of "[]" "k\<lparr>world := w1\<rparr>"] by auto
  obtain w3 where 3: "\<exists>n. printk p CLEAR [] (k\<lparr>world := w2\<rparr>) = Inr (n, k\<lparr>world := w3\<rparr>)"
    "out w3 = out w2 @ CLEAR" using P [OF plain(2), of "[]" "k\<lparr>world := w2\<rparr>"] by auto
  show "\<exists>w. stderr_write p buf (of_nat (length cs)) k = Inr (of_nat (length cs), k\<lparr>world := w\<rparr>)
      \<and> out w = out (world k) @ RED @ cs @ CLEAR"
    using 1 2 3 str [of w1] assms(5) by (auto simp: stderr_write_def load scast_of_nat)
qed

end
