(* ===== verification/Console_Witness.thy ===== *)
theory Console_Witness
  imports Console_Props
begin

text \<open>Concrete instances of the properties of formatted output and of the console.\<close>

definition paper_platform :: "u8 list platform" where
  "paper_platform = \<lparr>ecall = (\<lambda>r m w. (\<lparr>error = 0, val = 0\<rparr>, m, w @ [ucast (r ! 2)])), rdtime = (\<lambda>w. (0, w))\<rparr>"

definition paper_kernel :: "u8 list hosted" where
  "paper_kernel =
     \<lparr>bud = \<lparr>bsize = 0, bitmap = [], ref_cnt = []\<rparr>,
      mem = (\<lambda>_. 0)(VM_START := 0x68, VM_START + 1 := 0x69),
      task_at = (\<lambda>_. None), vma_at = (\<lambda>_. None), files_at = (\<lambda>_. None), idle = 0, current = 0,
      task = [], nr_tasks = 0, seed = 0,
      cpu = \<lparr>th_ra = 0, th_sp = 0, th_s = [], th_sepc = 0, th_sstatus = 0, th_sscratch = 0\<rparr>,
      satp = 0, stval = 0, scause = 0, world = []\<rparr>"

lemma digits_42: "dec_digits 42 = ascii ''24''"
  by code_simp

lemma print_42:
  "vprintfmt kernel_pointers (ascii ''n=%d'') [42] paper_kernel = Inr (ascii ''n=42'', 4, paper_kernel)"
  by (simp add: vprintfmt_def ascii_def no_flags_def fresh_flags_def conversion_def va_arg_def
      print_dec_int_def int_of_def digits_42 printing smax_def Let_def sint_sbintrunc'
      word_sless_alt word_sle_eq)

lemma vprintfmt_returns_count_witness: "(4 :: u32) = of_nat (length (ascii ''n=42''))"
  by (rule vprintfmt_returns_count [OF print_42])

lemma print_dec_int_roundtrip_witness:
  "strtol (fst (print_dec_int (- 42) True fresh_flags) @ []) 10 = (- 42, [])"
  by (rule print_dec_int_roundtrip) (simp_all add: fresh_flags_def is_digit_def chr_def)

lemma print_hex_roundtrip_witness:
  "strtol (fst (print_hex 0x70 0xBEEF (fresh_flags\<lparr>width := 12\<rparr>) 0) @ ascii '' '') 0 = (0xBEEF, ascii '' '')"
  using print_hex_roundtrip [of "fresh_flags\<lparr>width := 12\<rparr>" "0xBEEF" "0x70" "ascii '' ''" 0]
  by (simp add: fresh_flags_def ascii_def chr_def digit_of_def is_digit_def)

lemma paper_console: "console_out paper_platform (\<lambda>w. w)"
  by (auto simp: console_out_def paper_platform_def bit_simps intro!: bit_word_eqI)

lemma console_write_prints_witness:
  "\<exists>w. stdout_write paper_platform VM_START 2 paper_kernel = Inr (2, paper_kernel\<lparr>world := w\<rparr>)
     \<and> w = [0x68, 0x69]"
proof -
  have "readable paper_kernel VM_START ([0x68, 0x69] @ [0])"
    by (auto simp: readable_def vload8_def resolve_def paper_kernel_def VM_START_def less_Suc_eq)
  then show ?thesis
    using paper_console console_write_prints [of paper_platform "\<lambda>w. w" paper_kernel VM_START "[0x68, 0x69]"]
    by (simp add: paper_kernel_def)
qed

end
