(* ===== verification/Block_Device.thy ===== *)
theory Block_Device
  imports CMemory
begin

text \<open>
  The interface between the file system and the disk: reading and writing one sector. A provider
  keeps its state in \<open>ok\<close>, and \<open>content\<close> is the sector data the state stands for. The file system
  takes the two operations as a parameter and its lemmas rest on these laws only.
\<close>

record 'd sector_io =
  read_sector :: "u64 \<Rightarrow> 'd \<Rightarrow> (u8 list \<times> 'd) res"
  write_sector :: "u64 \<Rightarrow> u8 list \<Rightarrow> 'd \<Rightarrow> 'd res"

locale block_device =
  fixes io :: "'d sector_io"
    and ok :: "'d \<Rightarrow> bool"
    and content :: "'d \<Rightarrow> u64 \<Rightarrow> u8 list"
    and cap :: u64
  assumes content_length: "ok d \<Longrightarrow> n < cap \<Longrightarrow> length (content d n) = 512"
    and read_law: "ok d \<Longrightarrow> n < cap \<Longrightarrow>
      \<exists>d'. read_sector io n d = Inr (content d n, d') \<and> ok d' \<and> content d' = content d"
    and write_law: "ok d \<Longrightarrow> n < cap \<Longrightarrow> length bs = 512 \<Longrightarrow>
      \<exists>d'. write_sector io n bs d = Inr d' \<and> ok d' \<and> content d' = (content d)(n := bs)"
begin

lemma read_sectorE:
  assumes "ok d" "n < cap"
  obtains d' where "read_sector io n d = Inr (content d n, d')" "ok d'" "content d' = content d"
  using read_law [OF assms] by blast

lemma write_sectorE:
  assumes "ok d" "n < cap" "length bs = 512"
  obtains d' where "write_sector io n bs d = Inr d'" "ok d'" "content d' = (content d)(n := bs)"
  using write_law [OF assms] by blast

text \<open>What was written is what is read back, and other sectors keep their data.\<close>

lemma read_after_write:
  assumes "ok d" "n < cap" "k < cap" "length bs = 512"
  shows "\<exists>d' d''. write_sector io n bs d = Inr d'
    \<and> read_sector io k d' = Inr (if k = n then bs else content d k, d'')"
proof -
  obtain d' where "write_sector io n bs d = Inr d'" "ok d'" "content d' = (content d)(n := bs)"
    using write_sectorE assms by metis
  with read_law [of d' k] assms(3) show ?thesis by auto
qed

end

end
