(* ===== verification/Fat32.thy ===== *)
theory Fat32
  imports Kernel_State Block_Device Format
begin

text \<open>
  The FAT32 file system of \<^verbatim>\<open>fs/fat32.c\<close> and the partition scan of \<^verbatim>\<open>fs/mbr.c\<close>. The globals are one
  record: the boot sector, the volume description, the two sector buffers, and the disk behind the
  sector interface, which is a parameter. Reading past the end of a 512-byte buffer is a fault.
\<close>

section \<open>On-disk structures\<close>

record fat32_bpb =
  jmp_boot :: "u8 list"
  oem_name :: "u8 list"
  bytes_per_sec :: u16
  sec_per_clus :: u8
  rsvd_sec_cnt :: u16
  num_fats :: u8
  root_ent_cnt :: u16
  tot_sec16 :: u16
  media :: u8
  fat_sz16 :: u16
  sec_per_trk :: u16
  num_heads :: u16
  hidd_sec :: u32
  tot_sec32 :: u32
  fat_sz32 :: u32
  ext_flags :: u16
  fs_ver :: u16
  root_clus :: u32
  fs_info :: u16
  bk_boot_sec :: u16
  bpb_reserved :: "u8 list"
  drv_num :: u8
  reserved1 :: u8
  boot_sig :: u8
  vol_id :: u32
  vol_lab :: "u8 list"
  fil_sys_type :: "u8 list"
  boot_code :: "u8 list"
  boot_sector_signature :: u16

record fat32_volume =
  first_data_sec :: u64
  first_fat_sec :: u64
  sec_per_cluster :: u64
  fat_sz :: u64

record fat32_dir_entry =
  de_name :: "u8 list"
  de_ext :: "u8 list"
  de_attr :: u8
  de_lcase :: u8
  de_ctime_cs :: u8
  de_ctime :: u16
  de_cdate :: u16
  de_adate :: u16
  de_starthi :: u16
  de_time :: u16
  de_date :: u16
  de_startlow :: u16
  de_size :: u32

text \<open>The fields of a packed struct, read from its bytes.\<close>

definition bytes_at :: "u8 list \<Rightarrow> nat \<Rightarrow> nat \<Rightarrow> u8 list" where
  "bytes_at bs off n = take n (drop off bs)"

definition u8_at :: "u8 list \<Rightarrow> nat \<Rightarrow> u8" where "u8_at bs off = le_word (bytes_at bs off 1)"
definition u16_at :: "u8 list \<Rightarrow> nat \<Rightarrow> u16" where "u16_at bs off = le_word (bytes_at bs off 2)"
definition u32_at :: "u8 list \<Rightarrow> nat \<Rightarrow> u32" where "u32_at bs off = le_word (bytes_at bs off 4)"

definition bpb_of :: "u8 list \<Rightarrow> fat32_bpb" where
  "bpb_of bs =
     \<lparr>jmp_boot = bytes_at bs 0 3, oem_name = bytes_at bs 3 8, bytes_per_sec = u16_at bs 11,
      sec_per_clus = u8_at bs 13, rsvd_sec_cnt = u16_at bs 14, num_fats = u8_at bs 16,
      root_ent_cnt = u16_at bs 17, tot_sec16 = u16_at bs 19, media = u8_at bs 21, fat_sz16 = u16_at bs 22,
      sec_per_trk = u16_at bs 24, num_heads = u16_at bs 26, hidd_sec = u32_at bs 28, tot_sec32 = u32_at bs 32,
      fat_sz32 = u32_at bs 36, ext_flags = u16_at bs 40, fs_ver = u16_at bs 42, root_clus = u32_at bs 44,
      fs_info = u16_at bs 48, bk_boot_sec = u16_at bs 50, bpb_reserved = bytes_at bs 52 12,
      drv_num = u8_at bs 64, reserved1 = u8_at bs 65, boot_sig = u8_at bs 66, vol_id = u32_at bs 67,
      vol_lab = bytes_at bs 71 11, fil_sys_type = bytes_at bs 82 8, boot_code = bytes_at bs 90 420,
      boot_sector_signature = u16_at bs 510\<rparr>"

definition dir_entry_of :: "u8 list \<Rightarrow> fat32_dir_entry" where
  "dir_entry_of bs =
     \<lparr>de_name = bytes_at bs 0 8, de_ext = bytes_at bs 8 3, de_attr = u8_at bs 11, de_lcase = u8_at bs 12,
      de_ctime_cs = u8_at bs 13, de_ctime = u16_at bs 14, de_cdate = u16_at bs 16, de_adate = u16_at bs 18,
      de_starthi = u16_at bs 20, de_time = u16_at bs 22, de_date = u16_at bs 24, de_startlow = u16_at bs 26,
      de_size = u32_at bs 28\<rparr>"

section \<open>State\<close>

record 'd fat32 =
  fat32_header :: fat32_bpb
  fat32_volume :: fat32_volume
  fat32_buf :: "u8 list"
  fat32_table_buf :: "u8 list"
  disk :: 'd

definition SECTOR :: u64 where "SECTOR = 512"

text \<open>The bytes of a buffer from a pointer into it.\<close>

definition buf_bytes :: "u8 list \<Rightarrow> u64 \<Rightarrow> nat \<Rightarrow> u8 list res" where
  "buf_bytes buf off n = (if unat off + n \<le> length buf then Inr (bytes_at buf (unat off) n) else Inl Out_Of_Bounds)"

definition load_buf :: "'d sector_io \<Rightarrow> u64 \<Rightarrow> 'd fat32 \<Rightarrow> 'd fat32 res" where
  "load_buf io n s =
     bindr (read_sector io n (disk s)) (\<lambda>(bs, d). Inr (s\<lparr>fat32_buf := bs, disk := d\<rparr>))"

definition load_table :: "'d sector_io \<Rightarrow> u64 \<Rightarrow> 'd fat32 \<Rightarrow> 'd fat32 res" where
  "load_table io n s =
     bindr (read_sector io n (disk s)) (\<lambda>(bs, d). Inr (s\<lparr>fat32_table_buf := bs, disk := d\<rparr>))"

section \<open>Volume\<close>

definition cluster_to_sector :: "fat32_volume \<Rightarrow> u64 \<Rightarrow> u64" where
  "cluster_to_sector v cl = (cl - 2) * sec_per_cluster v + first_data_sec v"

definition next_cluster :: "'d sector_io \<Rightarrow> u64 \<Rightarrow> 'd fat32 \<Rightarrow> (u32 \<times> 'd fat32) res" where
  "next_cluster io cl s =
     (let fat_offset = cl * 4;
          fat_sector = first_fat_sec (fat32_volume s) + fat_offset div SECTOR
      in bindr (load_table io fat_sector s) (\<lambda>s.
         let index_in_sector = fat_offset mod (SECTOR div 4)
         in bindr (buf_bytes (fat32_table_buf s) index_in_sector 4) (\<lambda>bs. Inr (le_word bs, s))))"

definition load_header :: "'d sector_io \<Rightarrow> u64 \<Rightarrow> 'd fat32 \<Rightarrow> 'd fat32 res" where
  "load_header io lba s =
     bindr (read_sector io lba (disk s)) (\<lambda>(bs, d). Inr (s\<lparr>fat32_header := bpb_of bs, disk := d\<rparr>))"

definition fat32_init :: "'d sector_io \<Rightarrow> u64 \<Rightarrow> u64 \<Rightarrow> 'd fat32 \<Rightarrow> 'd fat32 res" where
  "fat32_init io lba sz s =
     bindr (load_header io lba s) (\<lambda>s.
       let h = fat32_header s;
           first_fat = lba + ucast (rsvd_sec_cnt h)
       in Inr (s\<lparr>fat32_volume :=
            \<lparr>first_data_sec = first_fat + ucast (ucast (num_fats h) * fat_sz32 h :: u32),
             first_fat_sec = first_fat, sec_per_cluster = ucast (sec_per_clus h),
             fat_sz = ucast (fat_sz32 h)\<rparr>\<rparr>))"

definition is_fat32 :: "'d sector_io \<Rightarrow> u64 \<Rightarrow> 'd fat32 \<Rightarrow> (u32 \<times> 'd fat32) res" where
  "is_fat32 io lba s =
     bindr (load_header io lba s) (\<lambda>s.
       if boot_sector_signature (fat32_header s) \<noteq> 0xaa55 then Inr (0, s) else Inr (1, s))"

section \<open>Looking up a file\<close>

fun next_slash_from :: "u32 \<Rightarrow> u8 list \<Rightarrow> u32" where
  "next_slash_from i [] = - 1"
| "next_slash_from i (c # path) = (if c \<noteq> 0x2F then next_slash_from (i + 1) path else i)"

definition next_slash :: "u8 list \<Rightarrow> u32" where
  "next_slash path = next_slash_from 0 path"

definition to_upper_case :: "u8 list \<Rightarrow> u8 list" where
  "to_upper_case str = map (\<lambda>c. if 0x61 \<le> c \<and> c \<le> 0x7A then c - 32 else c) str"

definition FAT_DIRENT_NEVER_USED :: u8 where "FAT_DIRENT_NEVER_USED = 0x00"
definition FAT_DIRENT_DELETED :: u8 where "FAT_DIRENT_DELETED = 0xe5"

text \<open>\<open>fill_name i p name\<close> is the loop from \<open>i\<close> on, with \<open>p\<close> the rest of the path.\<close>

fun fill_name :: "nat \<Rightarrow> u8 list \<Rightarrow> u8 list \<Rightarrow> u8 list" where
  "fill_name i [] filename = filename"
| "fill_name i (c # p) filename = (if i < 8 then fill_name (Suc i) p (filename[i := c]) else filename)"

text \<open>
  The scan of the root directory's first sector. The loop has no bound of its own: past the last
  entry of the buffer it reads whatever follows, here the fault \<open>Out_Of_Bounds\<close>.
\<close>

function scan_entries :: "u8 list \<Rightarrow> u8 list \<Rightarrow> nat \<Rightarrow> (nat \<times> fat32_dir_entry) option res" where
  "scan_entries buf filename i =
     (if length buf < 32 * i + 32 then Inl Out_Of_Bounds
      else let e = dir_entry_of (bytes_at buf (32 * i) 32)
           in if u8_at buf (32 * i) = FAT_DIRENT_NEVER_USED then Inr None
              else if u8_at buf (32 * i) = FAT_DIRENT_DELETED then scan_entries buf filename (i + 1)
              else if de_name e = filename then Inr (Some (i, e))
              else scan_entries buf filename (i + 1))"
  by pat_completeness auto
termination
  by (relation "measure (\<lambda>(buf, filename, i). length buf - 32 * i)") auto

declare scan_entries.simps [simp del]

text \<open>The result, and the path, which \<^verbatim>\<open>to_upper_case\<close> changes in the caller's memory.\<close>

definition fat32_open_file ::
  "'d sector_io \<Rightarrow> u8 list \<Rightarrow> 'd fat32 \<Rightarrow> (fat32_file \<times> u8 list \<times> 'd fat32) res" where
  "fat32_open_file io path s =
     (let path = to_upper_case path;
          filename = fill_name 0 (drop 7 path) (replicate 8 0x20)
      in bindr (load_buf io (first_data_sec (fat32_volume s)) s) (\<lambda>s.
         bindr (scan_entries (fat32_buf s) filename 0) (\<lambda>found.
         Inr (case found of
                None \<Rightarrow> \<lparr>cluster = 0, dir = \<lparr>dir_cluster = 0, dir_index = 0\<rparr>\<rparr>
              | Some (i, e) \<Rightarrow> \<lparr>cluster = push_bit 16 (ucast (de_starthi e)) OR ucast (de_startlow e),
                               dir = \<lparr>dir_cluster = 2, dir_index = of_nat i\<rparr>\<rparr>, path, s))))"

section \<open>File positions\<close>

definition SEEK_SET :: u64 where "SEEK_SET = 0"
definition SEEK_CUR :: u64 where "SEEK_CUR = 1"
definition SEEK_END :: u64 where "SEEK_END = 2"

text \<open>The directory entry of an open file, read again each time, and the size in it.\<close>

definition file_size :: "'d sector_io \<Rightarrow> file_struct \<Rightarrow> 'd fat32 \<Rightarrow> (u32 \<times> 'd fat32) res" where
  "file_size io f s =
     bindr (load_buf io (cluster_to_sector (fat32_volume s) (ucast (dir_cluster (dir (fat32_file_of f))))) s) (\<lambda>s.
     bindr (buf_bytes (fat32_buf s) (32 * ucast (dir_index (dir (fat32_file_of f)))) 32) (\<lambda>bs.
     Inr (de_size (dir_entry_of bs), s)))"

text \<open>The clamping compares signed 64-bit values; the size is never negative there.\<close>

definition fat32_lseek ::
  "'d sector_io \<Rightarrow> file_struct \<Rightarrow> u64 \<Rightarrow> u64 \<Rightarrow> 'd fat32 \<Rightarrow> (u64 \<times> file_struct \<times> 'd fat32) res" where
  "fat32_lseek io f offset whence s =
     bindr (file_size io f s) (\<lambda>(sz, s).
     bindr (if whence = SEEK_SET then Inr offset
            else if whence = SEEK_CUR then Inr (cfo f + offset)
            else if whence = SEEK_END then Inr (ucast sz + offset)
            else Inl Panic) (\<lambda>c.
       let c = (if c <s 0 then 0 else c);
           c = (if ucast sz <s c then ucast sz else c)
       in Inr (c, f\<lparr>cfo := c\<rparr>, s)))"

definition fat32_table_sector_of_cluster :: "fat32_volume \<Rightarrow> u32 \<Rightarrow> u64" where
  "fat32_table_sector_of_cluster v cl = first_fat_sec v + ucast cl div (SECTOR div 4)"

section \<open>Reading and writing\<close>

text \<open>
  \<^verbatim>\<open>fat32_read\<close> and \<^verbatim>\<open>fat32_write\<close> walk the clusters and sectors of a file in the same way. The state
  of the walk: the position in the file (\<^verbatim>\<open>read_cfo\<close>), the bytes transferred (\<^verbatim>\<open>read_len\<close>), the
  local \<open>cfo\<close>, the data read so far, and the file system. The transfer of one piece gets the
  sector, the offset in it, the length, and the number of bytes transferred before.
\<close>

record ('x, 'd) walk =
  w_pos :: u64
  w_len :: u64
  w_cfo :: u64
  w_data :: 'x
  w_fs :: "'d fat32"

type_synonym ('x, 'd) xfer = "u64 \<Rightarrow> u64 \<Rightarrow> u64 \<Rightarrow> u64 \<Rightarrow> 'x \<Rightarrow> 'd fat32 \<Rightarrow> ('x \<times> 'd fat32) res"

text \<open>The body for one sector, and whether the loop goes on.\<close>

definition sector_body ::
  "('x, 'd) xfer \<Rightarrow> u64 \<Rightarrow> u32 \<Rightarrow> u32 \<Rightarrow> ('x, 'd) walk \<Rightarrow> (bool \<times> ('x, 'd) walk) res" where
  "sector_body f max_cfo cl sector w =
     (if w_pos w + SECTOR \<le> w_cfo w then Inr (True, w\<lparr>w_pos := w_pos w + SECTOR\<rparr>)
      else if w_pos w \<ge> max_cfo then Inr (False, w)
      else let pos = w_pos w + (w_cfo w - w_pos w);
               sec_offset = pos mod SECTOR;
               content_left_sec = SECTOR - sec_offset;
               content_left = max_cfo - pos;
               copy_len = min content_left_sec content_left
           in bindr (f (cluster_to_sector (fat32_volume (w_fs w)) (ucast cl) + ucast sector)
                       sec_offset copy_len (w_len w) (w_data w) (w_fs w)) (\<lambda>(x, s).
              Inr (True, w\<lparr>w_len := w_len w + copy_len, w_pos := pos + copy_len, w_cfo := pos + copy_len,
                           w_data := x, w_fs := s\<rparr>)))"

text \<open>The counter is 32 bits wide; \<^verbatim>\<open>sec_per_cluster\<close> comes from one byte.\<close>

function sector_loop :: "('x, 'd) xfer \<Rightarrow> u64 \<Rightarrow> u32 \<Rightarrow> u32 \<Rightarrow> ('x, 'd) walk \<Rightarrow> ('x, 'd) walk res" where
  "sector_loop f max_cfo cl sector w =
     (if ucast sector < sec_per_cluster (fat32_volume (w_fs w))
      then bindr (sector_body f max_cfo cl sector w) (\<lambda>(more, w).
           if \<not> more then Inr w
           else if sector + 1 = 0 then Inl No_Return
           else sector_loop f max_cfo cl (sector + 1) w)
      else Inr w)"
  by pat_completeness auto
termination
  by (relation "measure (\<lambda>(f, max_cfo, cl, sector, w). unat (- 1 - sector))") (auto simp: word_up_less)

declare sector_loop.simps [simp del]

definition fat_entry :: "'d fat32 \<Rightarrow> u32 \<Rightarrow> u32 res" where
  "fat_entry s cl = bindr (buf_bytes (fat32_table_buf s) (4 * ucast cl) 4) (\<lambda>bs. Inr (le_word bs))"

text \<open>
  The walk along the cluster chain. Each cluster moves the position on unless clusters have no
  sectors; then only the chain matters, and after 128 entries of one table sector it has come
  back to one it has visited. So the fuel of the two callers runs out only if the loop never ends.
\<close>

fun cluster_loop :: "nat \<Rightarrow> ('x, 'd) xfer \<Rightarrow> u64 \<Rightarrow> u32 \<Rightarrow> ('x, 'd) walk \<Rightarrow> ('x, 'd) walk res" where
  "cluster_loop 0 f max_cfo cl w = (if cl < 0x0ffffff8 then Inl No_Return else Inr w)"
| "cluster_loop (Suc n) f max_cfo cl w =
     (if cl < 0x0ffffff8
      then bindr (sector_loop f max_cfo cl 0 w) (\<lambda>w.
           if w_pos w \<ge> max_cfo then Inr w
           else bindr (fat_entry (w_fs w) cl) (\<lambda>cl. cluster_loop n f max_cfo cl w))
      else Inr w)"

definition read_piece :: "'d sector_io \<Rightarrow> (u8 list, 'd) xfer" where
  "read_piece io sector sec_offset copy_len read_len out s =
     bindr (load_buf io sector s) (\<lambda>s.
     bindr (buf_bytes (fat32_buf s) sec_offset (unat copy_len)) (\<lambda>bs. Inr (out @ bs, s)))"

text \<open>\<open>src\<close> gives the bytes of the caller's buffer from an offset on.\<close>

definition write_piece :: "'d sector_io \<Rightarrow> (u64 \<Rightarrow> u64 \<Rightarrow> u8 list res) \<Rightarrow> (unit, 'd) xfer" where
  "write_piece io src sector sec_offset copy_len write_len x s =
     bindr (load_buf io sector s) (\<lambda>s.
     bindr (src write_len copy_len) (\<lambda>bs.
     if length (fat32_buf s) < unat sec_offset + length bs then Inl Out_Of_Bounds
     else let s = s\<lparr>fat32_buf := take (unat sec_offset) (fat32_buf s) @ bs
                     @ drop (unat sec_offset + length bs) (fat32_buf s)\<rparr>
          in bindr (write_sector io sector (fat32_buf s) (disk s)) (\<lambda>d. Inr (x, s\<lparr>disk := d\<rparr>))))"

definition file_walk ::
  "'d sector_io \<Rightarrow> ('x, 'd) xfer \<Rightarrow> 'x \<Rightarrow> u64 \<Rightarrow> file_struct \<Rightarrow> 'd fat32 \<Rightarrow> (u64 \<times> 'x \<times> file_struct \<times> 'd fat32) res" where
  "file_walk io f x len fl s =
     bindr (file_size io fl s) (\<lambda>(sz, s).
       if ucast sz \<le>s cfo fl then Inr (0, x, fl, s)
       else let max_cfo = cfo fl + min len (ucast sz - cfo fl)
            in bindr (load_table io (first_fat_sec (fat32_volume s)) s) (\<lambda>s.
               bindr (cluster_loop (unat max_cfo + 129) f max_cfo (cluster (fat32_file_of fl))
                        \<lparr>w_pos = 0, w_len = 0, w_cfo = cfo fl, w_data = x, w_fs = s\<rparr>) (\<lambda>w.
               Inr (w_len w, w_data w, fl\<lparr>cfo := w_cfo w\<rparr>, w_fs w))))"

definition fat32_read ::
  "'d sector_io \<Rightarrow> u64 \<Rightarrow> file_struct \<Rightarrow> 'd fat32 \<Rightarrow> (u64 \<times> u8 list \<times> file_struct \<times> 'd fat32) res" where
  "fat32_read io len = file_walk io (read_piece io) [] len"

definition fat32_write ::
  "'d sector_io \<Rightarrow> (u64 \<Rightarrow> u64 \<Rightarrow> u8 list res) \<Rightarrow> u64 \<Rightarrow> file_struct \<Rightarrow> 'd fat32 \<Rightarrow> (u64 \<times> file_struct \<times> 'd fat32) res" where
  "fat32_write io src len fl s =
     bindr (file_walk io (write_piece io src) () len fl s) (\<lambda>(n, _, fl, s). Inr (n, fl, s))"

section \<open>Partitions\<close>

record partition_entry =
  pe_status :: u8
  pe_chs_first :: "u8 list"
  pe_type :: u8
  pe_chs_last :: "u8 list"
  lba_first_sector :: u32
  sector_count :: u32

record mbr_layout =
  mbr_boot_code :: "u8 list"
  partition_table :: "partition_entry list"
  mbr_signature :: "u8 list"

definition partition_entry_of :: "u8 list \<Rightarrow> partition_entry" where
  "partition_entry_of bs =
     \<lparr>pe_status = u8_at bs 0, pe_chs_first = bytes_at bs 1 3, pe_type = u8_at bs 4,
      pe_chs_last = bytes_at bs 5 3, lba_first_sector = u32_at bs 8, sector_count = u32_at bs 12\<rparr>"

definition mbr_of :: "u8 list \<Rightarrow> mbr_layout" where
  "mbr_of bs =
     \<lparr>mbr_boot_code = bytes_at bs 0 446,
      partition_table = map (\<lambda>i. partition_entry_of (bytes_at bs (446 + 16 * i) 16)) [0 ..< 4],
      mbr_signature = bytes_at bs 510 2\<rparr>"

end
