(* ===== verification/Files.thy ===== *)
theory Files
  imports Console Fat32
begin

text \<open>
  Open files: \<^verbatim>\<open>fs/fs.c\<close> and the calls through the function pointers of a \<^verbatim>\<open>struct file\<close>. The state
  is the kernel with its console world and the file system. What the kernel does not contain, the
  firmware, the disk, and the addresses the linker chooses, is a \<open>board\<close>.
\<close>

section \<open>State and environment\<close>

record ('w, 'd) system = "'w hosted" +
  fs :: "'d fat32"

record ('w, 'd) board =
  firmware :: "'w platform"
  disk_io :: "'d sector_io"
  char_slot :: u64
  ramdisk :: u64
  swapper_pg_dir :: u64
  ret_from_fork :: u64
  dummy_entry :: u64

definition MAX_PATH_LENGTH :: nat where "MAX_PATH_LENGTH = 80"
definition MAX_FILE_NUMBER :: nat where "MAX_FILE_NUMBER = 16"
definition FILE_READABLE :: u32 where "FILE_READABLE = 1"
definition FILE_WRITABLE :: u32 where "FILE_WRITABLE = 2"
definition FS_TYPE_FAT32 :: u32 where "FS_TYPE_FAT32 = 1"
definition FS_TYPE_EXT2 :: u32 where "FS_TYPE_EXT2 = 2"
definition ERROR_FILE_NOT_OPEN :: u64 where "ERROR_FILE_NOT_OPEN = 255"

text \<open>\<^verbatim>\<open>sizeof(struct files_struct)\<close>: 16 files of 136 bytes.\<close>

definition files_struct_size :: u64 where "files_struct_size = 16 * 136"

section \<open>The file table of a process\<close>

definition no_fat32_file :: fat32_file where
  "no_fat32_file = \<lparr>cluster = 0, dir = \<lparr>dir_cluster = 0, dir_index = 0\<rparr>\<rparr>"

text \<open>A name in \<^verbatim>\<open>path\<close>, the rest of which is zero.\<close>

definition path_field :: "u8 list \<Rightarrow> u8 list" where
  "path_field name = name @ replicate (MAX_PATH_LENGTH - length name) 0"

definition zero_file :: file_struct where
  "zero_file = \<lparr>opened = 0, perms = 0, cfo = 0, fs_type = 0, fat32_file_of = no_fat32_file,
     f_lseek = Op_Null, f_write = Op_Null, f_read = Op_Null, f_path = path_field []\<rparr>"

definition stdin_file :: file_struct where
  "stdin_file = zero_file\<lparr>opened := 1, perms := FILE_READABLE, cfo := SEEK_SET, f_read := Op_Stdin,
     f_path := path_field (ascii ''stdin'')\<rparr>"

definition stdout_file :: file_struct where
  "stdout_file = zero_file\<lparr>opened := 1, perms := FILE_WRITABLE, cfo := SEEK_SET, f_write := Op_Stdout,
     f_path := path_field (ascii ''stdout'')\<rparr>"

definition stderr_file :: file_struct where
  "stderr_file = zero_file\<lparr>opened := 1, perms := FILE_WRITABLE, cfo := SEEK_SET, f_write := Op_Stderr,
     f_path := path_field (ascii ''stderr'')\<rparr>"

definition file_init :: "'a kernel_scheme \<Rightarrow> (u64 \<times> 'a kernel_scheme) res" where
  "file_init k =
     bindr (alloc_pages ((files_struct_size + PGSIZE - 1) div PGSIZE) (bud k)) (\<lambda>(ret, b).
     if ret = 0 then Inl Null_Pointer
     else let fds = replicate MAX_FILE_NUMBER zero_file;
              fds = fds[0 := stdin_file, 1 := stdout_file, 2 := stderr_file]
          in Inr (ret, k\<lparr>bud := b, files_at := (files_at k)(ret \<mapsto> \<lparr>fd_array = fds\<rparr>)\<rparr>))"

section \<open>Opening\<close>

text \<open>\<^verbatim>\<open>memcmp\<close> of a caller's string with a constant stops at the first difference.\<close>

fun starts_with :: "'a kernel_scheme \<Rightarrow> u64 \<Rightarrow> u8 list \<Rightarrow> bool res" where
  "starts_with k a [] = Inr True"
| "starts_with k a (c # cs) =
     bindr (vload8 k a) (\<lambda>x. if x \<noteq> c then Inr False else starts_with k (a + 1) cs)"

definition get_fs_type :: "'a kernel_scheme \<Rightarrow> u64 \<Rightarrow> u32 res" where
  "get_fs_type k filename =
     bindr (starts_with k filename (ascii ''/fat32/'')) (\<lambda>yes.
     if yes then Inr FS_TYPE_FAT32
     else bindr (starts_with k filename (ascii ''/ext2/'')) (\<lambda>yes.
          Inr (if yes then FS_TYPE_EXT2 else - 1)))"

text \<open>The copy of the path, with its terminator, into the 80 bytes of the field.\<close>

definition copy_path :: "u8 list \<Rightarrow> u8 list \<Rightarrow> u8 list res" where
  "copy_path name field =
     (if length field < length name + 1 then Inl Out_Of_Bounds
      else Inr (name @ 0 # drop (length name + 1) field))"

text \<open>\<^verbatim>\<open>to_upper_case\<close> on the caller's own string stores the letters it changes.\<close>

fun upper_case_at :: "u64 \<Rightarrow> u8 list \<Rightarrow> 'a kernel_scheme \<Rightarrow> 'a kernel_scheme res" where
  "upper_case_at a [] k = Inr k"
| "upper_case_at a (c # cs) k =
     bindr (if 0x61 \<le> c \<and> c \<le> 0x7A then vstore8 a (c - 32) k else Inr k) (upper_case_at (a + 1) cs)"

definition file_not_found :: "u8 list" where
  "file_not_found = RED @ ascii ''File not found: %s'' @ [0x0A] @ CLEAR"
definition unsupported_ext2 :: "u8 list" where
  "unsupported_ext2 = RED @ ascii ''Unsupport ext2'' @ [0x0A] @ CLEAR"
definition unknown_fs :: "u8 list" where
  "unknown_fs = RED @ ascii ''Unknown fs type: %s'' @ [0x0A] @ CLEAR"

definition file_open ::
  "('w, 'd) board \<Rightarrow> file_struct \<Rightarrow> u64 \<Rightarrow> u32 \<Rightarrow> ('w, 'd, 'a) system_scheme
   \<Rightarrow> (u32 \<times> file_struct \<times> ('w, 'd, 'a) system_scheme) res" where
  "file_open b fl path flags k =
     (let fl = fl\<lparr>opened := 1, perms := flags, cfo := 0\<rparr>
      in bindr (get_fs_type k path) (\<lambda>fst.
         let fl = fl\<lparr>fs_type := fst\<rparr>
         in bindr (vstring k path) (\<lambda>name.
            bindr (copy_path name (f_path fl)) (\<lambda>pf.
            let fl = fl\<lparr>f_path := pf\<rparr>
            in if fs_type fl = FS_TYPE_FAT32
               then bindr (upper_case_at path name k) (\<lambda>k.
                    bindr (fat32_open_file (disk_io b) name (fs k)) (\<lambda>(ff, _, f).
                    let fl = fl\<lparr>fat32_file_of := ff, f_lseek := Op_Fat32, f_write := Op_Fat32, f_read := Op_Fat32\<rparr>;
                        k = k\<lparr>fs := f\<rparr>
                    in if cluster ff = 0
                       then bindr (printk (firmware b) file_not_found [path] k) (\<lambda>(n, k). Inr (- 1, fl, k))
                       else Inr (0, fl, k)))
               else if fs_type fl = FS_TYPE_EXT2
               then bindr (printk (firmware b) unsupported_ext2 [] k) (\<lambda>(n, k). Inr (- 1, fl, k))
               else bindr (printk (firmware b) unknown_fs [path] k) (\<lambda>(n, k). Inr (- 1, fl, k))))))"

section \<open>Calls through the function pointers\<close>

text \<open>A null pointer is a jump to address 0. Only the functions named here are ever stored.\<close>

definition call_lseek ::
  "('w, 'd) board \<Rightarrow> file_struct \<Rightarrow> u64 \<Rightarrow> u64 \<Rightarrow> ('w, 'd, 'a) system_scheme
   \<Rightarrow> (u64 \<times> file_struct \<times> ('w, 'd, 'a) system_scheme) res" where
  "call_lseek b fl offset whence k =
     (case f_lseek fl of
        Op_Fat32 \<Rightarrow> bindr (fat32_lseek (disk_io b) fl offset whence (fs k)) (\<lambda>(r, fl, f).
          Inr (r, fl, k\<lparr>fs := f\<rparr>))
      | _ \<Rightarrow> Inl Null_Pointer)"

definition call_read ::
  "('w, 'd) board \<Rightarrow> file_struct \<Rightarrow> u64 \<Rightarrow> u64 \<Rightarrow> ('w, 'd, 'a) system_scheme
   \<Rightarrow> (u64 \<times> file_struct \<times> ('w, 'd, 'a) system_scheme) res" where
  "call_read b fl buf len k =
     (case f_read fl of
        Op_Fat32 \<Rightarrow> bindr (fat32_read (disk_io b) len fl (fs k)) (\<lambda>(r, out, fl, f).
          bindr (vstore buf out (k\<lparr>fs := f\<rparr>)) (\<lambda>k. Inr (r, fl, k)))
      | Op_Stdin \<Rightarrow> bindr (stdin_read (firmware b) (char_slot b) buf len k) (\<lambda>(r, k). Inr (r, fl, k))
      | _ \<Rightarrow> Inl Null_Pointer)"

definition call_write ::
  "('w, 'd) board \<Rightarrow> file_struct \<Rightarrow> u64 \<Rightarrow> u64 \<Rightarrow> ('w, 'd, 'a) system_scheme
   \<Rightarrow> (u64 \<times> file_struct \<times> ('w, 'd, 'a) system_scheme) res" where
  "call_write b fl buf len k =
     (case f_write fl of
        Op_Fat32 \<Rightarrow> bindr (fat32_write (disk_io b) (\<lambda>off n. vload k (buf + off) n) len fl (fs k)) (\<lambda>(r, fl, f).
          Inr (r, fl, k\<lparr>fs := f\<rparr>))
      | Op_Stdout \<Rightarrow> bindr (stdout_write (firmware b) buf len k) (\<lambda>(r, k). Inr (r, fl, k))
      | Op_Stderr \<Rightarrow> bindr (stderr_write (firmware b) buf len k) (\<lambda>(r, k). Inr (r, fl, k))
      | _ \<Rightarrow> Inl Null_Pointer)"

end
