(* ===== verification/Process.thy ===== *)
theory Process
  imports Files Vm Sched
begin

text \<open>
  Creating processes, from \<^verbatim>\<open>arch/riscv/kernel/proc.c\<close>: loading the program image, the first
  threads, and fork with copy on write. The image is an ELF file in the kernel's memory; a task
  lies at the start of a page whose end is its kernel stack.
\<close>

section \<open>ELF structures\<close>

record elf64_ehdr =
  e_ident :: "u8 list"
  e_type :: u16
  e_machine :: u16
  e_version :: u32
  e_entry :: u64
  e_phoff :: u64
  e_shoff :: u64
  e_flags :: u32
  e_ehsize :: u16
  e_phentsize :: u16
  e_phnum :: u16
  e_shentsize :: u16
  e_shnum :: u16
  e_shstrndx :: u16

record elf64_phdr =
  p_type :: u32
  p_flags :: u32
  p_offset :: u64
  p_vaddr :: u64
  p_paddr :: u64
  p_filesz :: u64
  p_memsz :: u64
  p_align :: u64

definition EI_NIDENT :: nat where "EI_NIDENT = 16"
definition PT_LOAD :: u32 where "PT_LOAD = 1"
definition PF_X :: u32 where "PF_X = 1"
definition PF_W :: u32 where "PF_W = 2"
definition PF_R :: u32 where "PF_R = 4"

definition ehdr_in :: "mem \<Rightarrow> u64 \<Rightarrow> elf64_ehdr" where
  "ehdr_in m a =
     \<lparr>e_ident = load m a EI_NIDENT, e_type = rd16 m (a + 16), e_machine = rd16 m (a + 18),
      e_version = rd32 m (a + 20), e_entry = rd64 m (a + 24), e_phoff = rd64 m (a + 32),
      e_shoff = rd64 m (a + 40), e_flags = rd32 m (a + 48), e_ehsize = rd16 m (a + 52),
      e_phentsize = rd16 m (a + 54), e_phnum = rd16 m (a + 56), e_shentsize = rd16 m (a + 58),
      e_shnum = rd16 m (a + 60), e_shstrndx = rd16 m (a + 62)\<rparr>"

definition phdr_in :: "mem \<Rightarrow> u64 \<Rightarrow> elf64_phdr" where
  "phdr_in m a =
     \<lparr>p_type = rd32 m a, p_flags = rd32 m (a + 4), p_offset = rd64 m (a + 8), p_vaddr = rd64 m (a + 16),
      p_paddr = rd64 m (a + 24), p_filesz = rd64 m (a + 32), p_memsz = rd64 m (a + 40), p_align = rd64 m (a + 48)\<rparr>"

section \<open>Loading the image\<close>

definition segment_flags :: "u32 \<Rightarrow> u64" where
  "segment_flags pf =
     (let flags = 0;
          flags = (if pf AND PF_R \<noteq> 0 then flags OR VM_READ else flags);
          flags = (if pf AND PF_W \<noteq> 0 then flags OR VM_WRITE else flags)
      in if pf AND PF_X \<noteq> 0 then flags OR VM_EXEC else flags)"

definition load_segment :: "u64 \<Rightarrow> u64 \<Rightarrow> u64 \<Rightarrow> 'a kernel_scheme \<Rightarrow> 'a kernel_scheme res" where
  "load_segment t phdrs i k =
     (let ph = phdr_in (mem k) (phdrs + 56 * i)
      in if p_type ph \<noteq> PT_LOAD then Inr k
         else bindr (do_mmap t (p_vaddr ph) (p_memsz ph) (p_offset ph) (p_filesz ph) (segment_flags (p_flags ph)) k)
                (\<lambda>(_, k). Inr k))"

definition load_elf :: "u64 \<Rightarrow> u64 \<Rightarrow> 'a kernel_scheme \<Rightarrow> 'a kernel_scheme res" where
  "load_elf img t k =
     (let ehdr = ehdr_in (mem k) img;
          phdrs = img + e_phoff ehdr
      in bindr (for_range 0 (ucast (e_phnum ehdr)) (load_segment t phdrs) k) (\<lambda>k.
         bindr (deref (task_at k) t) (\<lambda>tk.
         Inr (k\<lparr>task_at := (task_at k)(t \<mapsto> tk\<lparr>thread := (thread tk)\<lparr>th_sepc := e_entry ehdr\<rparr>\<rparr>)\<rparr>))))"

section \<open>The first threads\<close>

definition NR_TASKS :: u64 where "NR_TASKS = 1 + 1"
definition TASK_RUNNING :: u64 where "TASK_RUNNING = 0"
definition SSTATUS_SUM :: u64 where "SSTATUS_SUM = push_bit 18 1"

text \<open>A task in a page that was just allocated has the fields that the page's bytes happen to be.\<close>

definition task_in :: "mem \<Rightarrow> u64 \<Rightarrow> task_struct" where
  "task_in m a =
     \<lparr>task_state = rd64 m a, counter = rd64 m (a + 8), priority = rd64 m (a + 16), pid = rd64 m (a + 24),
      thread = \<lparr>th_ra = rd64 m (a + 32), th_sp = rd64 m (a + 40),
        th_s = map (\<lambda>i. rd64 m (a + 48 + 8 * of_nat i)) [0 ..< 12],
        th_sepc = rd64 m (a + 144), th_sstatus = rd64 m (a + 152), th_sscratch = rd64 m (a + 160)\<rparr>,
      files = rd64 m (a + 168), pgd = rd64 m (a + 176), mmap = rd64 m (a + 184)\<rparr>"

definition put_task :: "u64 \<Rightarrow> (task_struct \<Rightarrow> task_struct) \<Rightarrow> 'a kernel_scheme \<Rightarrow> 'a kernel_scheme res" where
  "put_task t f k = bindr (deref (task_at k) t) (\<lambda>tk. Inr (k\<lparr>task_at := (task_at k)(t \<mapsto> f tk)\<rparr>))"

text \<open>A new page directory with the kernel's entries.\<close>

definition new_pgd :: "u64 \<Rightarrow> 'a kernel_scheme \<Rightarrow> (u64 \<times> 'a kernel_scheme) res" where
  "new_pgd swapper k =
     bindr (alloc_on k) (\<lambda>(root, k).
     bindr (copy_to_page root root swapper PGSIZE k) (\<lambda>k. Inr (root, k)))"

definition init_idle :: "'a kernel_scheme \<Rightarrow> 'a kernel_scheme res" where
  "init_idle k =
     (let k = k\<lparr>seed := srand 2024, nr_tasks := 0\<rparr>
      in bindr (alloc_on k) (\<lambda>(p, k).
         if p = 0 then Inl Null_Pointer
         else let t = (task_in (mem k) p)\<lparr>task_state := TASK_RUNNING, counter := 0, priority := 0, pid := 0\<rparr>;
                  k = k\<lparr>idle := p, task_at := (task_at k)(p \<mapsto> t), current := p\<rparr>
              in bindr (aset (task k) (0 :: u64) p) (\<lambda>ts. Inr (k\<lparr>task := ts, nr_tasks := nr_tasks k + 1\<rparr>))))"

definition init_task :: "('w, 'd) board \<Rightarrow> u64 \<Rightarrow> 'a kernel_scheme \<Rightarrow> 'a kernel_scheme res" where
  "init_task b i k =
     bindr (alloc_on k) (\<lambda>(p, k).
     bindr (aset (task k) (nr_tasks k) p) (\<lambda>ts.
     let k = k\<lparr>task := ts\<rparr>
     in if p = 0 then Inl Null_Pointer
        else bindr (aget (task k) i) (\<lambda>ti.
        case rand_priority (seed k) of (prio, sd) \<Rightarrow>
        let t = task_in (mem k) p;
            th = (thread t)\<lparr>th_ra := dummy_entry b, th_sp := ti + PGSIZE, th_sstatus := SSTATUS_SUM,
                            th_sscratch := USER_END\<rparr>;
            t = t\<lparr>task_state := TASK_RUNNING, counter := 0, priority := prio, pid := nr_tasks k, thread := th\<rparr>;
            k = k\<lparr>seed := sd, task_at := (task_at k)(p \<mapsto> t)\<rparr>
        in bindr (file_init k) (\<lambda>(ret, k).
           bindr (put_task p (\<lambda>t. t\<lparr>files := ret\<rparr>) k) (\<lambda>k.
           bindr (new_pgd (swapper_pg_dir b) k) (\<lambda>(root, k).
           bindr (put_task p (\<lambda>t. t\<lparr>pgd := root - PA2VA_OFFSET\<rparr>) k) (\<lambda>k.
           bindr (load_elf (ramdisk b) p k) (\<lambda>k.
           bindr (do_mmap p (USER_END - PGSIZE) PGSIZE 0 0 (VM_READ OR VM_WRITE OR VM_ANON) k) (\<lambda>(_, k).
           Inr (k\<lparr>nr_tasks := nr_tasks k + 1\<rparr>))))))))))"

definition task_init :: "('w, 'd) board \<Rightarrow> ('w, 'a) hosted_scheme \<Rightarrow> ('w, 'a) hosted_scheme res" where
  "task_init b k =
     bindr (init_idle k) (\<lambda>k.
     bindr (for_range 1 NR_TASKS (init_task b) k) (\<lambda>k.
     bindr (printk (firmware b) (ascii ''...task_init done!'' @ [0x0A]) [] k) (\<lambda>(_, k). Inr k)))"

section \<open>Registers saved at a trap\<close>

text \<open>\<^verbatim>\<open>struct pt_regs\<close> at an address: 32 registers, then \<^verbatim>\<open>sepc\<close> and \<^verbatim>\<open>sstatus\<close>.\<close>

definition REG_IDX_SP :: u64 where "REG_IDX_SP = 2"
definition REG_IDX_A0 :: u64 where "REG_IDX_A0 = 10"
definition REG_IDX_A1 :: u64 where "REG_IDX_A1 = 11"
definition REG_IDX_A2 :: u64 where "REG_IDX_A2 = 12"
definition REG_IDX_A7 :: u64 where "REG_IDX_A7 = 17"

definition reg_slot :: "u64 \<Rightarrow> u64 \<Rightarrow> u64" where "reg_slot regs i = regs + 8 * i"
definition sepc_slot :: "u64 \<Rightarrow> u64" where "sepc_slot regs = reg_slot regs 32"
definition sstatus_slot :: "u64 \<Rightarrow> u64" where "sstatus_slot regs = reg_slot regs 33"

definition get_x :: "u64 \<Rightarrow> u64 \<Rightarrow> 'a kernel_scheme \<Rightarrow> u64" where
  "get_x regs i k = rd64 (mem k) (reg_slot regs i)"

definition set_x :: "u64 \<Rightarrow> u64 \<Rightarrow> u64 \<Rightarrow> 'a kernel_scheme \<Rightarrow> 'a kernel_scheme" where
  "set_x regs i v k = k\<lparr>mem := wr64 (mem k) (reg_slot regs i) v\<rparr>"

definition advance_sepc :: "u64 \<Rightarrow> 'a kernel_scheme \<Rightarrow> 'a kernel_scheme" where
  "advance_sepc regs k = k\<lparr>mem := wr64 (mem k) (sepc_slot regs) (rd64 (mem k) (sepc_slot regs) + 4)\<rparr>"

section \<open>Fork\<close>

text \<open>One page of an area: shared read-only between parent and child, with one more reference.\<close>

definition fork_page :: "u64 \<Rightarrow> u64 \<Rightarrow> u64 \<Rightarrow> 'a kernel_scheme \<Rightarrow> 'a kernel_scheme res" where
  "fork_page parent root addr k =
     (let pte = find_pte parent addr (mem k)
      in if pte = 0 then Inl Null_Pointer
         else let e = rd64 (mem k) pte
              in if e AND PERM_V = 0 then Inr k
                 else let pa = push_bit 12 (drop_bit 10 e AND PPN_MASK)
                      in bindr (get_page (pa + PA2VA_OFFSET) (bud k)) (\<lambda>(err, b).
                         if err \<noteq> 0 then Inl Panic
                         else let e = e AND NOT PERM_W;
                                  k = k\<lparr>bud := b, mem := wr64 (mem k) pte e\<rparr>
                              in on_machine (create_mapping root addr pa PGSIZE ((e AND 0xff) AND NOT PERM_W)) k))"

text \<open>
  The loop over the pages of an area. There are \<open>2 ^ 52\<close> page addresses; after that many rounds
  the address has come back and the loop never ends.
\<close>

function fork_pages :: "nat \<Rightarrow> u64 \<Rightarrow> u64 \<Rightarrow> u64 \<Rightarrow> u64 \<Rightarrow> 'a kernel_scheme \<Rightarrow> 'a kernel_scheme res" where
  "fork_pages n parent root stop addr k =
     (if addr < stop
      then if n = 0 then Inl No_Return
           else bindr (fork_page parent root addr k) (fork_pages (n - 1) parent root stop (addr + PGSIZE))
      else Inr k)"
  by pat_completeness auto
termination
  by (relation "measure (\<lambda>(n, parent, root, stop, addr, k). n)") auto

text \<open>The loop over the areas; \<open>2 ^ 64\<close> rounds only if the list is a cycle.\<close>

function fork_areas :: "nat \<Rightarrow> u64 \<Rightarrow> u64 \<Rightarrow> u64 \<Rightarrow> u64 \<Rightarrow> 'a kernel_scheme \<Rightarrow> 'a kernel_scheme res" where
  "fork_areas n child parent root vma k =
     (if vma = 0 then Inr k
      else if n = 0 then Inl No_Return
      else bindr (deref (vma_at k) vma) (\<lambda>v.
           bindr (do_mmap child (vm_start v) (vm_end v - vm_start v) (vm_pgoff v) (vm_filesz v) (vm_flags v) k) (\<lambda>(_, k).
           bindr (fork_pages (2 ^ 52) parent root (vm_end v) (PGROUNDDOWN (vm_start v)) k) (\<lambda>k.
           bindr (deref (vma_at k) vma) (\<lambda>v.
           fork_areas (n - 1) child parent root (vm_next v) k)))))"
  by pat_completeness auto
termination
  by (relation "measure (\<lambda>(n, child, parent, root, vma, k). n)") auto

declare fork_pages.simps [simp del] fork_areas.simps [simp del]

text \<open>The child resumes at \<^verbatim>\<open>__ret_from_fork\<close> with the copy of the parent's frame on its own stack.\<close>

definition child_frame :: "u64 \<Rightarrow> u64 \<Rightarrow> u64 \<Rightarrow> u64" where
  "child_frame cur child regs =
     (let sp_offset = cur + PGSIZE - regs in child + PGSIZE - sp_offset)"

definition do_fork :: "('w, 'd) board \<Rightarrow> u64 \<Rightarrow> 'a kernel_scheme \<Rightarrow> (u64 \<times> 'a kernel_scheme) res" where
  "do_fork b regs k =
     bindr (alloc_on k) (\<lambda>(child, k).
     bindr (copy_to_page child child (current k) PGSIZE k) (\<lambda>k.
     bindr (deref (task_at k) (current k)) (\<lambda>cur.
     let k = k\<lparr>task_at := (task_at k)(child \<mapsto> cur\<lparr>pid := nr_tasks k, mmap := 0\<rparr>)\<rparr>
     in bindr (new_pgd (swapper_pg_dir b) k) (\<lambda>(root, k).
        bindr (put_task child (\<lambda>t. t\<lparr>pgd := root - PA2VA_OFFSET\<rparr>) k) (\<lambda>k.
        bindr (fork_areas (2 ^ 64) child (pgd cur + PA2VA_OFFSET) root (mmap cur) k) (\<lambda>k.
        let child_regs = child_frame (current k) child regs
        in bindr (put_task child (\<lambda>t. t\<lparr>thread := (thread t)\<lparr>th_ra := ret_from_fork b, th_sp := child_regs,
                    th_sstatus := SSTATUS_SUM, th_sscratch := th_sscratch (cpu k)\<rparr>\<rparr>) k) (\<lambda>k.
           let k = set_x child_regs REG_IDX_SP child_regs k;
               k = set_x child_regs REG_IDX_A0 0 k;
               k = advance_sepc child_regs k
           in bindr (aset (task k) (nr_tasks k) child) (\<lambda>ts.
              let k = k\<lparr>task := ts, nr_tasks := nr_tasks k + 1\<rparr>
              in bindr (deref (task_at k) child) (\<lambda>c.
                 Inr (pid c, set_x regs REG_IDX_A0 (pid c) k))))))))))"

end
