(* ===== verification/Fork_Correct.thy ===== *)
theory Fork_Correct
  imports Process Vm_Correct
begin

text \<open>
  What fork does with the pages of an area: parent and child map the same frame without write
  permission and the frame has one more reference. The two page tables have the kernel's tables
  in common, so the parent's page table is looked at without the kernel half of its root.
\<close>

section \<open>The user half of a page table\<close>

definition user_view :: "u64 \<Rightarrow> mem \<Rightarrow> mem" where
  "user_view r m = (\<lambda>x. if 2048 \<le> x - r \<and> x - r < 4096 then 0 else m x)"

lemma slot_byte:
  assumes "i < 512" "j < 8"
  shows "unat (slot t i + of_nat j - t) = 8 * unat i + j"
proof -
  have eq: "slot t i + of_nat j - t = 8 * i + of_nat j" by (simp add: slot_def)
  have "unat i < 512" using assms(1) by (simp add: word_less_nat_alt)
  moreover have "unat (of_nat j :: u64) = j" using assms(2) by (intro unat_of_nat_small) simp
  ultimately show ?thesis unfolding eq using assms(2) by (simp add: unat_word_ariths)
qed

lemma rd64_zeros: "(\<And>j. j < 8 \<Longrightarrow> m (a + of_nat j) = 0) \<Longrightarrow> rd64 m a = 0"
proof -
  assume "\<And>j. j < 8 \<Longrightarrow> m (a + of_nat j) = 0"
  then have "load m a 8 = replicate 8 0" by (intro nth_equalityI) simp_all
  then show ?thesis by (simp add: rd64_def numeral_eq_Suc)
qed

lemma user_view_rd:
  assumes "page_aligned r" "page_aligned t" "i < 512"
  shows "rd64 (user_view r m) (slot t i) = (if t = r \<and> 256 \<le> i then 0 else rd64 m (slot t i))"
proof (cases "t = r")
  case True
  have byte: "2048 \<le> slot t i + of_nat j - r \<longleftrightarrow> 256 \<le> i" "slot t i + of_nat j - r < 4096"
    if "j < 8" for j
  proof -
    have "unat (slot t i + of_nat j - r) = 8 * unat i + j" using slot_byte [OF assms(3) that, of t] True by simp
    moreover have "unat i < 512" using assms(3) by (simp add: word_less_nat_alt)
    ultimately show "2048 \<le> slot t i + of_nat j - r \<longleftrightarrow> 256 \<le> i" "slot t i + of_nat j - r < 4096"
      using that by (auto simp: word_le_nat_alt word_less_nat_alt)
  qed
  show ?thesis
  proof (cases "256 \<le> i")
    case True
    then show ?thesis using byte \<open>t = r\<close> by (simp add: rd64_zeros user_view_def)
  next
    case False
    then have "load (user_view r m) (slot t i) 8 = load m (slot t i) 8"
      using byte by (intro load_cong) (simp add: user_view_def)
    with False show ?thesis by (simp add: rd64_def)
  qed
next
  case False
  have "rd64 (user_view r m) (slot t i) = rd64 m (slot t i)"
    using page_bytes_apart [OF assms(2,1) False] by (intro rd64_page_frame [OF assms(3)]) (simp add: user_view_def)
  with False show ?thesis by simp
qed

lemma user_view_write:
  assumes "page_aligned r" "page_aligned t" "i < 512" "t \<noteq> r"
  shows "user_view r (wr64 m (slot t i) v) = wr64 (user_view r m) (slot t i) v"
proof
  fix x
  show "user_view r (wr64 m (slot t i) v) x = wr64 (user_view r m) (slot t i) v x"
  proof (cases "x - t < 4096")
    case True
    then have "\<not> x - r < 4096" using page_bytes_apart [of t r x] assms by simp
    then show ?thesis by (simp add: user_view_def wr64_def store_def)
  next
    case False
    then show ?thesis using wr_slot_frame [OF assms(3)] by (simp add: user_view_def)
  qed
qed

text \<open>The user half of a well-formed page table translates the user's addresses.\<close>

lemma find_pte_user:
  assumes wf: "wf_pt (user_view r m) r U" and U: "\<forall>p \<in> U. page_aligned p \<and> p \<noteq> 0" and va: "vpn2 va < 256"
  shows "find_pte r va m = (case table_at (user_view r m) r [vpn2 va, vpn1 va] of None \<Rightarrow> 0
    | Some t \<Rightarrow> slot t (vpn0 va))"
proof -
  have r: "page_aligned r" using wf_ptD(1) [OF wf, of "[]" r] U by (simp add: is_path_def)
  have e2: "rd64 (user_view r m) (slot r (vpn2 va)) = rd64 m (slot r (vpn2 va))"
    using user_view_rd [OF r r vpn_less(3)] va by (simp add: linorder_not_less [symmetric])
  show ?thesis
  proof (cases "sub_table (user_view r m) r (vpn2 va)")
    case None
    then show ?thesis using e2 by (auto simp: find_pte_def sub_table_def Let_def split: if_splits)
  next
    case (Some t)
    have "page_aligned t" using wf_ptD(1) [OF wf, of "[vpn2 va]" t] Some U by (simp add: is_path_def)
    moreover have "t \<noteq> r" using wf_ptD(2) [OF wf, of "[vpn2 va]" t "[]"] Some by (auto simp: is_path_def)
    ultimately have "rd64 (user_view r m) (slot t (vpn1 va)) = rd64 m (slot t (vpn1 va))"
      by (simp add: user_view_rd r)
    then show ?thesis using Some e2 by (auto simp: find_pte_def sub_table_def Let_def split: if_splits)
  qed
qed

lemma translate_user:
  assumes wf: "wf_pt (user_view r m) r U" and U: "\<forall>p \<in> U. page_aligned p \<and> p \<noteq> 0" and va: "vpn2 va < 256"
  shows "translate m r va = translate (user_view r m) r va"
proof (cases "table_at (user_view r m) r [vpn2 va, vpn1 va]")
  case None
  then show ?thesis
    using find_pte_user [OF wf U va] translate_eq [OF wf U, of va]
    by (simp add: translate_def del: table_at.simps)
next
  case (Some t)
  have l: "is_path [vpn2 va, vpn1 va]" by (simp add: is_path_def)
  have r: "page_aligned r" using wf_ptD(1) [OF wf, of "[]" r] U by (simp add: is_path_def)
  have t: "t \<in> U" using wf_ptD(1) [OF wf l Some] .
  have "t \<noteq> r" using wf_ptD(2) [OF wf l Some, of "[]"] by (auto simp: is_path_def)
  then have "rd64 (user_view r m) (slot t (vpn0 va)) = rd64 m (slot t (vpn0 va))"
    using t U by (simp add: user_view_rd r)
  moreover have "slot t (vpn0 va) \<noteq> 0" using t U slot_nonzero by simp
  ultimately show ?thesis
    using Some find_pte_user [OF wf U va] translate_eq [OF wf U, of va]
    by (simp add: translate_def Let_def del: table_at.simps)
qed

section \<open>One more reference\<close>

lemma get_page_ok:
  assumes inv: "mm_inv K b" and q: "(q, n) \<in> allocated K b" and small: "ref_cnt b ! q \<noteq> - 1"
  shows "\<exists>b'. get_page (page_va q) b = Inr (0, b') \<and> mm_inv K b' \<and> allocated K b' = allocated K b
    \<and> ref_cnt b' = (ref_cnt b)[q := ref_cnt b ! q + 1]"
proof -
  have bi: "buddy_inv K b" and co: "counts_ok K b" using inv by (simp_all add: mm_inv_def)
  note f = buddy_inv_facts [OF bi]
  have qK: "q < 2 ^ K" by (rule allocated_bound [OF bi q])
  then have us: "unat (of_nat q :: u64) = q" using pow2_small [OF f(1)] by (intro unat_small) simp
  have nz: "ref_cnt b ! q \<noteq> 0" using co q qK by (force simp: counts_ok_def)
  have pfn: "PHYS2PFN (VA2PA (page_va q)) = of_nat q"
    unfolding page_va_def VA2PA_PA2VA by (rule pfn_roundtrip [OF bi qK])
  define b' where "b' = b\<lparr>ref_cnt := (ref_cnt b)[q := ref_cnt b ! q + 1]\<rparr>"
  have al: "allocated K b' = allocated K b" by (simp add: b'_def allocated_def)
  have "ref_cnt b ! q + 1 \<noteq> 0" using small by (simp add: add_eq_0_iff2)
  then have "counts_ok K b'"
    using co nz qK f(7) unfolding counts_ok_def al by (auto simp: b'_def nth_list_update)
  moreover have "buddy_inv K b'" using bi by (simp add: b'_def buddy_inv_def)
  ultimately have "mm_inv K b'" by (simp add: mm_inv_def)
  moreover have "get_page (page_va q) b = Inr (0, b')"
    using us qK f(7) nz by (simp add: get_page_def pfn Let_def page_ref_inc_def b'_def)
  ultimately show ?thesis using al by (auto simp: b'_def)
qed

text \<open>What every allocation keeps, extending a page table keeps.\<close>

lemma map_pages_keeps:
  assumes alloc: "\<And>s p s'. P s \<Longrightarrow> alloc s = Inr (p, s') \<Longrightarrow> P s'" and mem: "\<And>s m. P (s\<lparr>mem := m\<rparr>) = P s"
  shows "P s \<Longrightarrow> map_page alloc r va pa perm s = Inr (c, s') \<Longrightarrow> P s'"
proof -
  have nt: "P s'" if "P s" "next_table alloc a s = Inr (t, s')" for a t s s'
    using that alloc by (auto simp: next_table_def Let_def mem elim!: bindr_InrE split: if_splits)
  assume s: "P s" and run: "map_page alloc r va pa perm s = Inr (c, s')"
  obtain pmd s1 where 1: "next_table alloc (slot r (vpn2 va)) s = Inr (pmd, s1)"
    using run by (auto simp: map_page_def)
  show "P s'"
  proof (cases "pmd = 0")
    case True
    then show ?thesis using nt [OF s 1] run 1 by (simp add: map_page_def)
  next
    case False
    then obtain pte s2 where 2: "next_table alloc (slot pmd (vpn1 va)) s1 = Inr (pte, s2)"
      using run 1 by (auto simp: map_page_def)
    show ?thesis using nt [OF nt [OF s 1] 2] run 1 2 False by (auto simp: map_page_def mem split: if_splits)
  qed
qed

text \<open>Allocation keeps the blocks in use and their counts.\<close>

definition keeps_counts :: "nat \<Rightarrow> buddy \<Rightarrow> machine \<Rightarrow> bool" where
  "keeps_counts K b s \<longleftrightarrow> alloc_ok K s \<and> allocated K b \<subseteq> allocated K (bud s)
     \<and> (\<forall>(q, n) \<in> allocated K b. ref_cnt (bud s) ! q = ref_cnt b ! q)"

lemma keeps_counts_alloc:
  assumes "keeps_counts K b s" "kalloc_page s = Inr (p, s')"
  shows "keeps_counts K b s'"
proof -
  have ok: "alloc_ok K s" using assms(1) by (simp add: keeps_counts_def)
  show ?thesis
  proof (cases "\<exists>q < 2 ^ K. q \<notin> pages_in_use K (bud s)")
    case True
    then obtain f b' where f: "kalloc (bud s) = Inr (page_va f, b')" "f \<notin> pages_in_use K (bud s)"
      "mm_inv K b'" "pages_in_use K b' = insert f (pages_in_use K (bud s))"
      "allocated K b' = insert (f, 0) (allocated K (bud s))" "ref_cnt b' = (ref_cnt (bud s))[f := 1]"
      using kalloc_success [OF ok] by blast
    have s': "s' = s\<lparr>bud := b'\<rparr>" using assms(2) f(1) by (simp add: kalloc_page_def)
    have "q \<noteq> f" if "(q, n) \<in> allocated K (bud s)" for q n
      using that f(2) by (force simp: pages_in_use_def pages_def)
    then have keep: "ref_cnt b' ! q = ref_cnt (bud s) ! q" if "(q, n) \<in> allocated K (bud s)" for q n
      using that f(6) by (metis nth_list_update_neq)
    have old: "(q, n) \<in> allocated K (bud s)" "ref_cnt (bud s) ! q = ref_cnt b ! q"
      if "(q, n) \<in> allocated K b" for q n
      using assms(1) that by (auto simp: keeps_counts_def)
    have "ref_cnt b' ! q = ref_cnt b ! q" if "(q, n) \<in> allocated K b" for q n
      using keep [OF old(1) [OF that]] old(2) [OF that] by simp
    then show ?thesis using assms(1) f(3-5) s' by (auto simp: keeps_counts_def alloc_ok_def)
  next
    case False
    then have "kalloc_page s = Inr (0, s)" using kalloc_full [OF ok] by (simp add: kalloc_page_def)
    then show ?thesis using assms by simp
  qed
qed

lemma keeps_counts_map:
  "keeps_counts K b s \<Longrightarrow> map_page kalloc_page r va pa perm s = Inr (c, s') \<Longrightarrow> keeps_counts K b s'"
  by (rule map_pages_keeps [where P = "keeps_counts K b"], erule keeps_counts_alloc)
     (simp_all add: keeps_counts_def alloc_ok_def)

section \<open>Parent and child\<close>

text \<open>
  A child's address space beside the parent's: the tables of the parent's user half are its own.
\<close>

definition fork_inv :: "nat \<Rightarrow> u64 \<Rightarrow> u64 \<Rightarrow> machine \<Rightarrow> bool" where
  "fork_inv K rp rc s \<longleftrightarrow> address_space K rc s
     \<and> wf_pt (user_view rp (mem s)) rp (used_pages K s)
     \<and> tables (user_view rp (mem s)) rp \<inter> tables (mem s) rc = {}"

lemma fork_invD:
  assumes "fork_inv K rp rc s"
  shows "alloc_ok K s" "wf_pt (user_view rp (mem s)) rp (used_pages K s)" "wf_pt (mem s) rc (used_pages K s)"
    "\<forall>p \<in> used_pages K s. page_aligned p \<and> p \<noteq> 0" "page_aligned rp" "rp \<in> used_pages K s"
    "\<And>t. t \<in> tables (user_view rp (mem s)) rp \<Longrightarrow> t \<in> used_pages K s \<and> t \<notin> tables (mem s) rc"
    "\<And>t. t \<in> tables (mem s) rc \<Longrightarrow> t \<in> used_pages K s"
proof -
  show ok: "alloc_ok K s" and wf: "wf_pt (user_view rp (mem s)) rp (used_pages K s)"
    and wfc: "wf_pt (mem s) rc (used_pages K s)"
    using assms by (simp_all add: fork_inv_def address_space_def)
  show U: "\<forall>p \<in> used_pages K s. page_aligned p \<and> p \<noteq> 0" by (rule kp.used_page [OF ok])
  show rp: "rp \<in> used_pages K s" using wf_ptD(1) [OF wf, of "[]" rp] by (simp add: is_path_def)
  show "page_aligned rp" using rp U by simp
  show "t \<in> used_pages K s \<and> t \<notin> tables (mem s) rc" if "t \<in> tables (user_view rp (mem s)) rp" for t
    using that assms wf_ptD(1) [OF wf] unfolding fork_inv_def tables_def by blast
  show "t \<in> used_pages K s" if "t \<in> tables (mem s) rc" for t
    using that wf_ptD(1) [OF wfc] unfolding tables_def by blast
qed

text \<open>Memory that agrees on the tables of the user half gives the same user half.\<close>

lemma same_user_half:
  assumes wf: "wf_pt (user_view r m) r U" and U: "\<forall>p \<in> U. page_aligned p \<and> p \<noteq> 0"
    and same: "\<forall>t \<in> tables (user_view r m) r. \<forall>x. x - t < 4096 \<longrightarrow> m' x = m x"
  shows "\<And>l. is_path l \<Longrightarrow> table_at (user_view r m') r l = table_at (user_view r m) r l"
    and "wf_pt (user_view r m') r U"
    and "tables (user_view r m') r = tables (user_view r m) r"
    and "vpn2 va < 256 \<Longrightarrow> translate m' r va = translate m r va"
    and "vpn2 va < 256 \<Longrightarrow> find_pte r va m' = find_pte r va m"
proof -
  have r: "page_aligned r" using wf_ptD(1) [OF wf, of "[]" r] U by (simp add: is_path_def)
  have eq: "\<forall>t \<in> tables (user_view r m) r. \<forall>i < 512.
      rd64 (user_view r m') (slot t i) = rd64 (user_view r m) (slot t i)"
  proof (intro ballI allI impI)
    fix t i assume t: "t \<in> tables (user_view r m) r" and i: "(i :: u64) < 512"
    then have "t \<in> U" using wf_ptD(1) [OF wf] unfolding tables_def by blast
    moreover have "rd64 m' (slot t i) = rd64 m (slot t i)"
      using same t by (intro rd64_page_frame [OF i]) simp
    ultimately show "rd64 (user_view r m') (slot t i) = rd64 (user_view r m) (slot t i)"
      using U i by (simp add: user_view_rd r)
  qed
  note e = same_entries [OF wf U eq]
  show tab: "table_at (user_view r m') r l = table_at (user_view r m) r l" if "is_path l" for l
    using e(1) that .
  show wf': "wf_pt (user_view r m') r U" by (rule e(2))
  show "tables (user_view r m') r = tables (user_view r m) r" using tab unfolding tables_def by auto
  show "translate m' r va = translate m r va" if "vpn2 va < 256"
    using e(3) [of va] translate_user [OF wf U that] translate_user [OF wf' U that] by simp
  show "find_pte r va m' = find_pte r va m" if "vpn2 va < 256"
    using find_pte_user [OF wf U that] find_pte_user [OF wf' U that] tab [of "[vpn2 va, vpn1 va]"]
    by (simp add: is_path_def del: table_at.simps)
qed

text \<open>
  What sharing pages does to the rest: no table of the parent is added, the child's new tables are
  fresh pages, and pages in use that are not tables keep their contents.
\<close>

definition fork_ext :: "nat \<Rightarrow> u64 \<Rightarrow> u64 \<Rightarrow> machine \<Rightarrow> machine \<Rightarrow> bool" where
  "fork_ext K rp rc s s' \<longleftrightarrow> fork_inv K rp rc s' \<and> used_pages K s \<subseteq> used_pages K s'
     \<and> tables (user_view rp (mem s')) rp = tables (user_view rp (mem s)) rp
     \<and> tables (mem s') rc \<subseteq> tables (mem s) rc \<union> (used_pages K s' - used_pages K s)
     \<and> (\<forall>p \<in> used_pages K s. p \<notin> tables (user_view rp (mem s)) rp \<and> p \<notin> tables (mem s) rc
          \<longrightarrow> (\<forall>x. x - p < 4096 \<longrightarrow> mem s' x = mem s x))"

lemma fork_ext_refl: "fork_inv K rp rc s \<Longrightarrow> fork_ext K rp rc s s"
  by (simp add: fork_ext_def)

lemma fork_ext_inv: "fork_ext K rp rc s s' \<Longrightarrow> fork_inv K rp rc s'"
  by (simp add: fork_ext_def)

lemma fork_ext_trans:
  assumes 1: "fork_ext K rp rc s s'" and 2: "fork_ext K rp rc s' s''"
  shows "fork_ext K rp rc s s''"
proof -
  have "mem s'' x = mem s x" if p: "p \<in> used_pages K s" "p \<notin> tables (user_view rp (mem s)) rp"
    "p \<notin> tables (mem s) rc" "x - p < 4096" for p x
  proof -
    have "p \<in> used_pages K s'" "p \<notin> tables (user_view rp (mem s')) rp" "p \<notin> tables (mem s') rc"
      using 1 p unfolding fork_ext_def by auto
    then have "mem s'' x = mem s' x" using 2 p(4) unfolding fork_ext_def by blast
    also have "\<dots> = mem s x" using 1 p unfolding fork_ext_def by blast
    finally show ?thesis .
  qed
  then have frame: "\<forall>p \<in> used_pages K s. p \<notin> tables (user_view rp (mem s)) rp \<and> p \<notin> tables (mem s) rc
      \<longrightarrow> (\<forall>x. x - p < 4096 \<longrightarrow> mem s'' x = mem s x)" by blast
  have "used_pages K s \<subseteq> used_pages K s'" "used_pages K s' \<subseteq> used_pages K s''"
    "tables (mem s') rc \<subseteq> tables (mem s) rc \<union> (used_pages K s' - used_pages K s)"
    "tables (mem s'') rc \<subseteq> tables (mem s') rc \<union> (used_pages K s'' - used_pages K s')"
    using 1 2 unfolding fork_ext_def by blast+
  then have "used_pages K s \<subseteq> used_pages K s''"
    "tables (mem s'') rc \<subseteq> tables (mem s) rc \<union> (used_pages K s'' - used_pages K s)" by blast+
  with frame show ?thesis using 1 2 by (simp add: fork_ext_def)
qed

text \<open>Mapping a page in the child leaves the parent's user half alone.\<close>

lemma child_map:
  assumes inv: "fork_inv K rp rc s" and room: "2 \<le> free_pages_left K s" and perm: "perm AND PERM_V \<noteq> 0"
  shows "\<exists>s'. create_mapping rc va pa PGSIZE perm s = Inr s' \<and> fork_ext K rp rc s s'
    \<and> (\<forall>va'. translate (mem s') rc va' = (if vpns va' = vpns va then Some (leaf_entry pa perm)
                                           else translate (mem s) rc va'))
    \<and> (\<forall>va'. vpn2 va' < 256 \<longrightarrow> translate (mem s') rp va' = translate (mem s) rp va'
         \<and> find_pte rp va' (mem s') = find_pte rp va' (mem s))
    \<and> keeps_counts K (bud s) s' \<and> free_pages_left K s \<le> free_pages_left K s' + 2"
proof -
  note d = fork_invD [OF inv]
  obtain s' where s': "map_page kalloc_page rc va pa perm s = Inr (True, s')" "kp.extends K rc s s' 2"
    "\<forall>va'. translate (mem s') rc va' =
       (if vpns va' = vpns va then Some (leaf_entry pa perm) else translate (mem s) rc va')"
    using kp.map_page_ok [of K rc s perm va pa] inv room perm
    unfolding fork_inv_def address_space_good free_pages_room by blast
  have sub: "used_pages K s \<subseteq> used_pages K s'" "free_pages_left K s \<le> free_pages_left K s' + 2"
    and tab: "tables (mem s') rc \<subseteq> tables (mem s) rc \<union> (used_pages K s' - used_pages K s)"
    and frame: "\<And>x. (\<forall>t \<in> tables (mem s') rc. \<not> x - t < 4096) \<Longrightarrow> mem s' x = mem s x"
    and good: "address_space K rc s'"
    using s'(2) by (simp_all add: kp.extends_def address_space_good free_pages_room)
  have ok': "alloc_ok K s'" using good by (simp add: address_space_def)
  have apart: "t \<notin> tables (mem s') rc" if "t \<in> tables (user_view rp (mem s)) rp" for t
    using d(7) [OF that] tab by blast
  have "mem s' x = mem s x" if t: "t \<in> tables (user_view rp (mem s)) rp" "x - t < 4096" for t x
  proof (rule frame, rule ballI)
    fix u assume u: "u \<in> tables (mem s') rc"
    then have "page_aligned u" using tab d(8) sub(1) kp.used_page [OF ok'] by blast
    moreover have "page_aligned t" using d(7) [OF t(1)] d(4) by blast
    ultimately show "\<not> x - u < 4096" using page_bytes_apart [of t u x] t u apart by blast
  qed
  then have same: "\<forall>t \<in> tables (user_view rp (mem s)) rp. \<forall>x. x - t < 4096 \<longrightarrow> mem s' x = mem s x" by blast
  note e = same_user_half [OF d(2,4) same]
  have "wf_pt (user_view rp (mem s')) rp (used_pages K s')" using e(2) sub(1) unfolding wf_pt_def by blast
  then have inv': "fork_inv K rp rc s'" using good e(3) apart unfolding fork_inv_def by blast
  have "mem s' x = mem s x" if p: "p \<in> used_pages K s" "p \<notin> tables (mem s) rc" "x - p < 4096" for p x
  proof (rule frame, rule ballI)
    fix u assume u: "u \<in> tables (mem s') rc"
    then have "page_aligned u" "u \<noteq> p" using tab d(8) sub(1) kp.used_page [OF ok'] p(1,2) by blast+
    then show "\<not> x - u < 4096" using page_bytes_apart [of p u x] p d(4) by blast
  qed
  then have "fork_ext K rp rc s s'"
    using inv' sub(1) tab e(3) unfolding fork_ext_def by blast
  moreover have "keeps_counts K (bud s) s"
    using d(1) by (simp add: keeps_counts_def)
  then have "keeps_counts K (bud s) s'" using s'(1) by (rule keeps_counts_map)
  moreover have "create_mapping rc va pa PGSIZE perm s = Inr s'"
    unfolding create_mapping_def create_mapping_one using s'(1) by simp
  ultimately show ?thesis using s'(3) e(4,5) sub(2) by blast
qed

text \<open>Changing a leaf of the parent leaves the child's address space alone.\<close>

lemma parent_write:
  assumes inv: "fork_inv K rp rc s" and va: "vpn2 va < 256" and e: "translate (mem s) rp va = Some e"
    and v: "v AND PERM_V \<noteq> 0" and b: "alloc_ok K \<lparr>bud = b, mem = mem s\<rparr>" "pages_in_use K b = pages_in_use K (bud s)"
  defines "s' \<equiv> \<lparr>bud = b, mem = wr64 (mem s) (find_pte rp va (mem s)) v\<rparr>"
  shows "fork_ext K rp rc s s'"
    and "translate (mem s') rc va' = translate (mem s) rc va'"
    and "vpn2 va' < 256 \<Longrightarrow> translate (mem s') rp va' = (if vpns va' = vpns va then Some v else translate (mem s) rp va')"
    and "vpn2 va' < 256 \<Longrightarrow> find_pte rp va' (mem s') = find_pte rp va' (mem s)"
proof -
  note d = fork_invD [OF inv]
  define uv where "uv = user_view rp (mem s)"
  have l0: "is_path [vpn2 va, vpn1 va]" by (simp add: is_path_def)
  obtain t where t: "table_at uv rp [vpn2 va, vpn1 va] = Some t"
    using e translate_user [OF d(2,4) va] translate_eq [OF d(2,4), of va]
    by (auto simp: uv_def simp del: table_at.simps split: option.splits)
  have tt: "t \<in> tables uv rp" using t l0 unfolding tables_def by blast
  have tU: "t \<in> used_pages K s" "page_aligned t" "t \<notin> tables (mem s) rc"
    using d(4,7) tt by (auto simp: uv_def)
  have trp: "t \<noteq> rp" using wf_ptD(2) [OF d(2) l0, of t "[]"] t by (auto simp: is_path_def uv_def)
  have pte: "find_pte rp va (mem s) = slot t (vpn0 va)"
    using find_pte_user [OF d(2,4) va] t by (simp add: uv_def del: table_at.simps)
  define m' where "m' = wr64 (mem s) (slot t (vpn0 va)) v"
  have s': "mem s' = m'" "bud s' = b" "used_pages K s' = used_pages K s"
    using b(2) by (simp_all add: s'_def pte m'_def used_pages_def)
  have uv': "user_view rp m' = wr64 uv (slot t (vpn0 va)) v"
    unfolding m'_def uv_def using user_view_write [OF d(5) tU(2) _ trp] by simp
  note w = translate_leaf_write [OF d(2) [folded uv_def] d(4) t, where v = v, folded uv']
  have c: "\<forall>u \<in> tables (mem s) rc. \<forall>i < 512. rd64 m' (slot u i) = rd64 (mem s) (slot u i)"
    unfolding m'_def using d(4,8) tU by (intro ballI allI impI rd_slot_other) auto
  note cs = same_entries [OF d(3,4) c]
  have tabs: "tables m' rc = tables (mem s) rc" "tables (user_view rp m') rp = tables uv rp"
    using cs(1) w(1) unfolding tables_def by auto
  have "sub_table m' p i = None" if p: "p \<in> page_pool K - used_pages K s" and i: "i < 512" for p i
  proof -
    have "sub_table m' p i = sub_table (mem s) p i"
      unfolding m'_def using p i tU kp.pool_page by (intro sub_table_other) auto
    then show ?thesis using inv p i by (simp add: fork_inv_def address_space_def clean_def)
  qed
  then have "address_space K rc s'"
    using b(1) cs(2) s' by (simp add: address_space_def alloc_ok_def clean_def)
  then have inv': "fork_inv K rp rc s'"
    using inv w(2) tabs s' by (simp add: fork_inv_def uv_def)
  have "m' x = mem s x" if "p \<in> used_pages K s" "p \<noteq> t" "x - p < 4096" for p x
    unfolding m'_def using that page_bytes_apart [of p t x] d(4) tU(2) by (intro wr_slot_frame) auto
  then show "fork_ext K rp rc s s'"
    using inv' tabs s' tt by (auto simp: fork_ext_def uv_def)
  show "translate (mem s') rc va' = translate (mem s) rc va'" using cs(3) s' by simp
  show "translate (mem s') rp va' = (if vpns va' = vpns va then Some v else translate (mem s) rp va')"
    if va': "vpn2 va' < 256"
    using w(3) [of va'] v translate_user [OF w(2) d(4) va'] translate_user [OF d(2,4) va'] s'
    by (simp add: uv_def)
  show "find_pte rp va' (mem s') = find_pte rp va' (mem s)" if va': "vpn2 va' < 256"
    using find_pte_user [OF w(2) d(4) va'] find_pte_user [OF d(2,4) va'] w(1) [of "[vpn2 va', vpn1 va']"] s'
    by (simp add: uv_def is_path_def del: table_at.simps)
qed

section \<open>Sharing a page\<close>

text \<open>The entry that the child gets for an entry of the parent.\<close>

definition child_entry :: "u64 \<Rightarrow> u64" where
  "child_entry e = leaf_entry (entry_table e - PA2VA_OFFSET) ((e AND 0xff) AND NOT PERM_W)"

lemma entry_bits:
  assumes "e AND PERM_V \<noteq> 0"
  shows "(e AND NOT PERM_W) AND PERM_V \<noteq> 0" "((e AND 0xff) AND NOT PERM_W) AND PERM_V \<noteq> 0"
proof -
  have "bit e 0" using assms valid_bit by blast
  moreover have "\<not> bit PERM_W 0" "bit (0xff :: u64) 0" by (simp_all add: PERM_W_def)
  ultimately show "(e AND NOT PERM_W) AND PERM_V \<noteq> 0" "((e AND 0xff) AND NOT PERM_W) AND PERM_V \<noteq> 0"
    unfolding valid_bit by (simp_all add: bit_simps)
qed

lemma fork_page_mapped:
  assumes inv: "fork_inv K rp rc (machine_of k)" and va: "vpn2 addr < 256"
    and e: "translate (mem k) rp addr = Some e" "entry_table e = page_va q"
    and q: "(q, n) \<in> allocated K (bud k)" "ref_cnt (bud k) ! q \<noteq> - 1"
    and room: "2 \<le> free_pages_left K (machine_of k)"
  shows "\<exists>s. fork_page rp rc addr k = Inr (with_machine s k) \<and> fork_ext K rp rc (machine_of k) s
    \<and> free_pages_left K (machine_of k) \<le> free_pages_left K s + 2
    \<and> keeps_counts K ((bud k)\<lparr>ref_cnt := (ref_cnt (bud k))[q := ref_cnt (bud k) ! q + 1]\<rparr>) s
    \<and> (\<forall>va. vpn2 va < 256 \<longrightarrow> find_pte rp va (mem s) = find_pte rp va (mem k)
         \<and> translate (mem s) rp va = (if vpns va = vpns addr then Some (e AND NOT PERM_W)
                                       else translate (mem k) rp va)
         \<and> translate (mem s) rc va = (if vpns va = vpns addr then Some (child_entry e)
                                       else translate (mem k) rc va))"
proof -
  note d = fork_invD [OF inv, unfolded machine_of_simps]
  have mm: "mm_inv K (bud k)" using d(1) by (simp add: alloc_ok_def)
  define pte where "pte = find_pte rp addr (mem k)"
  have pte: "pte \<noteq> 0" "rd64 (mem k) pte = e" "e AND PERM_V \<noteq> 0"
    using e(1) by (auto simp: translate_def Let_def pte_def split: if_splits)
  obtain b where b: "get_page (page_va q) (bud k) = Inr (0, b)" "mm_inv K b" "allocated K b = allocated K (bud k)"
    "ref_cnt b = (ref_cnt (bud k))[q := ref_cnt (bud k) ! q + 1]"
    using get_page_ok [OF mm q] by blast
  have use: "pages_in_use K b = pages_in_use K (bud k)" using b(3) by (simp add: pages_in_use_def)
  have bok: "alloc_ok K \<lparr>bud = b, mem = mem k\<rparr>" using d(1) b(2) use by (simp add: alloc_ok_def)
  define v where "v = e AND NOT PERM_W"
  define s1 where "s1 = \<lparr>bud = b, mem = wr64 (mem k) pte v\<rparr>"
  note w = parent_write [OF inv va, unfolded machine_of_simps, OF e(1) entry_bits(1) [OF pte(3)] bok use,
      folded pte_def, folded v_def, folded s1_def]
  have room1: "free_pages_left K s1 = free_pages_left K (machine_of k)"
    using use by (simp add: free_pages_left_def used_pages_def s1_def)
  have bs1: "bud s1 = b" by (simp add: s1_def)
  obtain s where s: "create_mapping rc addr (entry_table e - PA2VA_OFFSET) PGSIZE ((e AND 0xff) AND NOT PERM_W) s1 = Inr s"
    "fork_ext K rp rc s1 s"
    "\<forall>va. translate (mem s) rc va = (if vpns va = vpns addr then Some (child_entry e) else translate (mem s1) rc va)"
    "\<forall>va. vpn2 va < 256 \<longrightarrow> translate (mem s) rp va = translate (mem s1) rp va
       \<and> find_pte rp va (mem s) = find_pte rp va (mem s1)"
    "keeps_counts K b s" "free_pages_left K s1 \<le> free_pages_left K s + 2"
    using child_map [OF fork_ext_inv [OF w(1)], unfolded room1, OF room entry_bits(2) [OF pte(3)],
        of addr "entry_table e - PA2VA_OFFSET"]
    unfolding child_entry_def room1 bs1 by blast
  have "fork_page rp rc addr k = Inr (with_machine s k)"
  proof -
    define pa where "pa = push_bit 12 (drop_bit 10 e AND PPN_MASK)"
    have pa: "entry_table e = pa + PA2VA_OFFSET" by (simp only: entry_table_def pa_def)
    have perm: "((e AND NOT PERM_W) AND 0xff) AND NOT PERM_W = (e AND 0xff) AND NOT PERM_W"
      by (rule bit_word_eqI) (auto simp: bit_simps)
    have pa': "page_va q - PA2VA_OFFSET = pa" using pa e(2) by (metis add_diff_cancel)
    show ?thesis
      using pte b(1) e(2) s(1)
      unfolding fork_page_def Let_def pte_def [symmetric] pte(2) pa_def [symmetric] pa perm
      by (simp add: on_machine_def machine_of_def with_machine_def s1_def v_def perm pa')
  qed
  moreover have "keeps_counts K ((bud k)\<lparr>ref_cnt := (ref_cnt (bud k))[q := ref_cnt (bud k) ! q + 1]\<rparr>) s"
    using s(5) b(3,4) by (simp add: keeps_counts_def allocated_def)
  moreover have "find_pte rp va (mem s) = find_pte rp va (mem k)"
    "translate (mem s) rp va = (if vpns va = vpns addr then Some (e AND NOT PERM_W) else translate (mem k) rp va)"
    if "vpn2 va < 256" for va
    using s(4) w(3,4) that by (simp_all add: v_def)
  moreover have "translate (mem s) rc va = (if vpns va = vpns addr then Some (child_entry e)
      else translate (mem k) rc va)" for va
    using s(3) w(2) by simp
  ultimately show ?thesis
    using fork_ext_trans [OF w(1) s(2)] s(6) room1 by (intro exI [of _ s]) simp
qed

lemma fork_page_unmapped:
  assumes "translate (mem k) rp addr = None" "find_pte rp addr (mem k) \<noteq> 0"
  shows "fork_page rp rc addr k = Inr k"
  using assms by (auto simp: fork_page_def translate_def Let_def split: if_splits)

section \<open>Sharing the pages of an area\<close>

text \<open>How often frame \<open>q\<close> is mapped in the first \<open>i\<close> pages from \<open>addr\<close>.\<close>

definition mapped_at :: "u64 \<Rightarrow> mem \<Rightarrow> u64 \<Rightarrow> nat \<Rightarrow> nat \<Rightarrow> bool" where
  "mapped_at rp m addr q j \<longleftrightarrow>
     (\<exists>e. translate m rp (addr + of_nat (4096 * j)) = Some e \<and> entry_table e = page_va q)"

definition uses :: "u64 \<Rightarrow> mem \<Rightarrow> u64 \<Rightarrow> nat \<Rightarrow> nat \<Rightarrow> nat" where
  "uses rp m addr i q = length (filter (mapped_at rp m addr q) [0 ..< i])"

definition in_pages :: "u64 \<Rightarrow> nat \<Rightarrow> u64 \<Rightarrow> bool" where
  "in_pages addr i va \<longleftrightarrow> (\<exists>j < i. vpns va = vpns (addr + of_nat (4096 * j)))"

lemma uses_Suc: "uses rp m addr (Suc i) q = uses rp m addr i q + (if mapped_at rp m addr q i then 1 else 0)"
  by (simp add: uses_def)

lemma uses_le: "uses rp m addr i q \<le> i"
  unfolding uses_def using length_filter_le [of _ "[0 ..< i]"] by simp

text \<open>
  The area to be shared: its pages are user pages whose leaf tables exist, what is mapped there is
  allocated, and there is room for the new tables and references.
\<close>

definition forkable :: "nat \<Rightarrow> u64 \<Rightarrow> u64 \<Rightarrow> u64 \<Rightarrow> nat \<Rightarrow> 'a kernel_scheme \<Rightarrow> bool" where
  "forkable K rp rc addr n k \<longleftrightarrow> fork_inv K rp rc (machine_of k) \<and> n < 2 ^ 27
     \<and> 2 * n \<le> free_pages_left K (machine_of k)
     \<and> (\<forall>j < n. vpn2 (addr + of_nat (4096 * j)) < 256 \<and> find_pte rp (addr + of_nat (4096 * j)) (mem k) \<noteq> 0
          \<and> (\<forall>e. translate (mem k) rp (addr + of_nat (4096 * j)) = Some e \<longrightarrow>
               (\<exists>q m. entry_table e = page_va q \<and> (q, m) \<in> allocated K (bud k)
                  \<and> unat (ref_cnt (bud k) ! q) + n < 2 ^ 64)))"

text \<open>The state after the first \<open>i\<close> pages.\<close>

definition shared_upto :: "nat \<Rightarrow> u64 \<Rightarrow> u64 \<Rightarrow> u64 \<Rightarrow> nat \<Rightarrow> 'a kernel_scheme \<Rightarrow> machine \<Rightarrow> bool" where
  "shared_upto K rp rc addr i k s \<longleftrightarrow> fork_ext K rp rc (machine_of k) s
     \<and> free_pages_left K (machine_of k) \<le> free_pages_left K s + 2 * i
     \<and> (\<forall>q m. (q, m) \<in> allocated K (bud k) \<longrightarrow> (q, m) \<in> allocated K (bud s)
          \<and> ref_cnt (bud s) ! q = ref_cnt (bud k) ! q + of_nat (uses rp (mem k) addr i q))
     \<and> (\<forall>va. vpn2 va < 256 \<longrightarrow> find_pte rp va (mem s) = find_pte rp va (mem k)
          \<and> translate (mem s) rp va = (if in_pages addr i va
               then map_option (\<lambda>e. e AND NOT PERM_W) (translate (mem k) rp va) else translate (mem k) rp va)
          \<and> translate (mem s) rc va = (case translate (mem k) rp va of
               Some e \<Rightarrow> if in_pages addr i va then Some (child_entry e) else translate (mem k) rc va
             | None \<Rightarrow> translate (mem k) rc va))"

lemma in_pages_Suc: "in_pages addr (Suc i) va \<longleftrightarrow> in_pages addr i va \<or> vpns va = vpns (addr + of_nat (4096 * i))"
  by (auto simp: in_pages_def less_Suc_eq)

lemma not_in_pages: "i < 2 ^ 27 \<Longrightarrow> \<not> in_pages addr i (addr + of_nat (4096 * i))"
  using vpns_offset_inj [of addr i] by (fastforce simp: in_pages_def)

lemma allocated_frame:
  assumes "alloc_ok K s" "(q, m) \<in> allocated K (bud s)"
  shows "q < 2 ^ 25" "q < length (ref_cnt (bud s))"
proof -
  have bi: "buddy_inv K (bud s)" and K: "K \<le> 25" using assms(1) by (simp_all add: alloc_ok_def mm_inv_def)
  have "q < 2 ^ K" by (rule allocated_bound [OF bi assms(2)])
  then show "q < 2 ^ 25" "q < length (ref_cnt (bud s))"
    using small_pow [OF K] buddy_inv_facts(7) [OF bi] by simp_all
qed

lemma shared_upto_step:
  assumes f: "forkable K rp rc addr n k" and i: "i < n" and sh: "shared_upto K rp rc addr i k s"
  shows "\<exists>s'. fork_page rp rc (addr + of_nat (4096 * i)) (with_machine s k) = Inr (with_machine s' k)
    \<and> shared_upto K rp rc addr (Suc i) k s'"
proof -
  define a where "a = addr + of_nat (4096 * i)"
  have n: "n < 2 ^ 27" "2 * n \<le> free_pages_left K (machine_of k)"
    and a: "vpn2 a < 256" "find_pte rp a (mem k) \<noteq> 0"
    and fr: "\<And>e. translate (mem k) rp a = Some e \<Longrightarrow> \<exists>q m. entry_table e = page_va q
      \<and> (q, m) \<in> allocated K (bud k) \<and> unat (ref_cnt (bud k) ! q) + n < 2 ^ 64"
    using f i by (auto simp: forkable_def a_def)
  have ext: "fork_ext K rp rc (machine_of k) s" and left: "free_pages_left K (machine_of k) \<le> free_pages_left K s + 2 * i"
    and cnt: "\<And>q m. (q, m) \<in> allocated K (bud k) \<Longrightarrow> (q, m) \<in> allocated K (bud s)
       \<and> ref_cnt (bud s) ! q = ref_cnt (bud k) ! q + of_nat (uses rp (mem k) addr i q)"
    and tr: "\<And>va. vpn2 va < 256 \<Longrightarrow> find_pte rp va (mem s) = find_pte rp va (mem k)
          \<and> translate (mem s) rp va = (if in_pages addr i va
               then map_option (\<lambda>e. e AND NOT PERM_W) (translate (mem k) rp va) else translate (mem k) rp va)
          \<and> translate (mem s) rc va = (case translate (mem k) rp va of
               Some e \<Rightarrow> if in_pages addr i va then Some (child_entry e) else translate (mem k) rc va
             | None \<Rightarrow> translate (mem k) rc va)"
    using sh by (simp_all add: shared_upto_def)
  have ok: "alloc_ok K (machine_of k)" using f by (simp add: forkable_def fork_inv_def address_space_def)
  have new: "\<not> in_pages addr i a" using not_in_pages i n(1) by (simp add: a_def)
  have here: "translate (mem s) rp a = translate (mem k) rp a" using tr [OF a(1)] new by simp
  have same_va: "translate (mem k) rp va = translate (mem k) rp a" if "vpns va = vpns a" for va
    using translate_cong [OF that] .
  have ip: "in_pages addr (Suc i) va \<longleftrightarrow> in_pages addr i va \<or> vpns va = vpns a" for va
    by (simp only: in_pages_Suc a_def)
  have ks: "mem (with_machine s k) = mem s" "bud (with_machine s k) = bud s" "machine_of (with_machine s k) = s"
    "with_machine s' (with_machine s k) = with_machine s' k" for s'
    by (simp_all add: with_machine_def)
  show ?thesis
  proof (cases "translate (mem k) rp a")
    case None
    have "fork_page rp rc a (with_machine s k) = Inr (with_machine s k)"
      using fork_page_unmapped [of "with_machine s k" rp a rc] here None tr [OF a(1)] a(2) ks by simp
    moreover have nm: "\<not> mapped_at rp (mem k) addr q i" for q using None by (simp add: mapped_at_def a_def)
    have "find_pte rp va (mem s) = find_pte rp va (mem k)
          \<and> translate (mem s) rp va = (if in_pages addr (Suc i) va
               then map_option (\<lambda>e. e AND NOT PERM_W) (translate (mem k) rp va) else translate (mem k) rp va)
          \<and> translate (mem s) rc va = (case translate (mem k) rp va of
               Some e \<Rightarrow> if in_pages addr (Suc i) va then Some (child_entry e) else translate (mem k) rc va
             | None \<Rightarrow> translate (mem k) rc va)" if va: "vpn2 va < 256" for va
      using tr [OF va] same_va [of va] None unfolding ip
      by (cases "vpns va = vpns a") (auto split: option.splits)
    then have "shared_upto K rp rc addr (Suc i) k s"
      unfolding shared_upto_def using ext left cnt nm by (intro conjI allI impI) (simp_all add: uses_Suc)
    ultimately show ?thesis unfolding a_def by blast
  next
    case (Some e)
    obtain q m where q: "entry_table e = page_va q" "(q, m) \<in> allocated K (bud k)"
      "unat (ref_cnt (bud k) ! q) + n < 2 ^ 64"
      using fr [OF Some] by blast
    have q': "(q, m) \<in> allocated K (bud s)" using cnt [OF q(2)] by simp
    have "uses rp (mem k) addr i q < n" using uses_le i order_le_less_trans by blast
    then have u: "unat (ref_cnt (bud s) ! q) = unat (ref_cnt (bud k) ! q) + uses rp (mem k) addr i q"
      using cnt [OF q(2)] q(3) n(1) by (simp add: unat_word_ariths unat_of_nat_64)
    have "ref_cnt (bud s) ! q \<noteq> - 1"
    proof
      assume "ref_cnt (bud s) ! q = - 1"
      then have "unat (ref_cnt (bud s) ! q) = 2 ^ 64 - 1" by (simp add: unsigned_minus_1_eq_mask mask_eq_exp_minus_1)
      then show False using u q(3) \<open>uses rp (mem k) addr i q < n\<close> by simp
    qed
    moreover have "2 \<le> free_pages_left K s" using left n(2) i by simp
    ultimately obtain s' where s': "fork_page rp rc a (with_machine s k) = Inr (with_machine s' k)"
      "fork_ext K rp rc s s'" "free_pages_left K s \<le> free_pages_left K s' + 2"
      "keeps_counts K ((bud s)\<lparr>ref_cnt := (ref_cnt (bud s))[q := ref_cnt (bud s) ! q + 1]\<rparr>) s'"
      "\<And>va. vpn2 va < 256 \<Longrightarrow> find_pte rp va (mem s') = find_pte rp va (mem s)
         \<and> translate (mem s') rp va = (if vpns va = vpns a then Some (e AND NOT PERM_W) else translate (mem s) rp va)
         \<and> translate (mem s') rc va = (if vpns va = vpns a then Some (child_entry e) else translate (mem s) rc va)"
      using fork_page_mapped [of K rp rc "with_machine s k" a e q m, unfolded ks, OF fork_ext_inv [OF ext] a(1)]
        here Some q(1) q' by auto
    have inj: "mapped_at rp (mem k) addr p i \<longleftrightarrow> p = q" if "(p, l) \<in> allocated K (bud k)" for p l
      using Some q(1) page_va_inj allocated_frame [OF ok, unfolded machine_of_simps] that q(2)
      by (auto simp: mapped_at_def a_def)
    have alloc: "(p, l) \<in> allocated K (bud s')" 
      "ref_cnt (bud s') ! p = ref_cnt (bud k) ! p + of_nat (uses rp (mem k) addr (Suc i) p)"
      if p: "(p, l) \<in> allocated K (bud k)" for p l
    proof -
      have ps: "(p, l) \<in> allocated K (bud s)" using cnt [OF p] by simp
      then show "(p, l) \<in> allocated K (bud s')" using s'(4) by (auto simp: keeps_counts_def allocated_def)
      have "alloc_ok K s" using fork_ext_inv [OF ext] by (simp add: fork_inv_def address_space_def)
      then have "p < length (ref_cnt (bud s))" using allocated_frame(2) ps by blast
      moreover have "ref_cnt (bud s') ! p = (ref_cnt (bud s))[q := ref_cnt (bud s) ! q + 1] ! p"
        using s'(4) ps by (force simp: keeps_counts_def allocated_def)
      ultimately show "ref_cnt (bud s') ! p = ref_cnt (bud k) ! p + of_nat (uses rp (mem k) addr (Suc i) p)"
        using cnt [OF p] inj [OF p] by (auto simp: uses_Suc nth_list_update)
    qed
    have trs: "find_pte rp va (mem s') = find_pte rp va (mem k)
          \<and> translate (mem s') rp va = (if in_pages addr (Suc i) va
               then map_option (\<lambda>e. e AND NOT PERM_W) (translate (mem k) rp va) else translate (mem k) rp va)
          \<and> translate (mem s') rc va = (case translate (mem k) rp va of
               Some e \<Rightarrow> if in_pages addr (Suc i) va then Some (child_entry e) else translate (mem k) rc va
             | None \<Rightarrow> translate (mem k) rc va)" if va: "vpn2 va < 256" for va
      using s'(5) [OF va] tr [OF va] same_va [of va] Some unfolding ip
      by (cases "vpns va = vpns a") (auto split: option.splits)
    have "shared_upto K rp rc addr (Suc i) k s'"
      unfolding shared_upto_def
      using fork_ext_trans [OF ext s'(2)] left s'(3) alloc trs by (intro conjI allI impI) simp_all
    then show ?thesis using s'(1) unfolding a_def by blast
  qed
qed

lemma fork_pages_loop:
  assumes f: "forkable K rp rc addr n k"
    and stop: "unat addr + 4096 * n < 2 ^ 64" "unat stop \<le> unat addr + 4096 * n" "unat addr + 4096 * n < unat stop + 4096"
  shows "i \<le> n \<Longrightarrow> n - i \<le> fuel \<Longrightarrow> shared_upto K rp rc addr i k s \<Longrightarrow>
    \<exists>s'. fork_pages fuel rp rc stop (addr + of_nat (4096 * i)) (with_machine s k) = Inr (with_machine s' k)
      \<and> shared_upto K rp rc addr n k s'"
proof (induction "n - i" arbitrary: i s fuel)
  case 0
  then have i: "i = n" by simp
  have "unat (addr + of_nat (4096 * n)) = unat addr + 4096 * n"
    using stop(1) by (simp add: unat_word_ariths unat_of_nat_64 del: of_nat_mult)
  then have "\<not> addr + of_nat (4096 * n) < stop" using stop(2) by (simp add: word_less_nat_alt)
  then have "fork_pages fuel rp rc stop (addr + of_nat (4096 * i)) (with_machine s k) = Inr (with_machine s k)"
    unfolding i by (subst fork_pages.simps) simp
  then show ?case using "0.prems"(3) i by blast
next
  case (Suc d)
  then have i: "i < n" "d = n - Suc i" "fuel \<noteq> 0" "n - Suc i \<le> fuel - 1" by simp_all
  have "unat (addr + of_nat (4096 * i)) = unat addr + 4096 * i"
    using stop(1) i(1) by (simp add: unat_word_ariths unat_of_nat_64 del: of_nat_mult)
  then have go: "addr + of_nat (4096 * i) < stop" using stop(3) i(1) by (simp add: word_less_nat_alt)
  obtain s' where s': "fork_page rp rc (addr + of_nat (4096 * i)) (with_machine s k) = Inr (with_machine s' k)"
    "shared_upto K rp rc addr (Suc i) k s'"
    using shared_upto_step [OF f i(1) Suc.prems(3)] by blast
  have nx: "addr + of_nat (4096 * i) + PGSIZE = addr + of_nat (4096 * Suc i)" by (simp add: PGSIZE_def)
  have "fork_pages fuel rp rc stop (addr + of_nat (4096 * i)) (with_machine s k)
      = fork_pages (fuel - 1) rp rc stop (addr + of_nat (4096 * Suc i)) (with_machine s' k)"
    unfolding nx [symmetric] using go i(3) s'(1) by (subst fork_pages.simps) simp
  then show ?case using Suc.hyps(1) [OF i(2) _ i(4) s'(2)] i(1) by simp
qed

lemma child_entry_facts:
  assumes "e AND PERM_V \<noteq> 0"
  shows "entry_table (child_entry e) = entry_table e" "cow_entry (child_entry e)" "cow_entry (e AND NOT PERM_W)"
proof -
  define pa where "pa = push_bit 12 (drop_bit 10 e AND PPN_MASK)"
  have pa: "entry_table e - PA2VA_OFFSET = pa" by (simp only: entry_table_def pa_def add_diff_cancel)
  have mask: "PPN_MASK = mask 44" by (simp add: layout mask_eq_decr_exp)
  have low: "\<not> bit (0xff :: u64) (10 + n)" for n
  proof -
    have eq: "(0xff :: u64) = mask 8" by (simp add: mask_eq_decr_exp)
    show ?thesis unfolding eq by (simp add: bit_mask_iff)
  qed
  have "push_bit 12 (drop_bit 10 (child_entry e) AND PPN_MASK) = pa"
  proof (rule bit_word_eqI)
    fix n assume n: "n < LENGTH(64)"
    show "bit (push_bit 12 (drop_bit 10 (child_entry e) AND PPN_MASK)) n = bit pa n"
      unfolding child_entry_def pa
    proof (cases "n < 12")
      case False
      then obtain j where "n = 12 + j" by (metis le_Suc_ex not_less)
      then show "bit (push_bit 12 (drop_bit 10 (leaf_entry pa ((e AND 0xff) AND NOT PERM_W)) AND PPN_MASK)) n = bit pa n"
        using n low [of j] by (auto simp: leaf_entry_def pa_def mask bit_simps)
    qed (simp add: pa_def bit_simps)
  qed
  then show "entry_table (child_entry e) = entry_table e"
    by (simp only: entry_table_def pa_def)
  have w: "(x AND NOT PERM_W) AND PERM_W = 0" for x :: u64 by (rule bit_word_eqI) (simp add: bit_simps)
  then show "cow_entry (e AND NOT PERM_W)" using entry_bits(1) [OF assms] by (simp add: cow_entry_def)
  have "child_entry e AND PERM_W = 0"
  proof (rule bit_word_eqI)
    fix n assume "n < LENGTH(64)"
    have eq: "PERM_W = push_bit 2 1" by (simp add: PERM_W_def)
    have "bit PERM_W n \<Longrightarrow> n = 2" by (simp only: eq bit_push_bit_iff bit_1_iff) linarith
    then show "bit (child_entry e AND PERM_W) n = bit 0 n"
      by (auto simp: child_entry_def leaf_entry_def bit_simps)
  qed
  then show "cow_entry (child_entry e)"
    using leaf_entry_valid [OF entry_bits(2) [OF assms]] by (simp add: cow_entry_def child_entry_def)
qed

text \<open>
  C34: fork's loop over the pages of an area shares every page the parent has: both page tables
  then map the same frame without write permission, so that the next write of either is a
  copy-on-write fault; every mapping adds one reference to its frame; all other translations of
  the user half and the contents of all pages that are not tables stay as they are.
\<close>

theorem fork_shares_pages:
  assumes f: "forkable K rp rc addr n k"
    and stop: "unat addr + 4096 * n < 2 ^ 64" "unat stop \<le> unat addr + 4096 * n" "unat addr + 4096 * n < unat stop + 4096"
  shows "\<exists>k'. fork_pages (2 ^ 52) rp rc stop addr k = Inr k' \<and> address_space K rc (machine_of k')
    \<and> (\<forall>va e. vpn2 va < 256 \<and> in_pages addr n va \<and> translate (mem k) rp va = Some e \<longrightarrow>
         translate (mem k') rp va = Some (e AND NOT PERM_W) \<and> translate (mem k') rc va = Some (child_entry e)
         \<and> entry_table (child_entry e) = entry_table e \<and> cow_entry (child_entry e) \<and> cow_entry (e AND NOT PERM_W))
    \<and> (\<forall>va. vpn2 va < 256 \<and> (in_pages addr n va \<longrightarrow> translate (mem k) rp va = None) \<longrightarrow>
         translate (mem k') rp va = translate (mem k) rp va \<and> translate (mem k') rc va = translate (mem k) rc va)
    \<and> (\<forall>q m. (q, m) \<in> allocated K (bud k) \<longrightarrow> (q, m) \<in> allocated K (bud k')
         \<and> ref_cnt (bud k') ! q = ref_cnt (bud k) ! q + of_nat (uses rp (mem k) addr n q))
    \<and> (\<forall>p \<in> used_pages K (machine_of k). p \<notin> tables (user_view rp (mem k)) rp \<and> p \<notin> tables (mem k) rc
         \<longrightarrow> (\<forall>x. x - p < 4096 \<longrightarrow> mem k' x = mem k x))"
proof -
  have n: "n < 2 ^ 27" and inv: "fork_inv K rp rc (machine_of k)" using f by (simp_all add: forkable_def)
  have "shared_upto K rp rc addr 0 k (machine_of k)"
    using fork_ext_refl [OF inv] by (auto simp: shared_upto_def uses_def in_pages_def split: option.splits)
  moreover have "n \<le> 2 ^ 52" using n by simp
  moreover have "with_machine (machine_of k) k = k" by (simp add: machine_of_def with_machine_def)
  ultimately obtain s where s: "fork_pages (2 ^ 52) rp rc stop addr k = Inr (with_machine s k)"
    "shared_upto K rp rc addr n k s"
    using fork_pages_loop [OF f stop, of 0 "2 ^ 52" "machine_of k"] by auto
  have k': "mem (with_machine s k) = mem s" "bud (with_machine s k) = bud s" by (simp_all add: with_machine_def)
  have v: "e AND PERM_V \<noteq> 0" if "translate (mem k) rp va = Some e" for va e
    using that by (auto simp: translate_def Let_def split: if_splits)
  have ext: "fork_ext K rp rc (machine_of k) s"
    and cnt: "\<forall>q m. (q, m) \<in> allocated K (bud k) \<longrightarrow> (q, m) \<in> allocated K (bud s)
         \<and> ref_cnt (bud s) ! q = ref_cnt (bud k) ! q + of_nat (uses rp (mem k) addr n q)"
    and tr: "\<And>va. vpn2 va < 256 \<Longrightarrow> translate (mem s) rp va = (if in_pages addr n va
               then map_option (\<lambda>e. e AND NOT PERM_W) (translate (mem k) rp va) else translate (mem k) rp va)
          \<and> translate (mem s) rc va = (case translate (mem k) rp va of
               Some e \<Rightarrow> if in_pages addr n va then Some (child_entry e) else translate (mem k) rc va
             | None \<Rightarrow> translate (mem k) rc va)"
    using s(2) by (simp_all add: shared_upto_def)
  show ?thesis
    unfolding s(1) by (intro exI [of _ "with_machine s k"] conjI refl; unfold k' machine_of_simps)
      (use ext cnt tr child_entry_facts [OF v] in \<open>auto simp: fork_ext_def fork_inv_def split: option.splits\<close>)
qed

end
