(* ===== verification/Isolation.thy ===== *)
theory Isolation
  imports Fork_Correct
begin

text \<open>
  Two processes that share frames copy-on-write, parent and child of a fork: a write of either one
  is not seen by the other.
\<close>

text \<open>The user half of a page table is a part of it.\<close>

lemma user_view_table_at:
  assumes wf: "wf_pt m r U" and U: "\<forall>p \<in> U. page_aligned p \<and> p \<noteq> 0"
  shows "is_path l \<Longrightarrow> table_at (user_view r m) r l = Some t \<Longrightarrow> table_at m r l = Some t"
proof (induction l arbitrary: t rule: rev_induct)
  case (snoc i l)
  then obtain u where u: "table_at (user_view r m) r l = Some u" "sub_table (user_view r m) u i = Some t"
    by (auto simp: table_at_snoc split: option.splits)
  then have IH: "table_at m r l = Some u" using snoc by simp
  have r: "page_aligned r" using wf_ptD(1) [OF wf, of "[]" r] U by (simp add: is_path_def)
  have "page_aligned u" using wf_ptD(1) [OF wf _ IH] snoc.prems(1) U by simp
  then have "sub_table m u i = Some t"
    using u(2) user_view_rd [OF r, of u i m] snoc.prems(1) by (auto simp: sub_table_def Let_def split: if_splits)
  with IH show ?case by (simp add: table_at_snoc)
qed simp

lemma user_view_wf:
  assumes wf: "wf_pt m r U" and U: "\<forall>p \<in> U. page_aligned p \<and> p \<noteq> 0"
  shows "wf_pt (user_view r m) r U" "tables (user_view r m) r \<subseteq> tables m r"
  using user_view_table_at [OF wf U] wf unfolding wf_pt_def tables_def by blast+

text \<open>The table of a mapped user page is one of the user half.\<close>

lemma user_leaf_table:
  assumes wf: "wf_pt m r U" and U: "\<forall>p \<in> U. page_aligned p \<and> p \<noteq> 0" and user: "vpn2 va < 256"
    and t: "table_at m r [vpn2 va, vpn1 va] = Some t" and e: "translate m r va = Some e"
  shows "t \<in> tables (user_view r m) r"
proof -
  have l0: "is_path [vpn2 va, vpn1 va]" by (simp add: is_path_def)
  note s = user_view_wf(1) [OF wf U]
  obtain u where u: "table_at (user_view r m) r [vpn2 va, vpn1 va] = Some u"
    using translate_user [OF s U user] translate_eq [OF s U, of va] e
    by (auto simp del: table_at.simps split: option.splits)
  then have "u = t" using user_view_table_at [OF wf U l0 u] t by simp
  then show ?thesis using u l0 unfolding tables_def by blast
qed

text \<open>The user halves of \<open>r\<close> and \<open>r'\<close> have no table in common.\<close>

definition separate :: "mem \<Rightarrow> u64 \<Rightarrow> u64 \<Rightarrow> u64 set \<Rightarrow> bool" where
  "separate m r r' U \<longleftrightarrow> wf_pt (user_view r m) r U \<and> wf_pt (user_view r' m) r' U
     \<and> tables (user_view r m) r \<inter> tables (user_view r' m) r' = {}"

lemma fork_separate:
  assumes "fork_inv K rp rc s"
  shows "separate (mem s) rp rc (used_pages K s)" "separate (mem s) rc rp (used_pages K s)"
proof -
  note d = fork_invD [OF assms]
  have "tables (user_view rp (mem s)) rp \<inter> tables (mem s) rc = {}" using assms by (simp add: fork_inv_def)
  then show "separate (mem s) rp rc (used_pages K s)" "separate (mem s) rc rp (used_pages K s)"
    using d(2) user_view_wf [OF d(3,4)] unfolding separate_def by blast+
qed

text \<open>
  C35: a write to a shared page gives the process that writes a fresh copy and leaves the other
  process alone: every user address of the other one translates as before, and no byte of a page in
  use that is not a table of the writer changes, in particular not the shared frame.
\<close>

theorem shared_write_isolated:
  assumes sit: "cow_situation K r p vma q n k" and user: "vpn2 (stval k) < 256"
    and sep: "separate (mem k) r r' (used_pages K (machine_of k))"
  shows "\<exists>k' page. do_page_fault rdisk k = Inr k' \<and> page \<in> page_pool K - used_pages K (machine_of k)
    \<and> translate (mem k') r (stval k) = Some (leaf_entry (page - PA2VA_OFFSET) (fault_perm vma))
    \<and> (\<forall>i < 4096. mem k' (page + i) = mem k (page_va q + i))
    \<and> (\<forall>va. vpn2 va < 256 \<longrightarrow> translate (mem k') r' va = translate (mem k) r' va)
    \<and> (\<forall>f \<in> used_pages K (machine_of k). f \<notin> tables (mem k) r \<longrightarrow> (\<forall>x. x - f < 4096 \<longrightarrow> mem k' x = mem k x))"
proof -
  define U where "U = used_pages K (machine_of k)"
  have ok: "alloc_ok K (machine_of k)" and wf: "wf_pt (mem k) r U"
    using sit by (simp_all add: cow_situation_def U_def)
  have U: "\<forall>p \<in> U. page_aligned p \<and> p \<noteq> 0" using kp.used_page [OF ok] by (simp add: U_def)
  have s: "wf_pt (user_view r (mem k)) r U" "wf_pt (user_view r' (mem k)) r' U"
    "tables (user_view r (mem k)) r \<inter> tables (user_view r' (mem k)) r' = {}"
    using sep by (simp_all add: separate_def U_def)
  obtain k' page t where k': "do_page_fault rdisk k = Inr k'" "page \<in> page_pool K - U"
    "translate (mem k') r (stval k) = Some (leaf_entry (page - PA2VA_OFFSET) (fault_perm vma))"
    "\<forall>i < 4096. mem k' (page + i) = mem k (page_va q + i)"
    "table_at (mem k) r [vpn2 (stval k), vpn1 (stval k)] = Some t"
    "\<forall>x. \<not> x - page < 4096 \<and> \<not> x - t < 4096 \<longrightarrow> mem k' x = mem k x"
    using cow_fault_aux [OF sit, of rdisk] unfolding U_def by blast
  have l0: "is_path [vpn2 (stval k), vpn1 (stval k)]" by (simp add: is_path_def)
  have tU: "t \<in> U" "t \<in> tables (mem k) r"
    using wf_ptD(1) [OF wf l0 k'(5)] k'(5) l0 unfolding tables_def by blast+
  have tuser: "t \<in> tables (user_view r (mem k)) r"
    using user_leaf_table [OF wf U user k'(5)] sit by (auto simp: cow_situation_def)
  have keep: "mem k' x = mem k x" if f: "f \<in> U" "f \<noteq> t" "x - f < 4096" for f x
  proof -
    have "page_aligned page" "page \<noteq> f" using k'(2) kp.pool_page f(1) by blast+
    then have "\<not> x - page < 4096" "\<not> x - t < 4096"
      using page_bytes_apart [of f page x] page_bytes_apart [of f t x] f U tU(1) by blast+
    then show ?thesis using k'(6) by blast
  qed
  have "\<forall>u \<in> tables (user_view r' (mem k)) r'. \<forall>x. x - u < 4096 \<longrightarrow> mem k' x = mem k x"
  proof (intro ballI allI impI)
    fix u x assume u: "u \<in> tables (user_view r' (mem k)) r'" and x: "x - u < 4096"
    have "u \<in> U" using u wf_ptD(1) [OF s(2)] unfolding tables_def by blast
    moreover have "u \<noteq> t" using u tuser s(3) by blast
    ultimately show "mem k' x = mem k x" using keep x by blast
  qed
  then have "translate (mem k') r' va = translate (mem k) r' va" if "vpn2 va < 256" for va
    using same_user_half(4) [OF s(2) U] that by blast
  moreover have "mem k' x = mem k x" if "f \<in> U" "f \<notin> tables (mem k) r" "x - f < 4096" for f x
    using keep that tU(2) by blast
  ultimately show ?thesis using k'(1-4) unfolding U_def by blast
qed

end
