(* ===== verification/Fork_Witness.thy ===== *)
theory Fork_Witness
  imports Isolation Vm_Witness
begin

text \<open>
  A parent with one writable page in frame 3 and a child whose root table, frame 4, is empty: the
  properties of fork are applied to them.
\<close>

definition eight_five_used :: buddy where
  "eight_five_used = \<lparr>bsize = 8, bitmap = [2, 0, 2, 0, 0, 1, 2, 0, 0, 0, 0, 0, 1, 1, 1, 0],
     ref_cnt = [1, 1, 1, 1, 1, 0, 0, 0]\<rparr>"

definition five_used_tree :: btree where
  "five_used_tree = Split (Split (Split Used Used) (Split Used Used)) (Split (Split Used Free) Free)"

lemma five_tree: "tree_of (bitmap eight_five_used) 3 0 = five_used_tree"
  and five_repr: "repr (bitmap eight_five_used) 3 0 five_used_tree"
  by code_simp+

lemma five_alloc: "allocated 3 eight_five_used = {(0, 0), (1, 0), (2, 0), (3, 0), (4, 0)}"
  unfolding allocated_def five_tree five_used_tree_def by (auto simp: numeral_eq_Suc)

lemma five_inv: "mm_inv 3 eight_five_used"
  using five_repr
  by (simp only: mm_inv_def buddy_inv_def counts_ok_def five_alloc five_tree)
     (simp add: eight_five_used_def less_8)

lemma five_in_use: "pages_in_use 3 eight_five_used = {0, 1, 2, 3, 4}"
  by (auto simp: pages_in_use_def five_alloc pages_def)

definition writable_entry :: u64 where
  "writable_entry = leaf_entry (page_va 3 - PA2VA_OFFSET) (PERM_A OR PERM_D OR PERM_U OR PERM_R OR PERM_W OR PERM_V)"

definition fork_space :: "u64 \<Rightarrow> machine" where
  "fork_space e = \<lparr>bud = eight_five_used, mem = leaf_mem e\<rparr>"

lemma fork_space_simps [simp]: "bud (fork_space e) = eight_five_used" "mem (fork_space e) = leaf_mem e"
  by (simp_all add: fork_space_def)

lemma fork_used: "used_pages 3 (fork_space e) = page_va ` {0, 1, 2, 3, 4}"
  by (simp add: used_pages_def five_in_use)

lemma fork_alloc_ok: "alloc_ok 3 (fork_space e)"
  by (simp add: alloc_ok_def five_inv five_in_use)

lemma empty_page: "2 < q \<Longrightarrow> q < 2 ^ 25 \<Longrightarrow> i < 512 \<Longrightarrow> sub_table (leaf_mem e) (page_va q) i = None"
  using leaf_rd(4) [of i q e] by (simp add: sub_table_def)

lemma child_tables:
  assumes "is_path l"
  shows "table_at (leaf_mem e) (page_va 4) l = (if l = [] then Some (page_va 4) else None)"
proof (cases l)
  case (Cons i l')
  then have "i < 512" using assms by (simp add: is_path_def)
  then show ?thesis using Cons empty_page [of 4 i e] by simp
qed simp

lemma child_space: "address_space 3 (page_va 4) (fork_space e)"
proof -
  have "wf_pt (leaf_mem e) (page_va 4) (used_pages 3 (fork_space e))"
    unfolding wf_pt_def by (auto simp: child_tables fork_used split: if_splits)
  moreover have "clean (page_pool 3) (leaf_mem e) (used_pages 3 (fork_space e))"
    unfolding clean_def
  proof (intro ballI allI impI)
    fix p i assume p: "p \<in> page_pool 3 - used_pages 3 (fork_space e)" and i: "(i :: u64) < 512"
    then obtain q where q: "q < 8" "p = page_va q" by (auto simp: page_pool_def)
    have "2 < q"
    proof (rule ccontr)
      assume "\<not> 2 < q"
      then have "q = 0 \<or> q = 1 \<or> q = 2" by arith
      then show False using p q(2) by (auto simp: fork_used)
    qed
    then show "sub_table (leaf_mem e) p i = None" using empty_page [of q i] q i by simp
  qed
  ultimately show ?thesis using fork_alloc_ok by (simp add: address_space_def)
qed

lemma leaf_wf_fork: "wf_pt (leaf_mem e) (page_va 0) (used_pages 3 (fork_space e))"
  by (rule leaf_wf) (auto simp: fork_used)

lemma parent_view:
  shows "\<And>l. is_path l \<Longrightarrow> table_at (user_view (page_va 0) (leaf_mem e)) (page_va 0) l
      = table_at (leaf_mem e) (page_va 0) l"
    and "wf_pt (user_view (page_va 0) (leaf_mem e)) (page_va 0) (used_pages 3 (fork_space e))"
proof -
  note U = kp.used_page [OF fork_alloc_ok]
  have "rd64 (user_view (page_va 0) (leaf_mem e)) (slot t i) = rd64 (leaf_mem e) (slot t i)"
    if t: "t \<in> tables (leaf_mem e) (page_va 0)" and i: "i < 512" for t i
  proof -
    have "page_aligned t" using t wf_ptD(1) [OF leaf_wf_fork] U unfolding tables_def by blast
    then show ?thesis
      using user_view_rd [of "page_va 0" t i] page_va_page(1) [of 0] leaf_rd(1) [OF i, of e] i by auto
  qed
  then have same: "\<forall>t \<in> tables (leaf_mem e) (page_va 0). \<forall>i < 512.
      rd64 (user_view (page_va 0) (leaf_mem e)) (slot t i) = rd64 (leaf_mem e) (slot t i)"
    by blast
  note e = same_entries [OF leaf_wf_fork U same]
  show "table_at (user_view (page_va 0) (leaf_mem e)) (page_va 0) l
      = table_at (leaf_mem e) (page_va 0) l" if "is_path l" for l using e(1) that .
  show "wf_pt (user_view (page_va 0) (leaf_mem e)) (page_va 0) (used_pages 3 (fork_space e))"
    by (rule e(2))
qed

lemma fork_space_inv: "fork_inv 3 (page_va 0) (page_va 4) (fork_space e)"
  using child_space parent_view(2)
  by (auto simp: fork_inv_def tables_def parent_view(1) leaf_tables child_tables page_va_inj split: if_splits)

lemma fork_left: "2 \<le> free_pages_left 3 (fork_space e)"
proof -
  have "card {page_va 5, page_va 6} \<le> card (page_pool 3 - used_pages 3 (fork_space e))"
    using kp.finite_pool [of 3]
    by (intro card_mono) (auto simp: page_pool_def fork_used page_va_inj)
  then show ?thesis by (simp add: free_pages_left_def page_va_inj)
qed

lemma writable_facts: "writable_entry AND PERM_V \<noteq> 0" "entry_table writable_entry = page_va 3"
  by code_simp+

lemma fork_vpn: "vpn2 0x12000 = 0" "vpn1 0x12000 = 0" "vpn0 0x12000 = 0x12"
  by code_simp+

lemma fork_parent_page:
  "find_pte (page_va 0) 0x12000 (leaf_mem writable_entry) \<noteq> 0"
  "translate (leaf_mem writable_entry) (page_va 0) 0x12000 = Some writable_entry"
proof -
  have z: "is_path [0, 0]" by (simp add: is_path_def)
  have "find_pte (page_va 0) 0x12000 (leaf_mem writable_entry) = slot (page_va 2) 0x12"
    using find_pte_user [OF parent_view(2) kp.used_page [OF fork_alloc_ok [of writable_entry]], of "0x12000"]
      parent_view(1) [OF z] leaf_tables [OF z]
    by (simp add: fork_vpn del: table_at.simps)
  moreover have "slot (page_va 2) 0x12 \<noteq> 0" using slot_nonzero [of "page_va 2"] page_va_page [of 2] by simp
  ultimately show "find_pte (page_va 0) 0x12000 (leaf_mem writable_entry) \<noteq> 0"
    "translate (leaf_mem writable_entry) (page_va 0) 0x12000 = Some writable_entry"
    using leaf_rd(3) [of "0x12" writable_entry] writable_facts(1) by (simp_all add: translate_def)
qed

definition fork_kernel :: kernel where
  "fork_kernel = one_task (fork_space writable_entry) 0 0"

lemma fork_kernel_simps: "machine_of fork_kernel = fork_space writable_entry" "mem fork_kernel = leaf_mem writable_entry"
  "bud fork_kernel = eight_five_used"
  by (simp_all add: fork_kernel_def one_task_simps)

lemma fork_one_page: "forkable 3 (page_va 0) (page_va 4) 0x12000 1 fork_kernel"
proof -
  have "ref_cnt eight_five_used ! 3 = 1" by (simp add: eight_five_used_def)
  then have "\<exists>q m. entry_table writable_entry = page_va q \<and> (q, m) \<in> allocated 3 eight_five_used
      \<and> unat (ref_cnt eight_five_used ! q) + 1 < 2 ^ 64"
    using writable_facts(2) by (intro exI [of _ 3] exI [of _ 0]) (simp add: five_alloc)
  then show ?thesis
    unfolding forkable_def fork_kernel_simps using fork_space_inv fork_left fork_parent_page
    by (simp add: fork_vpn)
qed

theorem fork_shares_pages_witness:
  "\<exists>k'. fork_pages (2 ^ 52) (page_va 0) (page_va 4) 0x13000 0x12000 fork_kernel = Inr k'
     \<and> translate (mem k') (page_va 0) 0x12000 = Some (writable_entry AND NOT PERM_W)
     \<and> translate (mem k') (page_va 4) 0x12000 = Some (child_entry writable_entry)
     \<and> ref_cnt (bud k') ! 3 = 2"
proof -
  have page: "in_pages 0x12000 1 0x12000" by (simp add: in_pages_def)
  have "uses (page_va 0) (mem fork_kernel) 0x12000 1 3 = 1"
    using fork_parent_page(2) writable_facts(2) by (simp add: uses_def mapped_at_def fork_kernel_simps)
  moreover have "ref_cnt eight_five_used ! 3 = 1" by (simp add: eight_five_used_def)
  ultimately show ?thesis
    using fork_shares_pages [OF fork_one_page, of "0x13000"] page fork_parent_page(2)
    by (fastforce simp: fork_vpn five_alloc fork_kernel_simps)
qed

text \<open>The same spaces with the page of the parent mapped without write permission.\<close>

theorem shared_write_isolated_witness:
  "\<exists>k' page. do_page_fault 0x1000000 (one_task (fork_space shared_entry) 0x12345 SUPERVISOR_STORE_PAGE_FAULT) = Inr k'
     \<and> translate (mem k') (page_va 0) 0x12345 = Some (leaf_entry (page - PA2VA_OFFSET) (fault_perm the_area))
     \<and> (\<forall>i < 4096. mem k' (page_va 3 + i) = mem (fork_space shared_entry) (page_va 3 + i))"
proof -
  have wf: "wf_pt (leaf_mem shared_entry) (page_va 0) (used_pages 3 (fork_space shared_entry))"
    by (rule leaf_wf_fork)
  have "translate (leaf_mem shared_entry) (page_va 0) 0x12345 = Some shared_entry"
    using shared_translate by (simp add: shared_mem_def)
  moreover have tab: "page_va 3 \<notin> tables (leaf_mem shared_entry) (page_va 0)"
    by (auto simp: tables_def leaf_tables page_va_inj split: if_splits)
  ultimately have sit: "cow_situation 3 (page_va 0) 0x5000 the_area 3 0
      (one_task (fork_space shared_entry) 0x12345 SUPERVISOR_STORE_PAGE_FAULT)"
    unfolding cow_situation_def one_task_simps
    using fork_alloc_ok [of shared_entry] wf fork_left [of shared_entry] shared_entry_facts area_lookup [of "0x12345"]
    by (simp add: five_alloc the_area_def SUPERVISOR_STORE_PAGE_FAULT_def VM_WRITE_def VM_READ_def)
  have user: "vpn2 (stval (one_task (fork_space shared_entry) 0x12345 SUPERVISOR_STORE_PAGE_FAULT)) < 256"
    by (simp add: one_task_simps shared_vpn)
  have sep: "separate (mem (one_task (fork_space shared_entry) 0x12345 SUPERVISOR_STORE_PAGE_FAULT)) (page_va 0) (page_va 4)
      (used_pages 3 (machine_of (one_task (fork_space shared_entry) 0x12345 SUPERVISOR_STORE_PAGE_FAULT)))"
    unfolding one_task_simps by (rule fork_separate(1) [OF fork_space_inv])
  obtain k' page where k': "do_page_fault 0x1000000 (one_task (fork_space shared_entry) 0x12345 SUPERVISOR_STORE_PAGE_FAULT) = Inr k'"
    "translate (mem k') (page_va 0) 0x12345 = Some (leaf_entry (page - PA2VA_OFFSET) (fault_perm the_area))"
    "\<forall>f \<in> used_pages 3 (fork_space shared_entry). f \<notin> tables (leaf_mem shared_entry) (page_va 0) \<longrightarrow>
       (\<forall>x. x - f < 4096 \<longrightarrow> mem k' x = leaf_mem shared_entry x)"
    using shared_write_isolated [OF sit user sep, of "0x1000000"] unfolding one_task_simps fork_space_simps by blast
  have "page_va 3 \<in> used_pages 3 (fork_space shared_entry)" by (simp add: fork_used)
  then have "mem k' (page_va 3 + i) = leaf_mem shared_entry (page_va 3 + i)" if "i < 4096" for i
    using k'(3) tab that by simp
  then show ?thesis using k'(1,2) by auto
qed

end
