(* ===== verification/Process_Correct.thy ===== *)
theory Process_Correct
  imports Process Vm_Correct
begin

text \<open>
  Correctness of process creation: the areas that loading an ELF image gives a task, and the
  bound of the task table, which fork does not look at.
\<close>

section \<open>Areas of a task\<close>

text \<open>What an area says about the address space: its bounds, its part of the image, its permissions.\<close>

definition area_view :: "vm_area_struct \<Rightarrow> u64 \<times> u64 \<times> u64 \<times> u64 \<times> u64" where
  "area_view v = (vm_start v, vm_end v, vm_pgoff v, vm_filesz v, vm_flags v)"

definition areas :: "'a kernel_scheme \<Rightarrow> u64 list \<Rightarrow> (u64 \<times> u64 \<times> u64 \<times> u64 \<times> u64) option list" where
  "areas k ps = map (\<lambda>p. map_option area_view (vma_at k p)) ps"

text \<open>Task \<open>t\<close> has the areas \<open>ps\<close>, each in a page of its own.\<close>

definition has_areas :: "nat \<Rightarrow> u64 \<Rightarrow> u64 list \<Rightarrow> 'a kernel_scheme \<Rightarrow> bool" where
  "has_areas K t ps k \<longleftrightarrow> alloc_ok K (machine_of k) \<and> t \<noteq> 0
     \<and> (\<exists>tk. task_at k t = Some tk \<and> vma_list (vma_at k) (mmap tk) ps)
     \<and> set ps \<subseteq> used_pages K (machine_of k)"

lemma alloc_on_used:
  assumes ok: "alloc_ok K (machine_of k)" and left: "0 < free_pages_left K (machine_of k)"
  obtains p b where "alloc_on k = Inr (p, k\<lparr>bud := b\<rparr>)" "p \<noteq> 0" "p \<notin> used_pages K (machine_of k)"
    "alloc_ok K (machine_of (k\<lparr>bud := b\<rparr>))"
    "used_pages K (machine_of (k\<lparr>bud := b\<rparr>)) = insert p (used_pages K (machine_of k))"
    "Suc (free_pages_left K (machine_of (k\<lparr>bud := b\<rparr>))) = free_pages_left K (machine_of k)"
proof -
  obtain q b where q: "alloc_on k = Inr (page_va q, k\<lparr>bud := b\<rparr>)" "q < 2 ^ K" "q \<notin> pages_in_use K (bud k)"
    "mm_inv K b" "pages_in_use K b = insert q (pages_in_use K (bud k))"
    using alloc_on_fresh [OF ok left] by blast
  have K: "K \<le> 25" and inv: "mm_inv K (bud k)" using ok by (simp_all add: alloc_ok_def)
  have nz: "page_va q \<noteq> 0" using page_va_page(2) small_pow [OF K q(2)] .
  have nu: "page_va q \<notin> used_pages K (machine_of k)"
    using q(2,3) pages_in_use_bound [OF inv] small_pow [OF K] page_va_inj by (auto simp: used_pages_def)
  have mem: "page_va q \<in> page_pool K - used_pages K (machine_of k)"
    using q(2) K nu by (auto simp: page_pool_def)
  have use: "used_pages K (machine_of (k\<lparr>bud := b\<rparr>)) = insert (page_va q) (used_pages K (machine_of k))"
    using q(5) by (simp add: used_pages_def)
  have "alloc_ok K (machine_of (k\<lparr>bud := b\<rparr>))" using ok q(4,5) by (simp add: alloc_ok_def)
  then show thesis
    using that [OF q(1) nz nu _ use] kp.room_insert [OF mem use] by (simp add: free_pages_room)
qed

text \<open>\<open>do_mmap\<close> puts one area in front and leaves the others.\<close>

lemma do_mmap_area:
  assumes h: "has_areas K t ps k" and left: "0 < free_pages_left K (machine_of k)"
  shows "\<exists>k' cur tk. do_mmap t addr len pgoff filesz flags k = Inr (addr, k') \<and> has_areas K t (cur # ps) k'
    \<and> areas k' (cur # ps) = Some (addr, addr + len, pgoff, filesz, flags) # areas k ps
    \<and> Suc (free_pages_left K (machine_of k')) = free_pages_left K (machine_of k)
    \<and> mem k' = mem k \<and> task_at k t = Some tk \<and> task_at k' = (task_at k)(t \<mapsto> tk\<lparr>mmap := cur\<rparr>)
    \<and> used_pages K (machine_of k) \<subseteq> used_pages K (machine_of k')"
proof -
  have ok: "alloc_ok K (machine_of k)" and t: "t \<noteq> 0" and sub: "set ps \<subseteq> used_pages K (machine_of k)"
    using h by (simp_all add: has_areas_def)
  obtain tk where tk: "task_at k t = Some tk" "vma_list (vma_at k) (mmap tk) ps"
    using h by (auto simp: has_areas_def)
  obtain cur b where c: "alloc_on k = Inr (cur, k\<lparr>bud := b\<rparr>)" "cur \<noteq> 0" "cur \<notin> used_pages K (machine_of k)"
    "alloc_ok K (machine_of (k\<lparr>bud := b\<rparr>))"
    "used_pages K (machine_of (k\<lparr>bud := b\<rparr>)) = insert cur (used_pages K (machine_of k))"
    "Suc (free_pages_left K (machine_of (k\<lparr>bud := b\<rparr>))) = free_pages_left K (machine_of k)"
    using alloc_on_used [OF ok left] by blast
  define v where "v = \<lparr>vm_mm = mm_of_task t, vm_start = addr, vm_end = addr + len, vm_next = mmap tk,
    vm_prev = 0, vm_flags = flags, vm_pgoff = pgoff, vm_filesz = filesz\<rparr>"
  define h2 where "h2 = (if mmap tk = 0 then (vma_at k)(cur \<mapsto> v)
     else (vma_at k)(cur \<mapsto> v, mmap tk \<mapsto> (the (vma_at k (mmap tk)))\<lparr>vm_prev := cur\<rparr>))"
  define k' where "k' = k\<lparr>bud := b, vma_at := h2, task_at := (task_at k)(t \<mapsto> tk\<lparr>mmap := cur\<rparr>)\<rparr>"
  have head: "\<exists>w. vma_at k (mmap tk) = Some w" "mmap tk \<in> set ps" if "mmap tk \<noteq> 0"
    using tk(2) that by (cases ps; auto)+
  have run: "do_mmap t addr len pgoff filesz flags k = Inr (addr, k')"
  proof (cases "mmap tk = 0")
    case False
    moreover have "mmap tk \<noteq> cur" using head(2) [OF False] sub c(3) by blast
    ultimately show ?thesis
      using c(1,2) t tk(1) head(1) by (auto simp: do_mmap_def Let_def h2_def v_def k'_def)
  qed (use c(1,2) t tk(1) in \<open>simp add: do_mmap_def Let_def h2_def v_def k'_def\<close>)
  have new: "h2 cur = Some v"
    using head(2) sub c(3) by (auto simp: h2_def)
  have same: "map_option (\<lambda>w. (vm_next w, area_view w)) (h2 q)
      = map_option (\<lambda>w. (vm_next w, area_view w)) (vma_at k q)" if "q \<in> set ps" for q
    using that head sub c(3) by (auto simp: h2_def area_view_def)
  have eqs: "map_option vm_next (h2 q) = map_option vm_next (vma_at k q)"
    "map_option area_view (h2 q) = map_option area_view (vma_at k q)" if "q \<in> set ps" for q
    using same [OF that] by (cases "h2 q"; cases "vma_at k q"; auto)+
  have "vma_list h2 cur (cur # ps)"
    using vma_list_cong [OF eqs(1) tk(2)] new c(2) by (auto simp: v_def)
  moreover have m: "machine_of k' = machine_of (k\<lparr>bud := b\<rparr>)" by (simp add: k'_def machine_of_def)
  ultimately have "has_areas K t (cur # ps) k'"
    using c(4,5) sub t unfolding has_areas_def m by (auto simp: k'_def)
  moreover have "areas k' (cur # ps) = Some (addr, addr + len, pgoff, filesz, flags) # areas k ps"
    using new eqs(2) by (simp add: areas_def k'_def v_def area_view_def)
  moreover have "Suc (free_pages_left K (machine_of k')) = free_pages_left K (machine_of k)"
    "used_pages K (machine_of k) \<subseteq> used_pages K (machine_of k')"
    using c(5,6) m by auto
  moreover have "mem k' = mem k" "task_at k' = (task_at k)(t \<mapsto> tk\<lparr>mmap := cur\<rparr>)" by (simp_all add: k'_def)
  ultimately show ?thesis using run tk(1) by blast
qed

section \<open>Loading an image\<close>

definition program_headers :: "mem \<Rightarrow> u64 \<Rightarrow> elf64_phdr list" where
  "program_headers m img =
     (let ehdr = ehdr_in m img
      in map (\<lambda>i. phdr_in m (img + e_phoff ehdr + 56 * of_nat i)) [0 ..< unat (e_phnum ehdr)])"

definition loaded_area :: "elf64_phdr \<Rightarrow> u64 \<times> u64 \<times> u64 \<times> u64 \<times> u64" where
  "loaded_area ph = (p_vaddr ph, p_vaddr ph + p_memsz ph, p_offset ph, p_filesz ph, segment_flags (p_flags ph))"

definition load_segments :: "elf64_phdr list \<Rightarrow> elf64_phdr list" where
  "load_segments phs = filter (\<lambda>ph. p_type ph = PT_LOAD) phs"

lemma load_segments_snoc:
  "load_segments (phs @ [ph]) = load_segments phs @ (if p_type ph = PT_LOAD then [ph] else [])"
  by (simp add: load_segments_def)

lemma load_elf_aux:
  assumes h: "has_areas K t ps k" and ph: "phs = program_headers (mem k) img"
    and left: "length (load_segments phs) \<le> free_pages_left K (machine_of k)" and tk0: "task_at k t = Some tk"
  shows "\<exists>k' new tk'. load_elf img t k = Inr k' \<and> has_areas K t (new @ ps) k'
    \<and> areas k' (new @ ps) = map (Some \<circ> loaded_area) (rev (load_segments phs)) @ areas k ps
    \<and> task_at k' t = Some tk' \<and> thread tk' = (thread tk)\<lparr>th_sepc := e_entry (ehdr_in (mem k) img)\<rparr>
    \<and> mem k' = mem k
    \<and> free_pages_left K (machine_of k) = free_pages_left K (machine_of k') + length (load_segments phs)
    \<and> used_pages K (machine_of k) \<subseteq> used_pages K (machine_of k')"
proof -
  define phdrs where "phdrs = img + e_phoff (ehdr_in (mem k) img)"
  define n :: u64 where "n = ucast (e_phnum (ehdr_in (mem k) img))"
  have un: "unat n = unat (e_phnum (ehdr_in (mem k) img))"
  proof -
    have "unat (e_phnum (ehdr_in (mem k) img)) < 2 ^ 64" by (rule order_less_le_trans [OF unsigned_less]) simp
    then show ?thesis by (simp add: n_def unsigned_ucast_eq take_bit_eq_mod)
  qed
  define P where "P i s \<longleftrightarrow> (\<exists>new tk'. has_areas K t (new @ ps) s \<and> mem s = mem k
     \<and> areas s (new @ ps) = map (Some \<circ> loaded_area) (rev (load_segments (take (unat i) phs))) @ areas k ps
     \<and> free_pages_left K (machine_of k) = free_pages_left K (machine_of s) + length (load_segments (take (unat i) phs))
     \<and> task_at s t = Some tk' \<and> thread tk' = thread tk
     \<and> used_pages K (machine_of k) \<subseteq> used_pages K (machine_of s))" for i :: u64 and s :: "'a kernel_scheme"
  have "\<exists>s. for_range 0 n (load_segment t phdrs) k = Inr s \<and> P n s"
  proof (rule for_range_inv)
    show "P 0 k" using h tk0 unfolding P_def
      by (intro exI [of _ "[]"] exI [of _ tk]) (simp add: load_segments_def)
  next
    fix j :: u64 and s :: "'a kernel_scheme" assume j: "j < n" and P: "P j s"
    obtain new tk' where s: "has_areas K t (new @ ps) s" "mem s = mem k"
      "areas s (new @ ps) = map (Some \<circ> loaded_area) (rev (load_segments (take (unat j) phs))) @ areas k ps"
      "free_pages_left K (machine_of k) = free_pages_left K (machine_of s) + length (load_segments (take (unat j) phs))"
      "task_at s t = Some tk'" "thread tk' = thread tk"
      "used_pages K (machine_of k) \<subseteq> used_pages K (machine_of s)"
      using P unfolding P_def by blast
    have jn: "unat j < length phs" using j un by (simp add: ph program_headers_def Let_def word_less_nat_alt)
    have uj: "unat (j + 1) = Suc (unat j)" using word_Suc_less(1) [OF j] .
    define hd where "hd = phdr_in (mem k) (phdrs + 56 * j)"
    have hd: "phs ! unat j = hd"
      using jn by (simp add: ph program_headers_def Let_def hd_def phdrs_def)
    have tk1: "take (unat (j + 1)) phs = take (unat j) phs @ [hd]"
      unfolding uj using take_Suc_conv_app_nth [OF jn] hd by simp
    show "\<exists>s'. load_segment t phdrs j s = Inr s' \<and> P (j + 1) s'"
    proof (cases "p_type hd = PT_LOAD")
      case False
      then have "load_segment t phdrs j s = Inr s" using s(2) by (simp add: load_segment_def hd_def)
      moreover have "P (j + 1) s" unfolding P_def tk1 load_segments_snoc using False s by auto
      ultimately show ?thesis by blast
    next
      case True
      have "length (load_segments (take (unat (j + 1)) phs)) \<le> length (load_segments phs)"
      proof -
        have "load_segments phs = load_segments (take (unat (j + 1)) phs) @ load_segments (drop (unat (j + 1)) phs)"
          unfolding load_segments_def filter_append [symmetric] append_take_drop_id ..
        then show ?thesis by simp
      qed
      then have "0 < free_pages_left K (machine_of s)"
        using left s(4) True unfolding tk1 load_segments_snoc by simp
      from do_mmap_area [OF s(1) this, of "p_vaddr hd" "p_memsz hd" "p_offset hd" "p_filesz hd" "segment_flags (p_flags hd)"]
      obtain s' cur tk2 where s': "do_mmap t (p_vaddr hd) (p_memsz hd) (p_offset hd) (p_filesz hd)
          (segment_flags (p_flags hd)) s = Inr (p_vaddr hd, s')"
        "has_areas K t (cur # new @ ps) s'" "areas s' (cur # new @ ps) = Some (loaded_area hd) # areas s (new @ ps)"
        "Suc (free_pages_left K (machine_of s')) = free_pages_left K (machine_of s)" "mem s' = mem s"
        "task_at s t = Some tk2" "task_at s' = (task_at s)(t \<mapsto> tk2\<lparr>mmap := cur\<rparr>)"
        "used_pages K (machine_of s) \<subseteq> used_pages K (machine_of s')"
        unfolding loaded_area_def by blast
      have "load_segment t phdrs j s = Inr s'" using s'(1) s(2) True by (simp add: load_segment_def hd_def)
      moreover have "P (j + 1) s'"
        unfolding P_def tk1 load_segments_snoc using s s' True
        by (intro exI [of _ "cur # new"] exI [of _ "tk2\<lparr>mmap := cur\<rparr>"]) simp
      ultimately show ?thesis by blast
    qed
  qed simp
  then obtain s where s: "for_range 0 n (load_segment t phdrs) k = Inr s" "P n s" by blast
  have all: "take (unat n) phs = phs" by (simp add: un ph program_headers_def Let_def)
  obtain new tk' where f: "has_areas K t (new @ ps) s" "mem s = mem k"
      "areas s (new @ ps) = map (Some \<circ> loaded_area) (rev (load_segments phs)) @ areas k ps"
      "task_at s t = Some tk'" "thread tk' = thread tk"
      "free_pages_left K (machine_of k) = free_pages_left K (machine_of s) + length (load_segments phs)"
      "used_pages K (machine_of k) \<subseteq> used_pages K (machine_of s)"
    using s(2) unfolding P_def all by blast
  have t: "t \<noteq> 0" using h by (simp add: has_areas_def)
  define tk2 where "tk2 = tk'\<lparr>thread := (thread tk')\<lparr>th_sepc := e_entry (ehdr_in (mem k) img)\<rparr>\<rparr>"
  define k' where "k' = s\<lparr>task_at := (task_at s)(t \<mapsto> tk2)\<rparr>"
  have run: "load_elf img t k = Inr k'"
    using s(1) t f(4) unfolding load_elf_def Let_def phdrs_def [symmetric] n_def [symmetric]
    by (simp add: k'_def tk2_def)
  have "has_areas K t (new @ ps) k'"
    using f(1,4) by (simp add: has_areas_def k'_def tk2_def machine_of_def)
  moreover have "areas k' (new @ ps) = areas s (new @ ps)" "machine_of k' = machine_of s"
    by (simp_all add: areas_def k'_def machine_of_def)
  ultimately show ?thesis
    using run f by (intro exI [of _ k'] exI [of _ new] exI [of _ tk2])
      (simp add: k'_def tk2_def machine_of_def)
qed

text \<open>
  C36: \<open>load_elf\<close> gives the task one area for each loadable segment of the image, with the bounds,
  file range and permissions of its program header, the last segment in front; the areas it had
  stay behind them, the task starts at the image's entry point, and no byte of memory changes.
\<close>

theorem load_elf_areas:
  assumes "has_areas K t ps k" and "task_at k t = Some tk"
    and "length (load_segments (program_headers (mem k) img)) \<le> free_pages_left K (machine_of k)"
  shows "\<exists>k' new tk'. load_elf img t k = Inr k' \<and> has_areas K t (new @ ps) k'
    \<and> areas k' (new @ ps)
        = map (Some \<circ> loaded_area) (rev (load_segments (program_headers (mem k) img))) @ areas k ps
    \<and> task_at k' t = Some tk' \<and> thread tk' = (thread tk)\<lparr>th_sepc := e_entry (ehdr_in (mem k) img)\<rparr>
    \<and> mem k' = mem k"
  using load_elf_aux [OF assms(1) refl assms(3,2)] by blast

section \<open>The task table\<close>

text \<open>The routines fork and the first tasks are made of leave the task table alone.\<close>

definition same_tasks :: "'a kernel_scheme \<Rightarrow> 'a kernel_scheme \<Rightarrow> bool" where
  "same_tasks k k' \<longleftrightarrow> task k' = task k \<and> nr_tasks k' = nr_tasks k"

lemma same_tasks_refl [simp]: "same_tasks k k"
  by (simp add: same_tasks_def)

lemma same_tasks_trans: "same_tasks k k' \<Longrightarrow> same_tasks k' k'' \<Longrightarrow> same_tasks k k''"
  by (simp add: same_tasks_def)

lemma same_tasks_steps:
  "alloc_on k = Inr (p, k') \<Longrightarrow> same_tasks k k'"
  "copy_to_page q d s n k = Inr k' \<Longrightarrow> same_tasks k k'"
  "put_task t f k = Inr k' \<Longrightarrow> same_tasks k k'"
  "on_machine g k = Inr k' \<Longrightarrow> same_tasks k k'"
  "file_init k = Inr (p, k') \<Longrightarrow> same_tasks k k'"
  by (auto simp: same_tasks_def alloc_on_def with_machine_def copy_to_page_def put_task_def on_machine_def
      file_init_def Let_def split: if_splits)

lemma new_pgd_tasks: "new_pgd sw k = Inr (p, k') \<Longrightarrow> same_tasks k k'"
  unfolding new_pgd_def by (auto dest!: same_tasks_steps intro: same_tasks_trans)

lemma do_mmap_tasks: "do_mmap t addr len off fsz fl k = Inr (r, k') \<Longrightarrow> same_tasks k k'"
  unfolding do_mmap_def Let_def
  by (auto dest!: same_tasks_steps(1) simp: same_tasks_def split: if_splits)

lemma fork_page_tasks: "fork_page parent root addr k = Inr k' \<Longrightarrow> same_tasks k k'"
  unfolding fork_page_def Let_def
  by (auto dest!: same_tasks_steps(4) simp: same_tasks_def split: if_splits)

lemma fork_pages_tasks: "fork_pages n parent root stop addr k = Inr k' \<Longrightarrow> same_tasks k k'"
proof (induction n parent root stop addr k rule: fork_pages.induct)
  case (1 n parent root stop addr k)
  show ?case
  proof (cases "addr < stop \<and> n \<noteq> 0")
    case True
    then obtain k1 where k1: "fork_page parent root addr k = Inr k1"
      "fork_pages (n - 1) parent root stop (addr + PGSIZE) k1 = Inr k'"
      using "1.prems" by (auto simp: fork_pages.simps [of n])
    have "same_tasks k1 k'" using "1.IH" [OF _ _ k1(1) k1(2)] True by simp
    then show ?thesis using fork_page_tasks [OF k1(1)] same_tasks_trans by blast
  next
    case False
    then show ?thesis using "1.prems" by (simp add: fork_pages.simps [of n] split: if_splits)
  qed
qed

lemma fork_areas_tasks: "fork_areas n child parent root vma k = Inr k' \<Longrightarrow> same_tasks k k'"
proof (induction n arbitrary: vma k)
  case (Suc n)
  show ?case
  proof (cases "vma = 0")
    case False
    then obtain v w :: vm_area_struct and a k1 k2 m where s: "do_mmap child (vm_start v) (vm_end v - vm_start v) (vm_pgoff v) (vm_filesz v)
        (vm_flags v) k = Inr (a, k1)"
      "fork_pages m parent root (vm_end v) (PGROUNDDOWN (vm_start v)) k1 = Inr k2"
      "fork_areas n child parent root (vm_next w) k2 = Inr k'"
      using Suc.prems by (auto simp: fork_areas.simps [of "Suc n"])
    show ?thesis
      using do_mmap_tasks [OF s(1)] fork_pages_tasks [OF s(2)] Suc.IH [OF s(3)] by (simp add: same_tasks_def)
  qed (use Suc.prems in \<open>simp add: fork_areas.simps\<close>)
qed (simp add: fork_areas.simps split: if_splits)

lemma load_elf_tasks: "load_elf img t k = Inr k' \<Longrightarrow> same_tasks k k'"
proof -
  assume "load_elf img t k = Inr k'"
  then obtain n phdrs k1 where k1: "for_range 0 n (load_segment t phdrs) k = Inr k1" "same_tasks k1 k'"
    by (auto simp: load_elf_def Let_def same_tasks_def)
  have "same_tasks k k1"
    by (rule for_range_partial [OF k1(1)])
      (auto simp: load_segment_def Let_def dest!: do_mmap_tasks intro: same_tasks_trans split: if_splits)
  then show ?thesis using k1(2) by (rule same_tasks_trans)
qed

lemma init_task_count:
  assumes "init_task b i k = Inr k'"
  shows "length (task k') = length (task k) \<and> nr_tasks k' = nr_tasks k + 1"
  using assms unfolding init_task_def Let_def
  by (auto dest!: same_tasks_steps new_pgd_tasks load_elf_tasks do_mmap_tasks elim!: aset_InrE
      simp: same_tasks_def split: prod.splits if_splits)

text \<open>\<open>NR_TASKS\<close> is 2, and the idle task and the first process already fill the table.\<close>

lemma first_tasks_count:
  assumes "bindr (init_idle k) (for_range 1 NR_TASKS (init_task b)) = Inr k'"
  shows "nr_tasks k' = NR_TASKS \<and> length (task k') = length (task k)"
proof -
  obtain k1 where k1: "init_idle k = Inr k1" "for_range 1 NR_TASKS (init_task b) k1 = Inr k'"
    using assms by auto
  have one: "nr_tasks k1 = 1" "length (task k1) = length (task k)"
    using k1(1) by (auto simp: init_idle_def Let_def same_tasks_def dest!: same_tasks_steps(1) elim!: aset_InrE split: if_splits)
  have "init_task b 1 k1 = Inr k'" using k1(2) by (auto simp: for_range.simps NR_TASKS_def)
  then show ?thesis using one init_task_count [of b 1 k1 k'] by (simp add: NR_TASKS_def)
qed

text \<open>
  Once the task table is full, which it is after the first tasks have been set up, fork never
  comes back with a child: it stores the child behind the end of the table.
\<close>

lemma full_table_fork:
  assumes "length (task k) \<le> unat (nr_tasks k)"
  shows "do_fork b regs k \<noteq> Inr r"
proof
  assume "do_fork b regs k = Inr r"
  then obtain ts x k' where "same_tasks k k'" "aset (task k') (nr_tasks k') x = Inr ts"
    unfolding do_fork_def Let_def
    by (auto dest!: same_tasks_steps new_pgd_tasks fork_areas_tasks simp: same_tasks_def set_x_def advance_sepc_def)
  then show False using assms by (simp add: same_tasks_def aset_def)
qed

end
