(* ===== verification/Syscall.thy ===== *)
theory Syscall
  imports Process
begin

text \<open>
  The system calls of \<^verbatim>\<open>arch/riscv/kernel/syscall.c\<close> and the trap handler of \<^verbatim>\<open>trap.c\<close>. A call finds
  its arguments in the registers saved at \<open>regs\<close>, leaves its result in the slot of \<^verbatim>\<open>a0\<close>, and the
  handler moves the saved \<^verbatim>\<open>sepc\<close> past the \<^verbatim>\<open>ecall\<close>.
\<close>

section \<open>The file of a descriptor\<close>

text \<open>The file table of the running task; a task without one is a panic.\<close>

definition current_files :: "'a kernel_scheme \<Rightarrow> (u64 \<times> file_struct list) res" where
  "current_files k =
     bindr (deref (task_at k) (current k)) (\<lambda>cur.
     if files cur = 0 then Inl Panic
     else bindr (deref (files_at k) (files cur)) (\<lambda>f. Inr (files cur, fd_array f)))"

definition set_file :: "u64 \<Rightarrow> 'i::len word \<Rightarrow> file_struct \<Rightarrow> 'a kernel_scheme \<Rightarrow> 'a kernel_scheme res" where
  "set_file p i fl k =
     bindr (deref (files_at k) p) (\<lambda>f.
     bindr (aset (fd_array f) i fl) (\<lambda>fds.
     Inr (k\<lparr>files_at := (files_at k)(p \<mapsto> f\<lparr>fd_array := fds\<rparr>)\<rparr>)))"

text \<open>A call through a function pointer: the file and the result register get what it returns.\<close>

definition finish_call ::
  "u64 \<Rightarrow> u64 \<Rightarrow> 'i::len word \<Rightarrow> (u64 \<times> file_struct \<times> 'a kernel_scheme) res \<Rightarrow> 'a kernel_scheme res" where
  "finish_call regs p fd call =
     bindr call (\<lambda>(r, fl, k).
     bindr (set_file p fd fl k) (\<lambda>k. Inr (set_x regs REG_IDX_A0 r k)))"

section \<open>System calls\<close>

type_synonym ('w, 'd, 'a) syscall =
  "('w, 'd) board \<Rightarrow> u64 \<Rightarrow> ('w, 'd, 'a) system_scheme \<Rightarrow> ('w, 'd, 'a) system_scheme res"

definition sys_seek :: "('w, 'd, 'a) syscall" where
  "sys_seek b regs k =
     (let fd = ucast (get_x regs REG_IDX_A0 k) :: u32;
          offset = get_x regs REG_IDX_A1 k;
          whence = ucast (get_x regs REG_IDX_A2 k) :: u32
      in bindr (current_files k) (\<lambda>(p, fds).
         bindr (aget fds fd) (\<lambda>fl.
         if opened fl = 0 then Inr k
         else finish_call regs p fd (call_lseek b fl offset (ucast whence) k))))"

definition sys_read :: "('w, 'd, 'a) syscall" where
  "sys_read b regs k =
     (let fd = get_x regs REG_IDX_A0 k;
          buf = get_x regs REG_IDX_A1 k;
          count = get_x regs REG_IDX_A2 k
      in bindr (current_files k) (\<lambda>(p, fds).
         bindr (aget fds fd) (\<lambda>fl.
         if opened fl = 0 then Inr (set_x regs REG_IDX_A0 ERROR_FILE_NOT_OPEN k)
         else if perms fl AND FILE_READABLE = 0 then Inr (set_x regs REG_IDX_A0 ERROR_FILE_NOT_OPEN k)
         else finish_call regs p fd (call_read b fl buf count k))))"

definition sys_write :: "('w, 'd, 'a) syscall" where
  "sys_write b regs k =
     (let fd = get_x regs REG_IDX_A0 k;
          buf = get_x regs REG_IDX_A1 k;
          count = get_x regs REG_IDX_A2 k
      in bindr (current_files k) (\<lambda>(p, fds).
         bindr (aget fds fd) (\<lambda>fl.
         if opened fl = 0 then Inr (set_x regs REG_IDX_A0 ERROR_FILE_NOT_OPEN k)
         else if perms fl AND FILE_WRITABLE = 0 then Inr (set_x regs REG_IDX_A0 ERROR_FILE_NOT_OPEN k)
         else finish_call regs p fd (call_write b fl buf count k))))"

text \<open>The first closed file from descriptor 3 on.\<close>

definition free_descriptor :: "file_struct list \<Rightarrow> (nat \<times> file_struct) option" where
  "free_descriptor fds = find (\<lambda>(i, fl). opened fl = 0) (drop 3 (enumerate 0 (take MAX_FILE_NUMBER fds)))"

definition sys_openat :: "('w, 'd, 'a) syscall" where
  "sys_openat b regs k =
     (let flags = ucast (get_x regs REG_IDX_A2 k) :: u32;
          pathname = get_x regs REG_IDX_A1 k
      in bindr (current_files k) (\<lambda>(p, fds).
         case free_descriptor fds of
           None \<Rightarrow> Inr (set_x regs REG_IDX_A0 (- 1) k)
         | Some (i, fl) \<Rightarrow>
             bindr (file_open b fl pathname flags k) (\<lambda>(r, fl, k).
             bindr (set_file p (of_nat i :: u64) fl k) (\<lambda>k. Inr (set_x regs REG_IDX_A0 (scast r) k)))))"

definition sys_close :: "('w, 'd, 'a) syscall" where
  "sys_close b regs k =
     (let fd = ucast (get_x regs REG_IDX_A0 k) :: u32
      in bindr (current_files k) (\<lambda>(p, fds).
         bindr (aget fds fd) (\<lambda>fl.
         if opened fl = 0 then Inr k else set_file p fd (fl\<lparr>opened := 0\<rparr>) k)))"

definition sys_getpid :: "('w, 'd, 'a) syscall" where
  "sys_getpid b regs k =
     bindr (deref (task_at k) (current k)) (\<lambda>cur. Inr (set_x regs REG_IDX_A0 (pid cur) k))"

definition sys_clone :: "('w, 'd, 'a) syscall" where
  "sys_clone b regs k = bindr (do_fork b regs k) (\<lambda>(r, k). Inr (set_x regs REG_IDX_A0 r k))"

section \<open>Dispatch\<close>

definition SYS_OPENAT :: u64 where "SYS_OPENAT = 56"
definition SYS_CLOSE :: u64 where "SYS_CLOSE = 57"
definition SYS_SEEK :: u64 where "SYS_SEEK = 62"
definition SYS_READ :: u64 where "SYS_READ = 63"
definition SYS_WRITE :: u64 where "SYS_WRITE = 64"
definition SYS_GETPID :: u64 where "SYS_GETPID = 172"
definition SYS_CLONE :: u64 where "SYS_CLONE = 220"

text \<open>The table ends with the entry of \<^verbatim>\<open>SYS_CLONE\<close>; the other entries are null.\<close>

definition syscall_table :: "u64 \<Rightarrow> ('w, 'd, 'a) syscall option res" where
  "syscall_table i =
     (if i = SYS_OPENAT then Inr (Some sys_openat)
      else if i = SYS_CLOSE then Inr (Some sys_close)
      else if i = SYS_SEEK then Inr (Some sys_seek)
      else if i = SYS_READ then Inr (Some sys_read)
      else if i = SYS_WRITE then Inr (Some sys_write)
      else if i = SYS_GETPID then Inr (Some sys_getpid)
      else if i = SYS_CLONE then Inr (Some sys_clone)
      else if i < SYS_CLONE then Inr None
      else Inl Out_Of_Bounds)"

definition syscall_handler :: "('w, 'd, 'a) syscall" where
  "syscall_handler b regs k =
     (let syscall_id = get_x regs REG_IDX_A7 k
      in bindr (syscall_table syscall_id) (\<lambda>h.
         case h of
           None \<Rightarrow> Inl Panic
         | Some handler \<Rightarrow> bindr (handler b regs k) (\<lambda>k. Inr (advance_sepc regs k))))"

section \<open>Traps\<close>

definition SUPERVISOR_ECALL_FROM_USER :: u64 where "SUPERVISOR_ECALL_FROM_USER = 8"

text \<open>Every interrupt is taken for the timer's.\<close>

definition trap_handler ::
  "('w, 'd) board \<Rightarrow> u64 \<Rightarrow> u64 \<Rightarrow> u64 \<Rightarrow> ('w, 'd, 'a) system_scheme \<Rightarrow> ('w, 'd, 'a) system_scheme res" where
  "trap_handler b cause sepc regs k =
     (let interrupt = drop_bit 63 cause AND 1;
          exception_code = cause AND 0x7FFFFFFF
      in if interrupt \<noteq> 0 then do_timer (clock_set_next_event (firmware b) k)
         else if exception_code = SUPERVISOR_LOAD_PAGE_FAULT \<or> exception_code = SUPERVISOR_STORE_PAGE_FAULT
                 \<or> exception_code = SUPERVISOR_INST_PAGE_FAULT
         then do_page_fault (ramdisk b) k
         else if exception_code = SUPERVISOR_ECALL_FROM_USER then syscall_handler b regs k
         else Inl Panic)"

section \<open>Entering and leaving the kernel\<close>

text \<open>
  \<^verbatim>\<open>_traps\<close> of \<^verbatim>\<open>entry.S\<close>: the hart's registers \<open>x0\<close> to \<open>x31\<close>, and the control registers it uses.
  \<^verbatim>\<open>switch_stack\<close> exchanges \<^verbatim>\<open>sp\<close> and \<^verbatim>\<open>sscratch\<close> unless that would make \<^verbatim>\<open>sp\<close> zero.
\<close>

record hart =
  xregs :: "u64 list"
  h_sepc :: u64
  h_sstatus :: u64
  h_sscratch :: u64

definition switch_stack :: "hart \<Rightarrow> hart" where
  "switch_stack h =
     (if h_sscratch h = 0 then h
      else h\<lparr>xregs := (xregs h)[2 := h_sscratch h], h_sscratch := xregs h ! 2\<rparr>)"

definition pt_regs_size :: u64 where "pt_regs_size = (32 + 2) * 8"

definition trap_save :: "hart \<Rightarrow> mem \<Rightarrow> u64 \<times> hart \<times> mem" where
  "trap_save h m =
     (let h = switch_stack h;
          sp = xregs h ! 2 - pt_regs_size;
          h = h\<lparr>xregs := (xregs h)[2 := sp]\<rparr>;
          m = fold (\<lambda>i m. wr64 m (reg_slot sp (of_nat i)) (xregs h ! i)) [0 ..< 32] m;
          m = wr64 m (sepc_slot sp) (h_sepc h);
          m = wr64 m (sstatus_slot sp) (h_sstatus h)
      in (sp, h, m))"

text \<open>\<^verbatim>\<open>__ret_from_fork\<close>, with \<^verbatim>\<open>sp\<close> at the frame: \<^verbatim>\<open>x2\<close> comes last, and \<^verbatim>\<open>x0\<close> stays zero.\<close>

definition trap_return :: "u64 \<Rightarrow> u64 \<Rightarrow> mem \<Rightarrow> hart" where
  "trap_return sp scratch m =
     (let xs = 0 # map (\<lambda>i. rd64 m (reg_slot sp (of_nat i))) [1 ..< 32];
          xs = xs[2 := xs ! 2 + pt_regs_size]
      in switch_stack \<lparr>xregs = xs, h_sepc = rd64 m (sepc_slot sp), h_sstatus = rd64 m (sstatus_slot sp),
           h_sscratch = scratch\<rparr>)"

end
