(* ===== verification/Trap_Correct.thy ===== *)
theory Trap_Correct
  imports Syscall
begin

text \<open>
  The trap frame: what \<^verbatim>\<open>_traps\<close> saves is what returning from the trap restores, for any change the
  kernel makes to the slots of \<^verbatim>\<open>a0\<close> and \<^verbatim>\<open>sepc\<close> in between.
\<close>

section \<open>The slots of a frame\<close>

lemma reg_slot_apart:
  assumes "i < 34" "j < 34" "i \<noteq> j"
  shows "8 \<le> unat (reg_slot sp (of_nat i) - reg_slot sp (of_nat j))"
proof -
  have "reg_slot sp (of_nat i) - reg_slot sp (of_nat j) = of_nat (8 * i) - of_nat (8 * j)"
    by (simp add: reg_slot_def)
  moreover have "unat (of_nat (8 * l) :: u64) = 8 * l" if "l < 34" for l
    using that by (intro unat_of_nat_small) simp
  then have "8 \<le> unat (of_nat (8 * i) - of_nat (8 * j) :: u64)"
    using assms by (intro aligned8_apart) (simp_all add: aligned8_def word_unat_eq_iff del: of_nat_mult)
  ultimately show ?thesis by simp
qed

lemma rd_slot_upd:
  assumes "i < 34" "j < 34"
  shows "rd64 (wr64 m (reg_slot sp (of_nat i)) v) (reg_slot sp (of_nat j))
    = (if i = j then v else rd64 m (reg_slot sp (of_nat j)))"
  using reg_slot_apart [OF assms, of sp] reg_slot_apart [OF assms(2,1), of sp]
  by (auto simp: rd64_def wr64_def load_store_apart le_word_le_bytes)

lemma slot_names: "sepc_slot sp = reg_slot sp (of_nat 32)" "sstatus_slot sp = reg_slot sp (of_nat 33)"
  by (simp_all add: sepc_slot_def sstatus_slot_def)

lemma saved_registers:
  assumes "n \<le> 32" "j < 34"
  shows "rd64 (fold (\<lambda>i m. wr64 m (reg_slot sp (of_nat i)) (xs ! i)) [0 ..< n] m) (reg_slot sp (of_nat j))
    = (if j < n then xs ! j else rd64 m (reg_slot sp (of_nat j)))"
  using assms by (induction n) (auto simp: rd_slot_upd less_Suc_eq)

text \<open>A slot lies inside the frame, so a store to it leaves the bytes outside alone.\<close>

lemma slot_far:
  assumes "i < 34" "\<not> x - sp < pt_regs_size"
  shows "wr64 m (reg_slot sp (of_nat i)) v x = m x"
proof -
  have "\<not> unat (x - reg_slot sp (of_nat i)) < 8"
  proof
    assume *: "unat (x - reg_slot sp (of_nat i)) < 8"
    have "unat (of_nat (8 * i) :: u64) = 8 * i" using assms(1) by (intro unat_of_nat_small) simp
    then have "unat (of_nat (8 * i) + (x - reg_slot sp (of_nat i))) = 8 * i + unat (x - reg_slot sp (of_nat i))"
      using * assms(1) by (simp only: unat_word_ariths) simp
    moreover have "of_nat (8 * i) + (x - reg_slot sp (of_nat i)) = x - sp" by (simp add: reg_slot_def)
    ultimately have "unat (x - sp) = 8 * i + unat (x - reg_slot sp (of_nat i))" by argo
    then show False using * assms by (simp add: word_less_nat_alt pt_regs_size_def)
  qed
  then show ?thesis by (simp add: wr64_def store_def)
qed

lemma saved_registers_far:
  "n \<le> 34 \<Longrightarrow> \<not> x - sp < pt_regs_size
   \<Longrightarrow> fold (\<lambda>i m. wr64 m (reg_slot sp (of_nat i)) (xs ! i)) [0 ..< n] m x = m x"
  by (induction n) (simp_all add: slot_far)

text \<open>The frame at \<open>sp\<close> in memory \<open>m\<close>: all 34 slots.\<close>

definition frame_holds :: "mem \<Rightarrow> u64 \<Rightarrow> u64 list \<Rightarrow> u64 \<Rightarrow> u64 \<Rightarrow> bool" where
  "frame_holds m sp xs pc status \<longleftrightarrow>
     (\<forall>i < 32. rd64 m (reg_slot sp (of_nat i)) = xs ! i)
     \<and> rd64 m (sepc_slot sp) = pc \<and> rd64 m (sstatus_slot sp) = status"

definition hart_wf :: "hart \<Rightarrow> bool" where
  "hart_wf h \<longleftrightarrow> length (xregs h) = 32 \<and> xregs h ! 0 = 0"

lemma trap_save_frame:
  assumes "hart_wf h" "trap_save h m = (sp, h', m')"
  shows "frame_holds m' sp ((xregs h)[2 := sp]) (h_sepc h) (h_sstatus h)"
    and "h_sscratch h' = (if h_sscratch h = 0 then 0 else xregs h ! 2)"
    and "sp = (if h_sscratch h = 0 then xregs h ! 2 else h_sscratch h) - pt_regs_size"
proof -
  have len: "length (xregs h) = 32" using assms(1) by (simp add: hart_wf_def)
  then have "2 < length (xregs h)" by simp
  with assms(2) show "h_sscratch h' = (if h_sscratch h = 0 then 0 else xregs h ! 2)"
    and sp: "sp = (if h_sscratch h = 0 then xregs h ! 2 else h_sscratch h) - pt_regs_size"
    by (auto simp: trap_save_def switch_stack_def Let_def)
  have xs: "xregs h' = (xregs h)[2 := sp]"
    using assms(2) len by (auto simp: trap_save_def switch_stack_def Let_def)
  have m': "m' = wr64 (wr64 (fold (\<lambda>i m. wr64 m (reg_slot sp (of_nat i)) (xregs h' ! i)) [0 ..< 32] m)
      (sepc_slot sp) (h_sepc h)) (sstatus_slot sp) (h_sstatus h)"
    using assms(2) by (auto simp: trap_save_def switch_stack_def Let_def)
  show "frame_holds m' sp ((xregs h)[2 := sp]) (h_sepc h) (h_sstatus h)"
    by (simp add: frame_holds_def m' slot_names rd_slot_upd saved_registers xs del: of_nat_numeral)
qed

lemma trap_save_far:
  "trap_save h m = (sp, h', m') \<Longrightarrow> \<not> x - sp < pt_regs_size \<Longrightarrow> m' x = m x"
  by (auto simp: trap_save_def Let_def slot_names slot_far saved_registers_far simp del: of_nat_numeral)

lemma frame_return:
  assumes xs: "length xs = 32" "xs ! 0 = 0" and f: "frame_holds m sp xs pc status"
  shows "trap_return sp scratch m = switch_stack
    \<lparr>xregs = xs[2 := xs ! 2 + pt_regs_size], h_sepc = pc, h_sstatus = status, h_sscratch = scratch\<rparr>"
proof -
  have "0 # map (\<lambda>i. rd64 m (reg_slot sp (of_nat i))) [1 ..< 32] = xs"
  proof (rule nth_equalityI)
    fix i assume "i < length (0 # map (\<lambda>i. rd64 m (reg_slot sp (of_nat i))) [1 ..< 32])"
    then show "(0 # map (\<lambda>i. rd64 m (reg_slot sp (of_nat i))) [1 ..< 32]) ! i = xs ! i"
      using f xs by (cases i) (auto simp: frame_holds_def simp del: of_nat_Suc)
  qed (simp add: xs)
  then show ?thesis using f by (simp add: trap_return_def frame_holds_def Let_def)
qed

text \<open>C30: A trap and the return from it leave the interrupted program with its own registers, except
  for the result in \<^verbatim>\<open>a0\<close> and the new \<^verbatim>\<open>sepc\<close>, whenever the kernel touches no other slot of the
  frame. The one exception is a program whose stack pointer is zero when it traps into the kernel
  from its own stack: it comes back with the address of the kernel's stack.\<close>

theorem trap_frame_returns:
  assumes "hart_wf h" and "trap_save h m = (sp, h', m')"
    and "frame_holds m'' sp ((xregs h)[2 := sp, 10 := r]) pc (h_sstatus h)"
  shows "trap_return sp (h_sscratch h') m''
    = (let back = h\<lparr>xregs := (xregs h)[10 := r], h_sepc := pc\<rparr>
       in if h_sscratch h \<noteq> 0 \<and> xregs h ! 2 = 0
          then back\<lparr>xregs := (xregs back)[2 := h_sscratch h], h_sscratch := 0\<rparr>
          else back)"
proof -
  have len: "length (xregs h) = 32" and x0: "xregs h ! 0 = 0" using assms(1) by (simp_all add: hart_wf_def)
  note save = trap_save_frame [OF assms(1,2)]
  have ret: "trap_return sp (h_sscratch h') m'' = switch_stack
    \<lparr>xregs = (xregs h)[2 := sp + pt_regs_size, 10 := r], h_sepc = pc, h_sstatus = h_sstatus h,
     h_sscratch = h_sscratch h'\<rparr>"
    using frame_return [OF _ _ assms(3)] len x0 by (simp add: list_update_swap)
  have same: "(xregs h)[10 := r, 2 := xregs h ! 2] = (xregs h)[10 := r]"
    by (simp add: list_update_swap [of 10 2])
  show ?thesis
    unfolding ret unfolding switch_stack_def Let_def save(2) save(3)
    using len same by (cases h) (auto simp: list_update_swap [of 2 10])
qed

end
