(* ===== verification/Fat32_Walk.thy ===== *)
theory Fat32_Walk
  imports Fat32
begin

text \<open>
  The walk that \<^verbatim>\<open>fat32_read\<close> and \<^verbatim>\<open>fat32_write\<close> share, for any transfer of pieces: on a
  well-formed cluster chain it visits the sectors of the file in order, hands every byte range
  between the two positions to the transfer exactly once, and ends.
\<close>

section \<open>The sectors of a file\<close>

fun fat_chain :: "u8 list \<Rightarrow> u32 \<Rightarrow> u32 list \<Rightarrow> bool" where
  "fat_chain tbl c [] \<longleftrightarrow> 0x0ffffff8 \<le> c"
| "fat_chain tbl c (x # xs) \<longleftrightarrow> x = c \<and> unat c < 128 \<and> fat_chain tbl (u32_at tbl (4 * unat c)) xs"

definition spc :: "fat32_volume \<Rightarrow> nat" where
  "spc v = unat (sec_per_cluster v)"

definition cluster_sectors :: "fat32_volume \<Rightarrow> u32 \<Rightarrow> u64 list" where
  "cluster_sectors v c = map (\<lambda>i. cluster_to_sector v (ucast c) + of_nat i) [0 ..< spc v]"

definition file_sectors :: "fat32_volume \<Rightarrow> u32 list \<Rightarrow> u64 list" where
  "file_sectors v cs = concat (map (cluster_sectors v) cs)"

lemma length_cluster_sectors [simp]: "length (cluster_sectors v c) = spc v"
  by (simp add: cluster_sectors_def)

lemma length_file_sectors [simp]: "length (file_sectors v cs) = length cs * spc v"
  by (induction cs) (simp_all add: file_sectors_def)

lemma file_sectors_nth:
  assumes "j < length cs" "i < spc v"
  shows "file_sectors v cs ! (j * spc v + i) = cluster_to_sector v (ucast (cs ! j)) + of_nat i"
  using assms
proof (induction cs arbitrary: j)
  case (Cons c cs)
  show ?case
  proof (cases j)
    case 0
    then show ?thesis using Cons.prems by (simp add: file_sectors_def nth_append cluster_sectors_def)
  next
    case (Suc l)
    then show ?thesis
      using Cons.prems Cons.IH [of l] by (simp add: file_sectors_def nth_append add.assoc)
  qed
qed simp

section \<open>Progress of the walk\<close>

text \<open>
  \<open>Q pos x s\<close> is what a transfer maintains when all bytes before \<open>pos\<close> are done. A transfer is good
  when it advances \<open>Q\<close> over one piece and leaves volume and table alone.
\<close>

definition good_piece ::
  "('x, 'd) xfer \<Rightarrow> fat32_volume \<Rightarrow> u8 list \<Rightarrow> u64 list \<Rightarrow> nat \<Rightarrow> nat \<Rightarrow> (nat \<Rightarrow> 'x \<Rightarrow> 'd fat32 \<Rightarrow> bool) \<Rightarrow> bool" where
  "good_piece f v tbl secs start stop Q \<longleftrightarrow>
     (\<forall>k < length secs. \<forall>pos x s.
        start \<le> pos \<and> pos \<le> stop \<and> 512 * k \<le> pos \<and> pos < 512 * k + 512
        \<and> fat32_volume s = v \<and> fat32_table_buf s = tbl \<and> Q pos x s \<longrightarrow>
        (let n = min (512 * k + 512 - pos) (stop - pos)
         in \<exists>x' s'. f (secs ! k) (of_nat (pos - 512 * k)) (of_nat n) (of_nat (pos - start)) x s = Inr (x', s')
              \<and> fat32_volume s' = v \<and> fat32_table_buf s' = tbl \<and> Q (pos + n) x' s'))"

definition at_sector ::
  "fat32_volume \<Rightarrow> u8 list \<Rightarrow> nat \<Rightarrow> nat \<Rightarrow> (nat \<Rightarrow> 'x \<Rightarrow> 'd fat32 \<Rightarrow> bool) \<Rightarrow> nat \<Rightarrow> ('x, 'd) walk \<Rightarrow> bool" where
  "at_sector v tbl start stop Q k w \<longleftrightarrow>
     fat32_volume (w_fs w) = v \<and> fat32_table_buf (w_fs w) = tbl
     \<and> (let pos = (if 512 * k \<le> start then start else min (512 * k) stop)
        in w_pos w = of_nat (if 512 * k \<le> start then 512 * k else pos) \<and> w_cfo w = of_nat pos
           \<and> w_len w = of_nat (pos - start) \<and> Q pos (w_data w) (w_fs w))"

definition finished ::
  "fat32_volume \<Rightarrow> u8 list \<Rightarrow> nat \<Rightarrow> nat \<Rightarrow> (nat \<Rightarrow> 'x \<Rightarrow> 'd fat32 \<Rightarrow> bool) \<Rightarrow> ('x, 'd) walk \<Rightarrow> bool" where
  "finished v tbl start stop Q w \<longleftrightarrow>
     fat32_volume (w_fs w) = v \<and> fat32_table_buf (w_fs w) = tbl
     \<and> w_pos w = of_nat stop \<and> w_cfo w = of_nat stop \<and> w_len w = of_nat (stop - start)
     \<and> Q stop (w_data w) (w_fs w)"

lemma of_nat_le64: "a < 2 ^ 63 \<Longrightarrow> b < 2 ^ 63 \<Longrightarrow> (of_nat a :: u64) \<le> of_nat b \<longleftrightarrow> a \<le> b"
  by (simp add: word_le_nat_alt unat_of_nat_small)

lemma of_nat_eq64: "a < 2 ^ 63 \<Longrightarrow> b < 2 ^ 63 \<Longrightarrow> (of_nat a :: u64) = of_nat b \<longleftrightarrow> a = b"
  by (simp add: word_unat_eq_iff unat_of_nat_small)

lemma min_of_nat64: "a < 2 ^ 63 \<Longrightarrow> b < 2 ^ 63 \<Longrightarrow> min (of_nat a) (of_nat b) = (of_nat (min a b) :: u64)"
  by (simp add: min_def of_nat_le64)

lemma at_sector_finished:
  assumes "at_sector v tbl start stop Q k w" "start \<le> stop" "stop < 2 ^ 62" "512 * k < 2 ^ 62"
  shows "of_nat stop \<le> w_pos w \<Longrightarrow> finished v tbl start stop Q w"
    and "stop \<le> 512 * k \<Longrightarrow> finished v tbl start stop Q w"
proof -
  show fin: "finished v tbl start stop Q w" if le: "stop \<le> 512 * k"
  proof (cases "512 * k \<le> start")
    case True
    then have "start = stop" "512 * k = stop" using assms(2) le by simp_all
    with assms(1) show ?thesis by (auto simp: at_sector_def finished_def)
  next
    case False
    with assms(1) le show ?thesis by (simp add: at_sector_def finished_def Let_def)
  qed
  assume "of_nat stop \<le> w_pos w"
  then have "stop \<le> 512 * k"
    using assms of_nat_le64 [of stop "512 * k"] of_nat_le64 [of stop "min (512 * k) stop"]
    by (simp add: at_sector_def Let_def split: if_splits)
  then show "finished v tbl start stop Q w" by (rule fin)
qed

lemma body_step:
  assumes good: "good_piece f v tbl secs start stop Q"
    and at: "at_sector v tbl start stop Q k w" and k: "k < length secs" "512 * length secs < 2 ^ 62"
    and le: "start \<le> stop" "stop < 2 ^ 62"
    and sec: "secs ! k = cluster_to_sector v (ucast cl) + ucast sector"
  shows "\<exists>more w'. sector_body f (of_nat stop) cl sector w = Inr (more, w')
    \<and> (if more then at_sector v tbl start stop Q (k + 1) w' else finished v tbl start stop Q w')"
proof -
  have small: "512 * k + 512 < 2 ^ 62" using k by linarith
  have start: "start < 2 ^ 62" using le by simp
  let ?b = "sector_body f (of_nat stop) cl sector w"
  consider (skip) "512 * k + 512 \<le> start" | (fin) "stop \<le> 512 * k" "start < 512 * k + 512"
    | (xfer) "512 * k < stop" "start < 512 * k + 512" by linarith
  then show ?thesis
  proof cases
    case skip
    then have "w_pos w + SECTOR \<le> w_cfo w"
      using at start small of_nat_le64 [of "512 * k + 512" start]
      by (simp add: at_sector_def Let_def SECTOR_def add.commute)
    then have "?b = Inr (True, w\<lparr>w_pos := w_pos w + SECTOR\<rparr>)" by (simp add: sector_body_def)
    moreover have "at_sector v tbl start stop Q (k + 1) (w\<lparr>w_pos := w_pos w + SECTOR\<rparr>)"
      using at skip by (simp add: at_sector_def Let_def SECTOR_def add.commute)
    ultimately show ?thesis by (intro exI [of _ True]) simp
  next
    case fin
    have f: "finished v tbl start stop Q w"
      using at_sector_finished(2) [OF at le] fin small by simp
    have "stop + 512 < 2 ^ 63" using le by simp
    then have "\<not> w_pos w + SECTOR \<le> w_cfo w"
      using f of_nat_le64 [of "stop + 512" stop] le(2)
      by (simp add: finished_def SECTOR_def add.commute)
    then have "?b = Inr (False, w)" using f by (simp add: sector_body_def finished_def)
    with f show ?thesis by (intro exI [of _ False]) simp
  next
    case xfer
    define pos where "pos = max start (512 * k)"
    define n where "n = min (512 * k + 512 - pos) (stop - pos)"
    have pos: "start \<le> pos" "pos \<le> stop" "512 * k \<le> pos" "pos < 512 * k + 512" "pos < 2 ^ 62"
      using xfer le by (auto simp: pos_def)
    have w: "w_cfo w = of_nat pos" "w_len w = of_nat (pos - start)" "w_pos w = of_nat (512 * k)"
      "Q pos (w_data w) (w_fs w)" "fat32_volume (w_fs w) = v" "fat32_table_buf (w_fs w) = tbl"
      using at xfer by (auto simp: at_sector_def Let_def pos_def max_def min_def split: if_splits)
    obtain x' s' where f: "f (secs ! k) (of_nat (pos - 512 * k)) (of_nat n) (of_nat (pos - start)) (w_data w) (w_fs w)
        = Inr (x', s')" "fat32_volume s' = v" "fat32_table_buf s' = tbl" "Q (pos + n) x' s'"
      using good [unfolded good_piece_def, rule_format, OF k(1), of pos "w_fs w" "w_data w"] pos w(4-6)
      by (auto simp: Let_def n_def)
    have no_skip: "\<not> w_pos w + SECTOR \<le> w_cfo w"
      using pos small of_nat_le64 [of "512 * k + 512" pos] by (simp add: w SECTOR_def add.commute)
    have no_end: "\<not> w_pos w \<ge> of_nat stop"
      using xfer small le(2) of_nat_le64 [of stop "512 * k"] by (simp add: w)
    have "unat (of_nat pos :: u64) = pos" using pos(5) by (intro unat_of_nat_small) simp
    then have off: "(of_nat pos :: u64) mod SECTOR = of_nat (pos - 512 * k)"
    proof -
      have "unat (of_nat (pos - 512 * k) :: u64) = pos - 512 * k" using pos(5) by (intro unat_of_nat_small) simp
      moreover have "pos mod 512 = pos - 512 * k" using pos by (intro mod_nat_eqI) auto
      ultimately show ?thesis
        using \<open>unat (of_nat pos :: u64) = pos\<close> by (simp add: word_unat_eq_iff unat_mod SECTOR_def del: of_nat_diff)
    qed
    have left: "SECTOR - of_nat (pos - 512 * k) = of_nat (512 * k + 512 - pos)"
      using pos by (simp add: SECTOR_def)
    have left': "of_nat stop - of_nat pos = (of_nat (stop - pos) :: u64)" using pos by simp
    have len: "min (of_nat (512 * k + 512 - pos)) (of_nat (stop - pos)) = (of_nat n :: u64)"
      unfolding n_def using pos le by (intro min_of_nat64) auto
    have "?b = Inr (True, w\<lparr>w_len := of_nat (pos - start) + of_nat n, w_pos := of_nat pos + of_nat n,
        w_cfo := of_nat pos + of_nat n, w_data := x', w_fs := s'\<rparr>)"
      using no_skip no_end f(1)
      by (simp add: sector_body_def Let_def w off left left' len sec [symmetric] del: of_nat_diff)
    moreover have "at_sector v tbl start stop Q (k + 1) (w\<lparr>w_len := of_nat (pos - start) + of_nat n,
        w_pos := of_nat pos + of_nat n, w_cfo := of_nat pos + of_nat n, w_data := x', w_fs := s'\<rparr>)"
    proof -
      have "pos + n = min (512 * (k + 1)) stop" "\<not> 512 * (k + 1) \<le> start" "pos - start + n = min (512 * (k + 1)) stop - start"
        using pos xfer by (auto simp: n_def)
      then show ?thesis using f by (simp add: at_sector_def Let_def flip: of_nat_add)
    qed
    ultimately show ?thesis by (intro exI [of _ True]) simp
  qed
qed

lemma sector_loop_steps:
  assumes good: "good_piece f v tbl (file_sectors v cs) start stop Q"
    and j: "j < length cs" and spc: "spc v < 2 ^ 32" "512 * (length cs * spc v) < 2 ^ 62"
    and le: "start \<le> stop" "stop < 2 ^ 62"
    and i: "i \<le> spc v" and at: "at_sector v tbl start stop Q (j * spc v + i) w"
  shows "\<exists>w'. sector_loop f (of_nat stop) (cs ! j) (of_nat i) w = Inr w'
    \<and> (finished v tbl start stop Q w' \<or> at_sector v tbl start stop Q (j * spc v + spc v) w')"
  using i at
proof (induction i arbitrary: w rule: inc_induct)
  case base
  have "unat (of_nat (spc v) :: u32) = spc v" using spc(1) by (simp add: unat_of_nat_small)
  then have "\<not> (ucast (of_nat (spc v) :: u32) :: u64) < sec_per_cluster v"
    by (simp add: word_less_nat_alt unat_ucast_up spc_def)
  moreover have "fat32_volume (w_fs w) = v" using base by (simp add: at_sector_def)
  ultimately show ?case using base by (subst sector_loop.simps) auto
next
  case (step i)
  have i: "unat (of_nat i :: u32) = i" using spc(1) step.hyps by (intro unat_of_nat_small) simp
  have "unat (of_nat (Suc i) :: u32) = Suc i" using spc(1) step.hyps by (intro unat_of_nat_small) simp
  with i have lt: "(ucast (of_nat i :: u32) :: u64) < sec_per_cluster v" and nz: "(of_nat i :: u32) + 1 \<noteq> 0"
    using step.hyps by (auto simp: word_less_nat_alt unat_ucast_up spc_def add.commute)
  have vol: "fat32_volume (w_fs w) = v" using step.prems by (simp add: at_sector_def)
  have "Suc j * spc v \<le> length cs * spc v" using j by (intro mult_right_mono) simp_all
  then have k: "j * spc v + i < length (file_sectors v cs)" using step.hyps by simp
  have "file_sectors v cs ! (j * spc v + i) = cluster_to_sector v (ucast (cs ! j)) + ucast (of_nat i :: u32)"
    using file_sectors_nth [OF j step.hyps(2)] of_nat_unat [of "of_nat i :: u32"] i by simp
  from body_step [OF good step.prems k _ le this] spc(2)
  obtain more w' where b: "sector_body f (of_nat stop) (cs ! j) (of_nat i) w = Inr (more, w')"
    "if more then at_sector v tbl start stop Q (j * spc v + i + 1) w' else finished v tbl start stop Q w'"
    by auto
  show ?case
  proof (cases more)
    case True
    then show ?thesis
      using b step.IH [of w'] lt nz vol by (subst sector_loop.simps) (simp add: add.commute)
  next
    case False
    then show ?thesis using b lt vol by (subst sector_loop.simps) simp
  qed
qed

lemma cluster_loop_steps:
  assumes good: "good_piece f v tbl (file_sectors v cs) start stop Q"
    and spc: "spc v < 2 ^ 32" "512 * (length cs * spc v) < 2 ^ 62" and tbl: "length tbl = 512"
    and le: "start \<le> stop" "stop < 2 ^ 62" "stop \<le> 512 * (length cs * spc v)"
    and "fat_chain tbl c (drop j cs)" "j \<le> length cs" "length cs - j \<le> n"
    and "at_sector v tbl start stop Q (j * spc v) w"
  shows "\<exists>w'. cluster_loop n f (of_nat stop) c w = Inr w' \<and> finished v tbl start stop Q w'"
  using assms(8-)
proof (induction n arbitrary: c j w)
  case 0
  then have "at_sector v tbl start stop Q (length cs * spc v) w" by simp
  then have "finished v tbl start stop Q w"
    by (rule at_sector_finished(2) [OF _ le(1,2) spc(2) le(3)])
  then show ?case using 0 by auto
next
  case (Suc n)
  show ?case
  proof (cases "j = length cs")
    case True
    with Suc.prems(4) have "at_sector v tbl start stop Q (length cs * spc v) w" by simp
    then have "finished v tbl start stop Q w"
      by (rule at_sector_finished(2) [OF _ le(1,2) spc(2) le(3)])
    then show ?thesis using True Suc.prems(1) by auto
  next
    case False
    then have j: "j < length cs" using Suc.prems(2) by simp
    then have c: "cs ! j = c" "unat c < 128" "fat_chain tbl (u32_at tbl (4 * unat c)) (drop (Suc j) cs)"
      using Suc.prems(1) by (simp_all add: Cons_nth_drop_Suc [symmetric])
    have lt: "c < 0x0ffffff8" using c(2) by (simp add: word_less_nat_alt)
    obtain w' where w': "sector_loop f (of_nat stop) c 0 w = Inr w'"
      "finished v tbl start stop Q w' \<or> at_sector v tbl start stop Q (j * spc v + spc v) w'"
      using sector_loop_steps [OF good j spc le(1,2), of 0 w] Suc.prems(4) c(1) by auto
    show ?thesis
    proof (cases "of_nat stop \<le> w_pos w'")
      case True
      have "512 * (Suc j * spc v) \<le> 512 * (length cs * spc v)"
        using j by (intro mult_left_mono mult_right_mono) simp_all
      then have "512 * (j * spc v + spc v) < 2 ^ 62" using spc(2) by (simp only: mult_Suc add.commute)
      then have "finished v tbl start stop Q w'"
        using at_sector_finished(1) [OF _ le(1,2) _ True] w'(2) by blast
      then show ?thesis using w'(1) lt True by simp
    next
      case False
      then have at: "at_sector v tbl start stop Q (Suc j * spc v) w'"
        using w'(2) by (auto simp: finished_def add.commute)
      have "4 * (ucast c :: u64) = of_nat (4 * unat c)" by simp
      then have "unat (4 * (ucast c :: u64)) = 4 * unat c" 
        using c(2) by (simp only: unat_of_nat_small) (simp add: unat_of_nat_small del: of_nat_mult)
      then have "fat_entry (w_fs w') c = Inr (u32_at tbl (4 * unat c))"
        using at tbl c(2) by (simp add: fat_entry_def buf_bytes_def at_sector_def u32_at_def)
      then show ?thesis
        using Suc.IH [OF c(3) _ _ at] j Suc.prems(3) lt w'(1) False by simp
    qed
  qed
qed

end
