(* ===== verification/Fat32_Correct.thy ===== *)
theory Fat32_Correct
  imports Fat32_Walk
begin

text \<open>
  What the file operations do to the bytes of a file. A file is the concatenation of its sectors,
  cut to the size in its directory entry; the lemmas are proved from the sector interface.
\<close>

section \<open>Files as byte sequences\<close>

definition file_bytes :: "(u64 \<Rightarrow> u8 list) \<Rightarrow> fat32_volume \<Rightarrow> u32 list \<Rightarrow> u8 list" where
  "file_bytes content v cs = concat (map content (file_sectors v cs))"

definition dir_sector :: "fat32_volume \<Rightarrow> file_struct \<Rightarrow> u64" where
  "dir_sector v fl = cluster_to_sector v (ucast (dir_cluster (dir (fat32_file_of fl))))"

definition dir_size :: "(u64 \<Rightarrow> u8 list) \<Rightarrow> fat32_volume \<Rightarrow> file_struct \<Rightarrow> u32" where
  "dir_size content v fl =
     de_size (dir_entry_of (bytes_at (content (dir_sector v fl)) (32 * unat (dir_index (dir (fat32_file_of fl)))) 32))"

text \<open>
  An open file on a sound volume: its directory entry and the table sector are on the disk, its
  cluster chain lies in the first table sector and covers the size, no cluster occurs twice.
\<close>

definition entry_wf :: "u64 \<Rightarrow> fat32_volume \<Rightarrow> file_struct \<Rightarrow> bool" where
  "entry_wf cap v fl \<longleftrightarrow> dir_sector v fl < cap \<and> unat (dir_index (dir (fat32_file_of fl))) < 16"

definition file_wf :: "(u64 \<Rightarrow> u8 list) \<Rightarrow> u64 \<Rightarrow> fat32_volume \<Rightarrow> file_struct \<Rightarrow> u32 list \<Rightarrow> bool" where
  "file_wf content cap v fl cs \<longleftrightarrow>
     entry_wf cap v fl \<and> first_fat_sec v < cap \<and> spc v < 2 ^ 32
     \<and> fat_chain (content (first_fat_sec v)) (cluster (fat32_file_of fl)) cs \<and> distinct cs
     \<and> (\<forall>n \<in> set (file_sectors v cs). n < cap)
     \<and> unat (dir_size content v fl) \<le> 512 * (length cs * spc v)"

lemma fat_chain_small: "fat_chain tbl c cs \<Longrightarrow> \<forall>x \<in> set cs. unat x < 128"
  by (induction tbl c cs rule: fat_chain.induct) auto

lemma inj_unat: "inj (unat :: 'a::len word \<Rightarrow> nat)"
  by (simp add: inj_def word_unat_eq_iff)

lemma fat_chain_length:
  assumes "fat_chain tbl c cs" "distinct cs"
  shows "length cs \<le> 128"
proof -
  have "length cs = card (unat ` set cs)"
    using distinct_card [OF assms(2)] card_image [OF inj_on_subset [OF inj_unat]] by (metis subset_UNIV)
  also have "\<dots> \<le> card {..< 128 :: nat}"
    using fat_chain_small [OF assms(1)] by (intro card_mono) auto
  finally show ?thesis by simp
qed

section \<open>Sectors in the byte sequence\<close>

lemma length_concat_512: "\<forall>xs \<in> set xss. length xs = 512 \<Longrightarrow> length (concat xss) = 512 * length xss"
  by (induction xss) auto

lemma concat_split:
  assumes "\<forall>xs \<in> set xss. length xs = 512" "k < length xss"
  obtains a b where "concat xss = a @ xss ! k @ b" "length a = 512 * k"
    "\<And>ys. concat (xss[k := ys]) = a @ ys @ b"
proof
  show "concat xss = concat (take k xss) @ xss ! k @ concat (drop (Suc k) xss)"
    using assms(2) by (metis concat.simps(2) concat_append id_take_nth_drop)
  show "length (concat (take k xss)) = 512 * k"
    using assms by (subst length_concat_512) (auto dest: in_set_takeD)
  show "concat (xss[k := ys]) = concat (take k xss) @ ys @ concat (drop (Suc k) xss)" for ys
    using assms(2) by (simp add: upd_conv_take_nth_drop)
qed

lemma concat_piece:
  assumes "\<forall>xs \<in> set xss. length xs = 512" "k < length xss" "p + n \<le> 512"
  shows "take n (drop (512 * k + p) (concat xss)) = take n (drop p (xss ! k))"
proof -
  obtain a b where "concat xss = a @ xss ! k @ b" "length a = 512 * k"
    by (rule concat_split [OF assms(1,2)])
  moreover have "length (xss ! k) = 512" using assms by simp
  ultimately show ?thesis using assms(3) by simp
qed

lemma concat_patch:
  assumes "\<forall>xs \<in> set xss. length xs = 512" "k < length xss" "p + length bs \<le> 512"
  shows "concat (xss[k := take p (xss ! k) @ bs @ drop (p + length bs) (xss ! k)])
    = take (512 * k + p) (concat xss) @ bs @ drop (512 * k + p + length bs) (concat xss)"
proof -
  obtain a b where "concat xss = a @ xss ! k @ b" "length a = 512 * k"
    "\<And>ys. concat (xss[k := ys]) = a @ ys @ b" using concat_split [OF assms(1,2)] by metis
  moreover have "length (xss ! k) = 512" using assms by simp
  ultimately show ?thesis using assms(3) by simp
qed

lemma map_upd_distinct:
  assumes "distinct xs" "k < length xs"
  shows "map (f(xs ! k := y)) xs = (map f xs)[k := y]"
  using assms by (intro nth_equalityI) (auto simp: nth_list_update nth_eq_iff_index_eq)

section \<open>Reading and writing through the sector interface\<close>

definition read_done ::
  "('d \<Rightarrow> bool) \<Rightarrow> ('d \<Rightarrow> u64 \<Rightarrow> u8 list) \<Rightarrow> (u64 \<Rightarrow> u8 list) \<Rightarrow> u8 list \<Rightarrow> nat \<Rightarrow> nat \<Rightarrow> u8 list \<Rightarrow> 'd fat32 \<Rightarrow> bool" where
  "read_done ok content C D start pos out s \<longleftrightarrow>
     ok (disk s) \<and> content (disk s) = C \<and> out = take (pos - start) (drop start D)"

definition write_done ::
  "('d \<Rightarrow> bool) \<Rightarrow> ('d \<Rightarrow> u64 \<Rightarrow> u8 list) \<Rightarrow> (u64 \<Rightarrow> u8 list) \<Rightarrow> u64 list \<Rightarrow> u8 list \<Rightarrow> nat \<Rightarrow> nat \<Rightarrow> unit \<Rightarrow> 'd fat32 \<Rightarrow> bool" where
  "write_done ok content C secs data start pos x s \<longleftrightarrow>
     (let D = concat (map C secs) in
      ok (disk s) \<and> (\<forall>n. n \<notin> set secs \<longrightarrow> content (disk s) n = C n)
      \<and> concat (map (content (disk s)) secs) = take start D @ take (pos - start) data @ drop pos D)"

context block_device
begin

lemma load_bufE:
  assumes "ok (disk s)" "n < cap"
  obtains d where "load_buf io n s = Inr (s\<lparr>fat32_buf := content (disk s) n, disk := d\<rparr>)"
    "ok d" "content d = content (disk s)"
proof -
  obtain d where "read_sector io n (disk s) = Inr (content (disk s) n, d)" "ok d" "content d = content (disk s)"
    using read_sectorE [OF assms] by blast
  then show ?thesis by (intro that [of d]) (simp_all add: load_buf_def)
qed

lemma load_tableE:
  assumes "ok (disk s)" "n < cap"
  obtains d where "load_table io n s = Inr (s\<lparr>fat32_table_buf := content (disk s) n, disk := d\<rparr>)"
    "ok d" "content d = content (disk s)"
proof -
  obtain d where "read_sector io n (disk s) = Inr (content (disk s) n, d)" "ok d" "content d = content (disk s)"
    using read_sectorE [OF assms] by blast
  then show ?thesis by (intro that [of d]) (simp_all add: load_table_def)
qed

lemma file_sizeE:
  assumes "ok (disk s)" "entry_wf cap (fat32_volume s) fl"
  obtains buf d where "file_size io fl s
      = Inr (dir_size (content (disk s)) (fat32_volume s) fl, s\<lparr>fat32_buf := buf, disk := d\<rparr>)"
    "ok d" "content d = content (disk s)"
proof -
  obtain d where d: "load_buf io (dir_sector (fat32_volume s) fl) s
      = Inr (s\<lparr>fat32_buf := content (disk s) (dir_sector (fat32_volume s) fl), disk := d\<rparr>)"
    "ok d" "content d = content (disk s)"
    using load_bufE [of s "dir_sector (fat32_volume s) fl"] assms by (auto simp: entry_wf_def)
  let ?i = "dir_index (dir (fat32_file_of fl))"
  have i: "unat ?i < 16" using assms(2) by (simp add: entry_wf_def)
  have "unat (of_nat (32 * unat ?i) :: u64) = 32 * unat ?i" using i by (intro unat_of_nat_small) simp
  then have "unat (32 * ucast ?i :: u64) = 32 * unat ?i" by simp
  moreover have "length (content (disk s) (dir_sector (fat32_volume s) fl)) = 512"
    using content_length assms by (simp add: entry_wf_def)
  ultimately have "file_size io fl s
      = Inr (dir_size (content (disk s)) (fat32_volume s) fl,
             s\<lparr>fat32_buf := content (disk s) (dir_sector (fat32_volume s) fl), disk := d\<rparr>)"
    using d(1) i by (simp add: file_size_def dir_sector_def [symmetric] buf_bytes_def dir_size_def)
  with d(2,3) that show ?thesis by blast
qed

lemma buf_bytes_sector:
  "length bs = 512 \<Longrightarrow> p + n \<le> 512 \<Longrightarrow> buf_bytes bs (of_nat p) n = Inr (take n (drop p bs))"
  by (simp add: buf_bytes_def bytes_at_def unat_of_nat_small)

lemma read_piece_good:
  assumes secs: "\<forall>n \<in> set secs. n < cap" and stop: "stop \<le> 512 * length secs" and "start \<le> stop"
  shows "good_piece (read_piece io) v tbl secs start stop
           (read_done ok content C (concat (map C secs)) start)"
  unfolding good_piece_def
proof (intro allI impI)
  fix k pos x and s :: "'d fat32"
  assume k: "k < length secs"
    and *: "start \<le> pos \<and> pos \<le> stop \<and> 512 * k \<le> pos \<and> pos < 512 * k + 512
      \<and> fat32_volume s = v \<and> fat32_table_buf s = tbl
      \<and> read_done ok content C (concat (map C secs)) start pos x s"
  define p where "p = pos - 512 * k"
  define n where "n = min (512 * k + 512 - pos) (stop - pos)"
  have p: "pos = 512 * k + p" "p + n \<le> 512" using * by (auto simp: p_def n_def)
  have C: "ok (disk s)" "content (disk s) = C" and x: "x = take (pos - start) (drop start (concat (map C secs)))"
    using * by (auto simp: read_done_def)
  have cap: "secs ! k < cap" using secs k by simp
  obtain d where d: "load_buf io (secs ! k) s = Inr (s\<lparr>fat32_buf := C (secs ! k), disk := d\<rparr>)"
    "ok d" "content d = C" using load_bufE [OF C(1) cap] C(2) by metis
  have len: "\<forall>xs \<in> set (map C secs). length xs = 512" using content_length C secs by fastforce
  then have "length (C (secs ! k)) = 512" using k by simp
  then have r: "read_piece io (secs ! k) (of_nat p) (of_nat n) (of_nat (pos - start)) x s
      = Inr (x @ take n (drop p (C (secs ! k))), s\<lparr>fat32_buf := C (secs ! k), disk := d\<rparr>)"
    using d(1) p(2) buf_bytes_sector [of "C (secs ! k)" p n]
    by (simp add: read_piece_def unat_of_nat_small)
  have "take n (drop p (C (secs ! k))) = take n (drop pos (concat (map C secs)))"
    using concat_piece [OF len, of k p n] k p by simp
  then have "x @ take n (drop p (C (secs ! k))) = take (pos + n - start) (drop start (concat (map C secs)))"
    using * x take_add [of "pos - start" n "drop start (concat (map C secs))"] by simp
  then show "let n = min (512 * k + 512 - pos) (stop - pos) in \<exists>x' s'.
      read_piece io (secs ! k) (of_nat (pos - 512 * k)) (of_nat n) (of_nat (pos - start)) x s = Inr (x', s')
      \<and> fat32_volume s' = v \<and> fat32_table_buf s' = tbl
      \<and> read_done ok content C (concat (map C secs)) start (pos + n) x' s'"
    using r d * unfolding p_def n_def Let_def by (auto simp: read_done_def)
qed

lemma write_piece_good:
  assumes secs: "\<forall>n \<in> set secs. n < cap" "distinct secs" and stop: "stop \<le> 512 * length secs" and "start \<le> stop"
    and src: "\<And>off n. unat off + unat n \<le> length data \<Longrightarrow> src off n = Inr (take (unat n) (drop (unat off) data))"
    and data: "length data = stop - start" and small: "512 * length secs < 2 ^ 62"
    and C: "\<forall>n \<in> set secs. length (C n) = 512"
  shows "good_piece (write_piece io src) v tbl secs start stop (write_done ok content C secs data start)"
  unfolding good_piece_def
proof (intro allI impI)
  fix k pos x and s :: "'d fat32"
  assume k: "k < length secs"
    and *: "start \<le> pos \<and> pos \<le> stop \<and> 512 * k \<le> pos \<and> pos < 512 * k + 512
      \<and> fat32_volume s = v \<and> fat32_table_buf s = tbl \<and> write_done ok content C secs data start pos x s"
  define p where "p = pos - 512 * k"
  define n where "n = min (512 * k + 512 - pos) (stop - pos)"
  define K where "K = content (disk s)"
  define D where "D = concat (map C secs)"
  have p: "pos = 512 * k + p" "p + n \<le> 512" "pos + n \<le> stop" using * by (auto simp: p_def n_def)
  have ok: "ok (disk s)" and D: "concat (map K secs) = take start D @ take (pos - start) data @ drop pos D"
    and other: "\<forall>n. n \<notin> set secs \<longrightarrow> K n = C n"
    using * by (auto simp: write_done_def K_def D_def Let_def)
  have cap: "secs ! k < cap" using secs k by simp
  obtain d where d: "load_buf io (secs ! k) s = Inr (s\<lparr>fat32_buf := K (secs ! k), disk := d\<rparr>)"
    "ok d" "content d = K" using load_bufE [OF ok cap] K_def by metis
  have len: "\<forall>xs \<in> set (map K secs). length xs = 512" using content_length [OF ok] secs K_def by fastforce
  then have lk: "length (K (secs ! k)) = 512" using k by simp
  define bs where "bs = take n (drop (pos - start) data)"
  have lbs: "length bs = n" using data p * by (simp add: bs_def)
  have u: "unat (of_nat (pos - start) :: u64) = pos - start" "unat (of_nat n :: u64) = n" "unat (of_nat p :: u64) = p"
    using p * small k stop by (simp_all add: unat_of_nat_small del: of_nat_diff)
  have srcv: "src (of_nat (pos - start)) (of_nat n) = Inr bs"
  proof -
    have "pos - start + n \<le> length data" using data p(3) * by linarith
    with src [of "of_nat (pos - start)" "of_nat n"] show ?thesis by (simp only: u bs_def)
  qed
  define new where "new = take p (K (secs ! k)) @ bs @ drop (p + length bs) (K (secs ! k))"
  have "length new = 512" using lk lbs p by (simp add: new_def)
  then obtain d' where d': "write_sector io (secs ! k) new d = Inr d'" "ok d'" "content d' = K(secs ! k := new)"
    using write_sectorE [OF d(2) cap] d(3) by metis
  have r: "write_piece io src (secs ! k) (of_nat p) (of_nat n) (of_nat (pos - start)) x s
      = Inr (x, s\<lparr>fat32_buf := new, disk := d'\<rparr>)"
    using d(1) d'(1) p lk lbs srcv u by (simp add: write_piece_def Let_def new_def del: of_nat_diff)
  have "concat (map (K(secs ! k := new)) secs) = concat ((map K secs)[k := new])"
    by (simp only: map_upd_distinct [OF secs(2) k])
  also have "\<dots> = take pos (concat (map K secs)) @ bs @ drop (pos + n) (concat (map K secs))"
    using concat_patch [OF len, of k p bs] k p lbs by (simp add: new_def)
  also have "\<dots> = take start D @ take (pos + n - start) data @ drop (pos + n) D"
  proof -
    have "length D = 512 * length secs"
      using C unfolding D_def by (subst length_concat_512) auto
    then have "length (take start D) = start" "length (take (pos - start) data) = pos - start"
      using * data stop p by auto
    then have "take pos (concat (map K secs)) = take start D @ take (pos - start) data"
      "drop (pos + n) (concat (map K secs)) = drop (pos + n) D"
      unfolding D using * by (simp_all add: add.commute)
    then show ?thesis using take_add [of "pos - start" n data] * by (simp add: bs_def)
  qed
  finally have "write_done ok content C secs data start (pos + n) x (s\<lparr>fat32_buf := new, disk := d'\<rparr>)"
    using d'(2,3) other k by (auto simp: write_done_def D_def Let_def)
  with r * show "let n = min (512 * k + 512 - pos) (stop - pos) in \<exists>x' s'.
      write_piece io src (secs ! k) (of_nat (pos - 512 * k)) (of_nat n) (of_nat (pos - start)) x s = Inr (x', s')
      \<and> fat32_volume s' = v \<and> fat32_table_buf s' = tbl \<and> write_done ok content C secs data start (pos + n) x' s'"
    unfolding p_def n_def Let_def by (intro exI [of _ x] exI [of _ "s\<lparr>fat32_buf := new, disk := d'\<rparr>"]) simp
qed

lemma file_walk_past_end:
  assumes "ok (disk s)" "entry_wf cap (fat32_volume s) fl"
    and "unat (dir_size (content (disk s)) (fat32_volume s) fl) \<le> unat (cfo fl)" "unat (cfo fl) < 2 ^ 63"
  shows "\<exists>s'. file_walk io f x len fl s = Inr (0, x, fl, s') \<and> ok (disk s')
    \<and> content (disk s') = content (disk s) \<and> fat32_volume s' = fat32_volume s"
proof -
  obtain buf d where d: "file_size io fl s
      = Inr (dir_size (content (disk s)) (fat32_volume s) fl, s\<lparr>fat32_buf := buf, disk := d\<rparr>)"
    "ok d" "content d = content (disk s)" by (rule file_sizeE [OF assms(1,2)])
  have "unat (ucast (dir_size (content (disk s)) (fat32_volume s) fl) :: u64) < 2 ^ 63"
    using unsigned_less [of "dir_size (content (disk s)) (fat32_volume s) fl", where ?'a = nat]
    by (simp add: unat_ucast_up)
  then have "ucast (dir_size (content (disk s)) (fat32_volume s) fl) \<le>s cfo fl"
    using assms(3,4) by (subst sle_small) (simp_all add: word_le_nat_alt unat_ucast_up)
  with d show ?thesis by (auto simp: file_walk_def)
qed

lemma file_walk_inside:
  fixes fl len
  assumes v_def: "v = fat32_volume s" and C_def: "C = content (disk s)" and start_def: "start = unat (cfo fl)"
    and stop_def: "stop = start + min (unat len) (unat (dir_size C v fl) - start)"
    and ok: "ok (disk s)" and wf: "file_wf C cap v fl cs" and inside: "start < unat (dir_size C v fl)"
    and good: "good_piece f v (C (first_fat_sec v)) (file_sectors v cs) start stop Q"
    and init: "\<And>s'. ok (disk s') \<Longrightarrow> content (disk s') = C \<Longrightarrow> Q start x s'"
  shows "\<exists>x' s'. file_walk io f x len fl s = Inr (of_nat (stop - start), x', fl\<lparr>cfo := of_nat stop\<rparr>, s')
    \<and> fat32_volume s' = v \<and> Q stop x' s'"
proof -
  let ?sz = "dir_size C v fl" let ?secs = "file_sectors v cs"
  have wf': "entry_wf cap v fl" "first_fat_sec v < cap" "spc v < 2 ^ 32"
    "fat_chain (C (first_fat_sec v)) (cluster (fat32_file_of fl)) cs" "distinct cs"
    "unat ?sz \<le> 512 * (length cs * spc v)" using wf by (auto simp: file_wf_def)
  have n: "length cs \<le> 128" using fat_chain_length [OF wf'(4,5)] .
  have sz: "unat ?sz < 2 ^ 32" using unsigned_less [of ?sz, where ?'a = nat] by simp
  have total: "512 * (length cs * spc v) < 2 ^ 62"
  proof -
    have "length cs * spc v \<le> 128 * 2 ^ 32" using n wf'(3) by (intro mult_le_mono) simp_all
    then have "512 * (length cs * spc v) \<le> 512 * (128 * 2 ^ 32)" by (rule mult_le_mono2)
    also have "\<dots> < 2 ^ 62" by simp
    finally show ?thesis .
  qed
  have stop: "start \<le> stop" "stop \<le> unat ?sz" "stop < 2 ^ 62" using inside sz by (auto simp: stop_def)
  obtain buf d where d: "file_size io fl s = Inr (?sz, s\<lparr>fat32_buf := buf, disk := d\<rparr>)" "ok d" "content d = C"
    unfolding v_def C_def by (rule file_sizeE [OF ok wf'(1) [unfolded v_def]])
  let ?s1 = "s\<lparr>fat32_buf := buf, disk := d\<rparr>"
  obtain d2 where d2: "load_table io (first_fat_sec v) ?s1
      = Inr (?s1\<lparr>fat32_table_buf := C (first_fat_sec v), disk := d2\<rparr>)" "ok d2" "content d2 = C"
    using load_tableE [of ?s1 "first_fat_sec v"] d(2,3) wf'(2) by auto
  define s2 where "s2 = ?s1\<lparr>fat32_table_buf := C (first_fat_sec v), disk := d2\<rparr>"
  have inside': "\<not> ucast ?sz \<le>s cfo fl"
    using inside sz by (subst sle_small) (simp_all add: word_le_nat_alt unat_ucast_up start_def)
  have max: "cfo fl + min len (ucast ?sz - cfo fl) = of_nat stop"
  proof -
    have "cfo fl \<le> ucast ?sz" using inside by (simp add: word_le_nat_alt unat_ucast_up start_def)
    then have "unat (ucast ?sz - cfo fl) = unat ?sz - start" by (simp add: unat_sub unat_ucast_up start_def)
    then have "unat (min len (ucast ?sz - cfo fl)) = min (unat len) (unat ?sz - start)"
      by (simp add: min_def word_le_nat_alt)
    moreover have "unat (of_nat (min (unat len) (unat ?sz - start)) :: u64) = min (unat len) (unat ?sz - start)"
      using sz by (intro unat_of_nat_small) simp
    ultimately have "min len (ucast ?sz - cfo fl) = of_nat (min (unat len) (unat ?sz - start))"
      by (simp only: word_unat_eq_iff)
    then show ?thesis by (simp add: stop_def start_def)
  qed
  have "length (C (first_fat_sec v)) = 512" using content_length [OF ok wf'(2)] by (simp add: C_def)
  have at: "at_sector v (C (first_fat_sec v)) start stop Q (0 * spc v)
      \<lparr>w_pos = 0, w_len = 0, w_cfo = cfo fl, w_data = x, w_fs = s2\<rparr>"
    using init [of s2] d2 by (simp add: at_sector_def s2_def v_def start_def)
  have fuel: "length cs - 0 \<le> unat (of_nat stop :: u64) + 129" using n by simp
  have chain: "fat_chain (C (first_fat_sec v)) (cluster (fat32_file_of fl)) (drop 0 cs)" using wf'(4) by simp
  have "stop \<le> 512 * (length cs * spc v)" using stop(2) wf'(6) by simp
  note cluster_loop_steps [OF good wf'(3) total \<open>length (C (first_fat_sec v)) = 512\<close> stop(1,3) this chain le0 fuel at]
  then obtain w where w: "cluster_loop (unat (of_nat stop :: u64) + 129) f (of_nat stop) (cluster (fat32_file_of fl))
      \<lparr>w_pos = 0, w_len = 0, w_cfo = cfo fl, w_data = x, w_fs = s2\<rparr> = Inr w"
    "finished v (C (first_fat_sec v)) start stop Q w" by blast
  from w(1) max inside'
  have "file_walk io f x len fl s = Inr (w_len w, w_data w, fl\<lparr>cfo := w_cfo w\<rparr>, w_fs w)"
    using d d2 by (simp add: file_walk_def v_def [symmetric] s2_def Let_def)
  with w(2) show ?thesis by (auto simp: finished_def)
qed

lemma fat32_read_bytes:
  fixes fl s cs len
  defines "v \<equiv> fat32_volume s" and "C \<equiv> content (disk s)"
  defines "out \<equiv> take (unat len) (drop (unat (cfo fl)) (take (unat (dir_size C v fl)) (file_bytes C v cs)))"
  assumes ok: "ok (disk s)" and wf: "file_wf C cap v fl cs" and cfo: "unat (cfo fl) < 2 ^ 63"
  shows "\<exists>s'. fat32_read io len fl s
      = Inr (of_nat (length out), out, fl\<lparr>cfo := cfo fl + of_nat (length out)\<rparr>, s')
    \<and> ok (disk s') \<and> content (disk s') = C \<and> fat32_volume s' = v"
proof (cases "unat (cfo fl) < unat (dir_size C v fl)")
  case False
  then have "out = []" by (simp add: out_def)
  then show ?thesis
    using file_walk_past_end [OF ok, of fl "read_piece io" "[]" len] wf False cfo
    by (simp add: fat32_read_def v_def C_def file_wf_def)
next
  case True
  define start where "start = unat (cfo fl)"
  define stop where "stop = start + min (unat len) (unat (dir_size C v fl) - start)"
  let ?secs = "file_sectors v cs"
  have secs: "\<forall>n \<in> set ?secs. n < cap" and le: "unat (dir_size C v fl) \<le> 512 * length ?secs"
    using wf by (simp_all add: file_wf_def)
  have stop: "start \<le> stop" "stop \<le> unat (dir_size C v fl)" using True by (auto simp: stop_def start_def)
  have good: "good_piece (read_piece io) v (C (first_fat_sec v)) ?secs start stop
      (read_done ok content C (concat (map C ?secs)) start)"
    using stop le by (intro read_piece_good secs) auto
  have init: "read_done ok content C (concat (map C ?secs)) start start [] s'"
    if "ok (disk s')" "content (disk s') = C" for s'
    using that by (simp add: read_done_def)
  have "start < unat (dir_size C v fl)" using True by (simp add: start_def)
  note file_walk_inside [OF v_def [THEN meta_eq_to_obj_eq] C_def [THEN meta_eq_to_obj_eq] start_def stop_def
      ok wf this good init]
  then obtain x s' where r: "fat32_read io len fl s = Inr (of_nat (stop - start), x, fl\<lparr>cfo := of_nat stop\<rparr>, s')"
    "fat32_volume s' = v" "read_done ok content C (concat (map C ?secs)) start stop x s'"
    unfolding fat32_read_def by blast
  have "\<forall>xs \<in> set (map C ?secs). length xs = 512" using content_length [OF ok] secs by (auto simp: C_def)
  from length_concat_512 [OF this] have "length (file_bytes C v cs) = 512 * length ?secs"
    by (simp add: file_bytes_def)
  then have out: "x = out" "length out = stop - start"
    using r(3) le True by (auto simp: out_def read_done_def file_bytes_def stop_def start_def drop_take min.commute)
  moreover have "(of_nat stop :: u64) = cfo fl + of_nat (stop - start)"
    using stop(1) by (simp add: start_def)
  ultimately show ?thesis using r by (auto simp: read_done_def)
qed

lemma fat32_write_bytes:
  fixes fl s cs len bs src
  defines "v \<equiv> fat32_volume s" and "C \<equiv> content (disk s)" and "start \<equiv> unat (cfo fl)"
  defines "n \<equiv> min (unat len) (unat (dir_size C v fl) - start)"
  assumes ok: "ok (disk s)" and wf: "file_wf C cap v fl cs" and dist: "distinct (file_sectors v cs)"
    and cfo: "start < 2 ^ 63"
    and src: "\<And>off k. unat off + unat k \<le> unat len \<Longrightarrow> src off k = Inr (take (unat k) (drop (unat off) bs))"
    and len: "length bs = unat len"
  shows "\<exists>s'. fat32_write io src len fl s = Inr (of_nat n, fl\<lparr>cfo := cfo fl + of_nat n\<rparr>, s')
    \<and> ok (disk s') \<and> fat32_volume s' = v
    \<and> file_bytes (content (disk s')) v cs
        = (let D = file_bytes C v cs in take start D @ take n bs @ drop (start + n) D)
    \<and> (\<forall>k. k \<notin> set (file_sectors v cs) \<longrightarrow> content (disk s') k = C k)"
proof (cases "start < unat (dir_size C v fl)")
  case False
  then have "n = 0" by (simp add: n_def)
  then show ?thesis
    using file_walk_past_end [OF ok, of fl "write_piece io src" "()" len] wf False cfo
    by (auto simp: fat32_write_def v_def C_def start_def file_wf_def file_bytes_def)
next
  case True
  define stop where "stop = start + n"
  have stop_eq: "stop = start + min (unat len) (unat (dir_size C v fl) - start)" by (simp add: stop_def n_def)
  let ?secs = "file_sectors v cs"
  have secs: "\<forall>n \<in> set ?secs. n < cap" and le: "unat (dir_size C v fl) \<le> 512 * length ?secs"
    using wf by (simp_all add: file_wf_def)
  have C: "\<forall>n \<in> set ?secs. length (C n) = 512" using content_length [OF ok] secs by (simp add: C_def)
  have stop: "start \<le> stop" "stop \<le> unat (dir_size C v fl)" "stop - start = n" "n \<le> unat len"
    using True by (auto simp: stop_def n_def)
  have total: "512 * length ?secs < 2 ^ 62"
  proof -
    have "length cs * spc v \<le> 128 * 2 ^ 32"
      using wf fat_chain_length by (intro mult_le_mono) (auto simp: file_wf_def)
    then have "512 * (length cs * spc v) \<le> 512 * (128 * 2 ^ 32)" by (rule mult_le_mono2)
    also have "\<dots> < 2 ^ 62" by simp
    finally show ?thesis by simp
  qed
  have src': "src off k = Inr (take (unat k) (drop (unat off) (take n bs)))"
    if "unat off + unat k \<le> length (take n bs)" for off k
    using that src [of off k] stop(4) len by (simp add: drop_take min.absorb1)
  have good: "good_piece (write_piece io src) v (C (first_fat_sec v)) ?secs start stop
      (write_done ok content C ?secs (take n bs) start)"
    using stop le len total C by (intro write_piece_good secs dist src') auto
  have init: "write_done ok content C ?secs (take n bs) start start () s'"
    if "ok (disk s')" "content (disk s') = C" for s'
    using that by (simp add: write_done_def)
  note file_walk_inside [OF v_def [THEN meta_eq_to_obj_eq] C_def [THEN meta_eq_to_obj_eq]
      start_def [THEN meta_eq_to_obj_eq] stop_eq ok wf True good init]
  then obtain s' where r: "file_walk io (write_piece io src) () len fl s
      = Inr (of_nat (stop - start), (), fl\<lparr>cfo := of_nat stop\<rparr>, s')"
    "fat32_volume s' = v" "write_done ok content C ?secs (take n bs) start stop () s'" by auto
  have "(of_nat stop :: u64) = cfo fl + of_nat n" by (simp add: stop_def start_def)
  then have "fat32_write io src len fl s = Inr (of_nat n, fl\<lparr>cfo := cfo fl + of_nat n\<rparr>, s')"
    using r(1) stop(3) by (simp add: fat32_write_def)
  then show ?thesis
    using r(2,3) stop(3) by (auto simp: write_done_def file_bytes_def Let_def stop_def)
qed

text \<open>
  A write does not disturb the well-formedness of the file it goes to, as long as neither the
  directory nor the table lies in the file's own sectors.
\<close>

lemma fat32_write_read:
  fixes fl s cs len bs src
  defines "v \<equiv> fat32_volume s" and "C \<equiv> content (disk s)" and "start \<equiv> unat (cfo fl)"
  defines "n \<equiv> min (unat len) (unat (dir_size C v fl) - start)"
  assumes ok: "ok (disk s)" and wf: "file_wf C cap v fl cs" and dist: "distinct (file_sectors v cs)"
    and cfo: "start < 2 ^ 63"
    and src: "\<And>off k. unat off + unat k \<le> unat len \<Longrightarrow> src off k = Inr (take (unat k) (drop (unat off) bs))"
    and len: "length bs = unat len"
    and meta: "dir_sector v fl \<notin> set (file_sectors v cs)" "first_fat_sec v \<notin> set (file_sectors v cs)"
  shows "\<exists>s'. fat32_write io src len fl s = Inr (of_nat n, fl\<lparr>cfo := cfo fl + of_nat n\<rparr>, s')
    \<and> file_wf (content (disk s')) cap v fl cs
    \<and> (\<exists>s''. fat32_read io len fl s' = Inr (of_nat n, take n bs, fl\<lparr>cfo := cfo fl + of_nat n\<rparr>, s''))"
proof -
  obtain s' where w: "fat32_write io src len fl s = Inr (of_nat n, fl\<lparr>cfo := cfo fl + of_nat n\<rparr>, s')"
    "ok (disk s')" "fat32_volume s' = v"
    "file_bytes (content (disk s')) v cs
        = (let D = file_bytes C v cs in take start D @ take n bs @ drop (start + n) D)"
    "\<forall>k. k \<notin> set (file_sectors v cs) \<longrightarrow> content (disk s') k = C k"
    using fat32_write_bytes [OF ok wf [unfolded C_def v_def] dist [unfolded v_def]
        cfo [unfolded start_def] src len] unfolding v_def C_def start_def n_def by blast
  have size: "dir_size (content (disk s')) v fl = dir_size C v fl"
    using w(5) meta(1) by (simp add: dir_size_def)
  have wf': "file_wf (content (disk s')) cap v fl cs"
    using wf w(5) meta(2) size by (simp add: file_wf_def)
  have n: "start + n \<le> unat (dir_size C v fl) \<or> n = 0" "n \<le> length bs" by (auto simp: n_def len)
  let ?D = "file_bytes C v cs"
  have lD: "length ?D = 512 * (length cs * spc v)"
  proof -
    have "\<forall>xs \<in> set (map C (file_sectors v cs)). length xs = 512"
      using wf content_length [OF ok] by (auto simp: C_def file_wf_def)
    then show ?thesis by (simp add: file_bytes_def length_concat_512)
  qed
  have sz: "unat (dir_size C v fl) \<le> length ?D" using wf lD by (simp add: file_wf_def)
  have out: "take (unat len) (drop start (take (unat (dir_size (content (disk s')) v fl))
      (file_bytes (content (disk s')) v cs))) = take n bs"
  proof (cases "start < unat (dir_size C v fl)")
    case True
    then have "length (take start ?D) = start" "start + n \<le> unat (dir_size C v fl)"
      using sz by (auto simp: n_def)
    then have F: "drop start (file_bytes (content (disk s')) v cs) = take n bs @ drop (start + n) ?D"
      unfolding w(4) Let_def by simp
    have "take (unat len) (drop start (take (unat (dir_size C v fl)) (file_bytes (content (disk s')) v cs)))
        = take n (drop start (file_bytes (content (disk s')) v cs))"
      by (simp add: drop_take n_def)
    also have "\<dots> = take n bs" unfolding F using n(2) by simp
    finally show ?thesis by (simp only: size)
  next
    case False
    then have "n = 0" by (simp add: n_def)
    with False show ?thesis by (simp add: size)
  qed
  have "length (take n bs) = n" using n(2) by simp
  with fat32_read_bytes [OF w(2) wf' [folded w(3)] cfo [unfolded start_def], of len, unfolded w(3),
      folded start_def, unfolded out]
  have "\<exists>s''. fat32_read io len fl s' = Inr (of_nat n, take n bs, fl\<lparr>cfo := cfo fl + of_nat n\<rparr>, s'')"
    by (simp only:) blast
  with w(1) wf' show ?thesis by blast
qed

end

end
