(* ===== verification/Virtio.thy ===== *)
theory Virtio
  imports PageTable
begin

text \<open>
  The virtio block driver of \<^verbatim>\<open>fs/virtio.c\<close> and \<^verbatim>\<open>include/virtio.h\<close>. The state holds what driver and
  device share: the register windows, the three parts of the virtqueue, the request and status
  objects, and the bytes of the data buffers by physical address. A register is a cell that keeps
  what the driver stored. The device itself is a parameter: \<open>notify\<close> is its reaction to the
  store to \<^verbatim>\<open>QueueNotify\<close>, \<open>progress\<close> what it does between two looks of the driver at the used ring.
\<close>

section \<open>Constants\<close>

definition DEVICE_ACKNOWLEDGE :: u32 where "DEVICE_ACKNOWLEDGE = 1"
definition DEVICE_DRIVER :: u32 where "DEVICE_DRIVER = 2"
definition DEVICE_DRIVER_OK :: u32 where "DEVICE_DRIVER_OK = 4"
definition DEVICE_FEATURES_OK :: u32 where "DEVICE_FEATURES_OK = 8"
definition ID_VIRTIO_BLK :: u32 where "ID_VIRTIO_BLK = 2"
definition VIRTIO_QUEUE_SIZE :: nat where "VIRTIO_QUEUE_SIZE = 16"
definition VIRTIO_BLK_SECTOR_SIZE :: nat where "VIRTIO_BLK_SECTOR_SIZE = 512"
definition VIRTQ_DESC_F_NEXT :: u16 where "VIRTQ_DESC_F_NEXT = 1"
definition VIRTQ_DESC_F_WRITE :: u16 where "VIRTQ_DESC_F_WRITE = 2"
definition VIRTQ_AVAIL_F_NO_INTERRUPT :: u16 where "VIRTQ_AVAIL_F_NO_INTERRUPT = 1"
definition VIRTIO_BLK_T_IN :: u32 where "VIRTIO_BLK_T_IN = 0"
definition VIRTIO_BLK_T_OUT :: u32 where "VIRTIO_BLK_T_OUT = 1"

section \<open>Shared structures\<close>

record virtio_regs =
  MagicValue :: u32
  Version :: u32
  DeviceID :: u32
  VendorID :: u32
  DeviceFeatures :: u32
  DeviceFeaturesSel :: u32
  DriverFeatures :: u32
  DriverFeaturesSel :: u32
  QueueSel :: u32
  QueueNumMax :: u32
  QueueNum :: u32
  QueueReady :: u32
  QueueNotify :: u32
  InterruptStatus :: u32
  InterruptACK :: u32
  Status :: u32
  QueueDescLow :: u32
  QueueDescHigh :: u32
  QueueAvailLow :: u32
  QueueAvailHigh :: u32
  QueueUsedLow :: u32
  QueueUsedHigh :: u32
  ConfigGeneration :: u32
  Config :: "u32 list"

record virtio_desc =
  d_addr :: u64
  d_len :: u32
  d_flags :: u16
  d_next :: u16

record virtio_avail =
  av_flags :: u16
  av_idx :: u16
  av_ring :: "u16 list"
  used_event :: u16

record virtio_used_elem =
  elem_id :: u32
  elem_len :: u32

record virtio_used =
  us_flags :: u16
  us_idx :: u16
  us_ring :: "virtio_used_elem list"
  avail_event :: u16

text \<open>The three pointers of a \<^verbatim>\<open>struct vring\<close>; what they point to is in the driver state.\<close>

record vring =
  vr_num :: u16
  vr_desc :: u64
  vr_avail :: u64
  vr_used :: u64

record blk_req =
  req_type :: u32
  req_reserved :: u32
  req_sector :: u64

text \<open>
  The driver's globals, with the addresses of \<^verbatim>\<open>virtio_blk_req\<close> and \<^verbatim>\<open>virtio_blk_status\<close>, and the
  state \<open>hw\<close> of the device behind them.
\<close>

record 'h blk =
  mmio :: "virtio_regs heap"
  virtio_blk_regs :: u64
  virtio_blk_ring :: vring
  desc :: "virtio_desc list"
  avail :: virtio_avail
  used :: virtio_used
  virtio_blk_req :: blk_req
  req_at :: u64
  virtio_blk_status :: u8
  status_at :: u64
  dma :: mem
  hw :: 'h

record 'h blk_device =
  notify :: "'h blk \<Rightarrow> 'h blk"
  progress :: "'h blk \<Rightarrow> 'h blk"

definition virt_to_phys :: "u64 \<Rightarrow> u64" where
  "virt_to_phys va = va - PA2VA_OFFSET"

definition on_regs :: "(virtio_regs \<Rightarrow> virtio_regs) \<Rightarrow> 'h blk \<Rightarrow> 'h blk res" where
  "on_regs f s =
     bindr (deref (mmio s) (virtio_blk_regs s)) (\<lambda>r.
     Inr (s\<lparr>mmio := (mmio s)(virtio_blk_regs s \<mapsto> f r)\<rparr>))"

section \<open>Initialisation\<close>

definition virtio_blk_driver_init :: "'h blk \<Rightarrow> 'h blk res" where
  "virtio_blk_driver_init s =
     bindr (on_regs (\<lambda>r. r\<lparr>Status := 0\<rparr>) s) (\<lambda>s.
     bindr (on_regs (\<lambda>r. r\<lparr>Status := Status r OR DEVICE_ACKNOWLEDGE\<rparr>) s) (\<lambda>s.
     on_regs (\<lambda>r. r\<lparr>Status := Status r OR DEVICE_DRIVER\<rparr>) s))"

definition virtio_blk_feature_init :: "'h blk \<Rightarrow> 'h blk res" where
  "virtio_blk_feature_init s =
     bindr (on_regs (\<lambda>r. r\<lparr>DeviceFeaturesSel := 0\<rparr>) s) (\<lambda>s.
     bindr (on_regs (\<lambda>r. r\<lparr>DeviceFeaturesSel := 1\<rparr>) s) (\<lambda>s.
     bindr (on_regs (\<lambda>r. r\<lparr>DriverFeaturesSel := 0\<rparr>) s) (\<lambda>s.
     bindr (on_regs (\<lambda>r. r\<lparr>DriverFeatures := 0x30000200\<rparr>) s) (\<lambda>s.
     bindr (on_regs (\<lambda>r. r\<lparr>DriverFeaturesSel := 1\<rparr>) s) (\<lambda>s.
     bindr (on_regs (\<lambda>r. r\<lparr>DriverFeatures := 0\<rparr>) s) (\<lambda>s.
     on_regs (\<lambda>r. r\<lparr>Status := Status r OR DEVICE_FEATURES_OK\<rparr>) s))))))"

text \<open>The value it computes is a local that hides the global \<^verbatim>\<open>virtio_blk_capacity\<close> and is dropped.\<close>

definition virtio_blk_config_init :: "'h blk \<Rightarrow> u64 res" where
  "virtio_blk_config_init s =
     bindr (deref (mmio s) (virtio_blk_regs s)) (\<lambda>r.
     bindr (aget (Config r) (1 :: u64)) (\<lambda>capacity_hi.
     bindr (aget (Config r) (0 :: u64)) (\<lambda>capacity_lo.
     Inr (push_bit 32 (ucast capacity_hi) OR ucast capacity_lo))))"

text \<open>The structures that lie in the pages the queue gets, whatever the pages held before.\<close>

definition desc_in :: "mem \<Rightarrow> u64 \<Rightarrow> virtio_desc" where
  "desc_in m a = \<lparr>d_addr = rd64 m a, d_len = rd32 m (a + 8), d_flags = rd16 m (a + 12), d_next = rd16 m (a + 14)\<rparr>"

definition avail_in :: "mem \<Rightarrow> u64 \<Rightarrow> virtio_avail" where
  "avail_in m a = \<lparr>av_flags = rd16 m a, av_idx = rd16 m (a + 2),
     av_ring = map (\<lambda>i. rd16 m (a + 4 + 2 * of_nat i)) [0 ..< VIRTIO_QUEUE_SIZE], used_event = rd16 m (a + 36)\<rparr>"

definition used_in :: "mem \<Rightarrow> u64 \<Rightarrow> virtio_used" where
  "used_in m a = \<lparr>us_flags = rd16 m a, us_idx = rd16 m (a + 2),
     us_ring = map (\<lambda>i. \<lparr>elem_id = rd32 m (a + 4 + 8 * of_nat i), elem_len = rd32 m (a + 8 + 8 * of_nat i)\<rparr>)
                 [0 ..< VIRTIO_QUEUE_SIZE],
     avail_event = rd16 m (a + 132)\<rparr>"

definition link_desc :: "u64 \<Rightarrow> virtio_desc list \<Rightarrow> virtio_desc list res" where
  "link_desc i ds =
     bindr (aget ds (i - 1)) (\<lambda>d. aset ds (i - 1) (d\<lparr>d_next := ucast i\<rparr>))"

definition queue_regs :: "vring \<Rightarrow> virtio_regs \<Rightarrow> virtio_regs" where
  "queue_regs v r =
     r\<lparr>QueueSel := 0, QueueNum := of_nat VIRTIO_QUEUE_SIZE,
       QueueAvailLow := ucast (0xffffffff AND virt_to_phys (vr_avail v)),
       QueueAvailHigh := ucast (drop_bit 32 (virt_to_phys (vr_avail v))),
       QueueDescLow := ucast (0xffffffff AND virt_to_phys (vr_desc v)),
       QueueDescHigh := ucast (drop_bit 32 (virt_to_phys (vr_desc v))),
       QueueUsedLow := ucast (0xffffffff AND virt_to_phys (vr_used v)),
       QueueUsedHigh := ucast (drop_bit 32 (virt_to_phys (vr_used v)))\<rparr>"

definition virtio_blk_queue_init :: "machine \<times> 'h blk \<Rightarrow> (machine \<times> 'h blk) res" where
  "virtio_blk_queue_init ms =
     (case ms of (m, s) \<Rightarrow>
        bindr (alloc_pages 3 (bud m)) (\<lambda>(pages, b).
        if pages = 0 then Inl Null_Pointer
        else let v = \<lparr>vr_num = of_nat VIRTIO_QUEUE_SIZE, vr_desc = pages, vr_avail = pages + PGSIZE,
                      vr_used = pages + 2 * PGSIZE\<rparr>;
                 ds = map (\<lambda>i. desc_in (mem m) (pages + 16 * of_nat i)) [0 ..< VIRTIO_QUEUE_SIZE];
                 av = (avail_in (mem m) (vr_avail v))\<lparr>av_flags := VIRTQ_AVAIL_F_NO_INTERRUPT\<rparr>
             in bindr (for_range 1 (of_nat VIRTIO_QUEUE_SIZE) link_desc ds) (\<lambda>ds.
                let s = s\<lparr>virtio_blk_ring := v, desc := ds, avail := av, used := used_in (mem m) (vr_used v)\<rparr>
                in bindr (on_regs (queue_regs v) s) (\<lambda>s.
                   bindr (on_regs (\<lambda>r. r\<lparr>QueueReady := 1\<rparr>) s) (\<lambda>s. Inr (m\<lparr>bud := b\<rparr>, s))))))"

section \<open>Requests\<close>

definition set_desc :: "nat \<Rightarrow> virtio_desc \<Rightarrow> virtio_desc list \<Rightarrow> virtio_desc list res" where
  "set_desc i d ds = aset ds (of_nat i :: u64) d"

definition data_flags :: "u32 \<Rightarrow> u16" where
  "data_flags type =
     (if type = VIRTIO_BLK_T_IN then VIRTQ_DESC_F_WRITE OR VIRTQ_DESC_F_NEXT else VIRTQ_DESC_F_NEXT)"

text \<open>The link of descriptor 2 is not touched.\<close>

definition virtio_blk_cmd :: "'h blk_device \<Rightarrow> u32 \<Rightarrow> u32 \<Rightarrow> u64 \<Rightarrow> 'h blk \<Rightarrow> 'h blk res" where
  "virtio_blk_cmd dev type sector buf s =
     (let s = s\<lparr>virtio_blk_req := (virtio_blk_req s)\<lparr>req_type := type, req_sector := ucast sector\<rparr>\<rparr>
      in bindr (set_desc 0 \<lparr>d_addr = virt_to_phys (req_at s), d_len = 16, d_flags = VIRTQ_DESC_F_NEXT,
                  d_next = 1\<rparr> (desc s)) (\<lambda>ds.
         bindr (set_desc 1 \<lparr>d_addr = virt_to_phys buf, d_len = of_nat VIRTIO_BLK_SECTOR_SIZE,
                  d_flags = data_flags type, d_next = 2\<rparr> ds) (\<lambda>ds.
         bindr (aget ds (2 :: u64)) (\<lambda>d2.
         bindr (set_desc 2 (d2\<lparr>d_addr := virt_to_phys (status_at s), d_len := 1,
                  d_flags := VIRTQ_DESC_F_WRITE\<rparr>) ds) (\<lambda>ds.
         bindr (on_regs (\<lambda>r. r\<lparr>Status := Status r OR DEVICE_DRIVER_OK\<rparr>) (s\<lparr>desc := ds\<rparr>)) (\<lambda>s.
         bindr (aset (av_ring (avail s)) ((av_idx (avail s) + 1) mod of_nat VIRTIO_QUEUE_SIZE) 0) (\<lambda>ring.
         let s = s\<lparr>avail := (avail s)\<lparr>av_ring := ring, av_idx := av_idx (avail s) + 1\<rparr>\<rparr>
         in bindr (on_regs (\<lambda>r. r\<lparr>QueueNotify := 0\<rparr>) s) (\<lambda>s. Inr (notify dev s)))))))))"

text \<open>The polling loop; \<open>None\<close> when the device never answers.\<close>

partial_function (option) wait_used :: "'h blk_device \<Rightarrow> u64 \<Rightarrow> 'h blk \<Rightarrow> 'h blk option" where
  "wait_used dev original_idx s =
     (if ucast (us_idx (used s)) \<noteq> original_idx then Some s
      else wait_used dev original_idx (progress dev s))"

definition blk_transfer :: "'h blk_device \<Rightarrow> u32 \<Rightarrow> u64 \<Rightarrow> u64 \<Rightarrow> 'h blk \<Rightarrow> 'h blk res" where
  "blk_transfer dev type sector buf s =
     (let original_idx = ucast (us_idx (used s))
      in bindr (virtio_blk_cmd dev type (ucast sector) buf s) (\<lambda>s.
         case wait_used dev original_idx s of None \<Rightarrow> Inl No_Return | Some s \<Rightarrow> Inr s))"

definition virtio_blk_read_sector :: "'h blk_device \<Rightarrow> u64 \<Rightarrow> u64 \<Rightarrow> 'h blk \<Rightarrow> 'h blk res" where
  "virtio_blk_read_sector dev = blk_transfer dev VIRTIO_BLK_T_IN"

definition virtio_blk_write_sector :: "'h blk_device \<Rightarrow> u64 \<Rightarrow> u64 \<Rightarrow> 'h blk \<Rightarrow> 'h blk res" where
  "virtio_blk_write_sector dev = blk_transfer dev VIRTIO_BLK_T_OUT"

section \<open>Probing\<close>

definition virtio_dev_test :: "u64 \<Rightarrow> 'h blk \<Rightarrow> 'h blk res" where
  "virtio_dev_test virtio_addr s =
     bindr (deref (mmio s) virtio_addr) (\<lambda>r.
     Inr (if DeviceID r = ID_VIRTIO_BLK then s\<lparr>virtio_blk_regs := virtio_addr\<rparr> else s))"

end
