(* ===== verification/Virtio_Props.thy ===== *)
theory Virtio_Props
  imports Virtio Block_Device
begin

text \<open>
  The driver against a device that behaves as the virtio specification says. \<open>pending\<close> describes a
  queue on which the driver has made one well-formed request available, \<open>served\<close> what the device
  has done to the shared state when it has used it, and \<open>serves\<close> is the promise that a pending
  request is served after finitely many steps.
\<close>

record 'h disk_view =
  sectors :: "'h \<Rightarrow> u64 \<Rightarrow> u8 list"
  last_avail :: "'h \<Rightarrow> u16"
  capacity :: u64

text \<open>
  What the device reads from its registers, as the specification lays it out: queue 0 is ready with 16
  entries, and the physical address of each part of the queue is in a pair of registers, the low
  half and the high half.
\<close>

definition reg_pair :: "u32 \<Rightarrow> u32 \<Rightarrow> u64" where
  "reg_pair lo hi = push_bit 32 (ucast hi) OR ucast lo"

definition queue_at :: "virtio_regs \<Rightarrow> u64 \<Rightarrow> u64 \<Rightarrow> u64 \<Rightarrow> bool" where
  "queue_at r desc_pa avail_pa used_pa \<longleftrightarrow> QueueSel r = 0 \<and> QueueNum r = 16 \<and> QueueReady r = 1
     \<and> reg_pair (QueueDescLow r) (QueueDescHigh r) = desc_pa
     \<and> reg_pair (QueueAvailLow r) (QueueAvailHigh r) = avail_pa
     \<and> reg_pair (QueueUsedLow r) (QueueUsedHigh r) = used_pa"

definition queue_regs_ok :: "'h blk \<Rightarrow> bool" where
  "queue_regs_ok s \<longleftrightarrow> virtio_blk_regs s \<noteq> 0 \<and> (\<exists>r. mmio s (virtio_blk_regs s) = Some r
     \<and> queue_at r (vr_desc (virtio_blk_ring s) - PA2VA_OFFSET) (vr_avail (virtio_blk_ring s) - PA2VA_OFFSET)
          (vr_used (virtio_blk_ring s) - PA2VA_OFFSET))"

definition chain_at :: "virtio_desc list \<Rightarrow> u16 \<Rightarrow> virtio_desc list" where
  "chain_at ds h = (let d0 = ds ! unat h; d1 = ds ! unat (d_next d0); d2 = ds ! unat (d_next d1) in [d0, d1, d2])"

text \<open>
  The numbers are those of the virtio specification: request types 0 (in) and 1 (out), descriptor
  flags 1 (next) and 2 (device writes), status bit 4 (driver ok). The device may write the data
  buffer exactly when the request reads.
\<close>

definition pending :: "'h disk_view \<Rightarrow> 'h blk \<Rightarrow> u64 \<Rightarrow> bool" where
  "pending v s buf \<longleftrightarrow>
     queue_regs_ok s \<and> Status (the (mmio s (virtio_blk_regs s))) AND 4 \<noteq> 0
     \<and> length (desc s) = 16 \<and> length (av_ring (avail s)) = 16
     \<and> av_idx (avail s) = last_avail v (hw s) + 1
     \<and> req_type (virtio_blk_req s) \<in> {0, 1}
     \<and> req_sector (virtio_blk_req s) < capacity v
     \<and> (\<exists>nxt. chain_at (desc s) (av_ring (avail s) ! (unat (last_avail v (hw s)) mod 16)) =
         [\<lparr>d_addr = virt_to_phys (req_at s), d_len = 16, d_flags = 1, d_next = 1\<rparr>,
          \<lparr>d_addr = buf, d_len = 512, d_flags = (if req_type (virtio_blk_req s) = 0 then 3 else 1), d_next = 2\<rparr>,
          \<lparr>d_addr = virt_to_phys (status_at s), d_len = 1, d_flags = 2, d_next = nxt\<rparr>])"

definition served :: "'h disk_view \<Rightarrow> u64 \<Rightarrow> 'h blk \<Rightarrow> 'h blk \<Rightarrow> bool" where
  "served v buf s s' \<longleftrightarrow>
     (let n = req_sector (virtio_blk_req s)
      in (if req_type (virtio_blk_req s) = VIRTIO_BLK_T_IN
          then dma s' = store (dma s) buf (sectors v (hw s) n) \<and> sectors v (hw s') = sectors v (hw s)
          else dma s' = dma s \<and> sectors v (hw s') = (sectors v (hw s))(n := load (dma s) buf 512)))
     \<and> virtio_blk_status s' = 0 \<and> us_idx (used s') = us_idx (used s) + 1
     \<and> last_avail v (hw s') = last_avail v (hw s) + 1
     \<and> mmio s' = mmio s \<and> virtio_blk_regs s' = virtio_blk_regs s \<and> virtio_blk_ring s' = virtio_blk_ring s
     \<and> desc s' = desc s \<and> avail s' = avail s \<and> virtio_blk_req s' = virtio_blk_req s
     \<and> req_at s' = req_at s \<and> status_at s' = status_at s"

definition serves :: "'h blk_device \<Rightarrow> 'h disk_view \<Rightarrow> bool" where
  "serves dev v \<longleftrightarrow>
     (\<forall>h n. n < capacity v \<longrightarrow> length (sectors v h n) = 512)
     \<and> (\<forall>s buf. pending v s buf \<longrightarrow>
          (\<exists>j. served v buf s ((progress dev ^^ j) (notify dev s))
             \<and> (\<forall>i < j. us_idx (used ((progress dev ^^ i) (notify dev s))) = us_idx (used s))))"

text \<open>
  The state between requests: queue set up, every ring entry naming descriptor 0 and the device in
  step with the driver.
\<close>

definition blk_ready :: "'h disk_view \<Rightarrow> 'h blk \<Rightarrow> bool" where
  "blk_ready v s \<longleftrightarrow> queue_regs_ok s \<and> length (desc s) = 16
     \<and> av_ring (avail s) = replicate 16 0 \<and> av_idx (avail s) = last_avail v (hw s)"

section \<open>One request\<close>

lemma wait_used_done:
  assumes "ucast (us_idx (used ((progress dev ^^ j) s))) \<noteq> o_idx"
    and "\<forall>i < j. ucast (us_idx (used ((progress dev ^^ i) s))) = o_idx"
  shows "wait_used dev o_idx s = Some ((progress dev ^^ j) s)"
  using assms
proof (induction j arbitrary: s)
  case 0
  then show ?case by (simp add: wait_used.simps)
next
  case (Suc j)
  have "wait_used dev o_idx (progress dev s) = Some ((progress dev ^^ j) (progress dev s))"
    using Suc.prems by (intro Suc.IH) (auto simp: funpow_swap1 [symmetric] dest: spec [of _ "Suc _"])
  moreover have "ucast (us_idx (used s)) = o_idx" using Suc.prems(2) by (auto dest: spec [of _ 0])
  ultimately show ?case by (simp add: wait_used.simps [of dev o_idx s] funpow_swap1)
qed

lemma queue_at_frame [simp]:
  "queue_at (r\<lparr>Status := x\<rparr>) d a u = queue_at r d a u"
  "queue_at (r\<lparr>QueueNotify := y\<rparr>) d a u = queue_at r d a u"
  by (simp_all add: queue_at_def)

lemma reg_pair_halves: "reg_pair (ucast (0xffffffff AND x)) (ucast (drop_bit 32 x)) = x"
proof -
  have "0xffffffff AND x = take_bit 32 x" by (simp add: take_bit_eq_mask mask_eq_exp_minus_1 and.commute)
  then show ?thesis
    unfolding reg_pair_def by (simp only:) (rule bit_word_eqI, auto simp: bit_simps)
qed

text \<open>What the driver writes is what the device has to read.\<close>

lemma queue_regs_at:
  "queue_at ((queue_regs v r)\<lparr>QueueReady := 1\<rparr>)
     (vr_desc v - PA2VA_OFFSET) (vr_avail v - PA2VA_OFFSET) (vr_used v - PA2VA_OFFSET)"
  by (simp add: queue_at_def queue_regs_def reg_pair_halves virt_to_phys_def VIRTIO_QUEUE_SIZE_def)

lemma set_desc_ok: "length ds = 16 \<Longrightarrow> i < 16 \<Longrightarrow> set_desc i d ds = Inr (ds[i := d])"
  by (simp add: set_desc_def unat_of_nat_small)

lemma on_regs_ok:
  "virtio_blk_regs s \<noteq> 0 \<Longrightarrow> mmio s (virtio_blk_regs s) = Some r
   \<Longrightarrow> on_regs f s = Inr (s\<lparr>mmio := (mmio s)(virtio_blk_regs s \<mapsto> f r)\<rparr>)"
  by (simp add: on_regs_def)

lemma ring_zero: "xs = replicate 16 (0 :: u16) \<Longrightarrow> aset xs ((i :: u16) mod of_nat VIRTIO_QUEUE_SIZE) 0 = Inr xs"
proof -
  assume xs: "xs = replicate 16 (0 :: u16)"
  have "unat (i mod of_nat VIRTIO_QUEUE_SIZE) < 16" by (simp add: unat_mod VIRTIO_QUEUE_SIZE_def)
  moreover from this have "xs[unat (i mod of_nat VIRTIO_QUEUE_SIZE) := 0] = xs"
    by (metis list_update_id nth_replicate xs)
  moreover have "length xs = 16" by (simp add: xs)
  ultimately show ?thesis by (simp add: aset_def)
qed

lemma cmd_ready:
  assumes "blk_ready v s" "type \<in> {VIRTIO_BLK_T_IN, VIRTIO_BLK_T_OUT}" "ucast sector < capacity v"
  shows "\<exists>t. virtio_blk_cmd dev type sector buf s = Inr (notify dev t)
     \<and> pending v t (virt_to_phys buf) \<and> virtio_blk_req t = (virtio_blk_req s)\<lparr>req_type := type, req_sector := ucast sector\<rparr>
     \<and> used t = used s \<and> dma t = dma s \<and> hw t = hw s \<and> queue_regs_ok t
     \<and> length (desc t) = 16 \<and> av_ring (avail t) = replicate 16 0 \<and> av_idx (avail t) = av_idx (avail s) + 1"
proof -
  obtain r where r: "virtio_blk_regs s \<noteq> 0" "mmio s (virtio_blk_regs s) = Some r"
    "queue_at r (vr_desc (virtio_blk_ring s) - PA2VA_OFFSET) (vr_avail (virtio_blk_ring s) - PA2VA_OFFSET)
      (vr_used (virtio_blk_ring s) - PA2VA_OFFSET)"
    and len: "length (desc s) = 16" and ring: "av_ring (avail s) = replicate 16 0"
    and last: "av_idx (avail s) = last_avail v (hw s)"
    using assms(1) by (auto simp: blk_ready_def queue_regs_ok_def)
  have ok: "(x OR 4) AND 4 \<noteq> 0" for x :: u32
    by (auto simp: bit_eq_iff bit_simps intro!: exI [of _ 2])
  define req where "req = (virtio_blk_req s)\<lparr>req_type := type, req_sector := ucast sector\<rparr>"
  define ds where "ds = (desc s)
    [0 := \<lparr>d_addr = virt_to_phys (req_at s), d_len = 16, d_flags = VIRTQ_DESC_F_NEXT, d_next = 1\<rparr>,
     1 := \<lparr>d_addr = virt_to_phys buf, d_len = 512, d_flags = data_flags type, d_next = 2\<rparr>,
     2 := (desc s ! 2)\<lparr>d_addr := virt_to_phys (status_at s), d_len := 1, d_flags := VIRTQ_DESC_F_WRITE\<rparr>]"
  define t where "t = s\<lparr>virtio_blk_req := req, desc := ds,
    avail := (avail s)\<lparr>av_idx := av_idx (avail s) + 1\<rparr>,
    mmio := (mmio s)(virtio_blk_regs s \<mapsto> r\<lparr>Status := Status r OR 4, QueueNotify := 0\<rparr>)\<rparr>"
  have d2: "aget ((desc s)[0 := x, 1 := y]) (2 :: u64) = Inr (desc s ! 2)" for x y
    using len by (simp add: aget_def)
  have ring': "aset (av_ring (avail s)) (i mod of_nat VIRTIO_QUEUE_SIZE) 0 = Inr (av_ring (avail s))" for i :: u16
    using ring by (rule ring_zero)
  have "virtio_blk_cmd dev type sector buf s = Inr (notify dev t)"
    unfolding virtio_blk_cmd_def Let_def t_def ds_def req_def
    using r len by (simp add: set_desc_ok on_regs_ok d2 [simplified] ring' DEVICE_DRIVER_OK_def VIRTIO_BLK_SECTOR_SIZE_def)
  moreover have "queue_regs_ok t" using r by (simp add: queue_regs_ok_def t_def)
  moreover have d3: "\<exists>nxt. x\<lparr>d_addr := a, d_len := l, d_flags := f\<rparr> = \<lparr>d_addr = a, d_len = l, d_flags = f, d_next = nxt\<rparr>"
    for x :: virtio_desc and a l f by (cases x) simp
  moreover have "pending v t (virt_to_phys buf)"
    using r len ring last assms(2,3) \<open>queue_regs_ok t\<close>
    by (auto simp: d3 pending_def t_def chain_at_def ds_def req_def ok data_flags_def VIRTQ_DESC_F_NEXT_def
        VIRTQ_DESC_F_WRITE_def VIRTIO_BLK_T_IN_def VIRTIO_BLK_T_OUT_def)
  ultimately show ?thesis using len ring by (intro exI [of _ t]) (simp add: t_def ds_def req_def)
qed

lemma transfer_ready:
  assumes dev: "serves dev v" and ready: "blk_ready v s"
    and "type \<in> {VIRTIO_BLK_T_IN, VIRTIO_BLK_T_OUT}" "sector < 2 ^ 32" "sector < capacity v"
  shows "\<exists>s'. blk_transfer dev type sector buf s = Inr s' \<and> blk_ready v s'
    \<and> (if type = VIRTIO_BLK_T_IN
        then dma s' = store (dma s) (virt_to_phys buf) (sectors v (hw s) sector) \<and> sectors v (hw s') = sectors v (hw s)
        else dma s' = dma s \<and> sectors v (hw s') = (sectors v (hw s))(sector := load (dma s) (virt_to_phys buf) 512))"
proof -
  have sec: "ucast (ucast sector :: u32) = sector"
    using assms(4) by (intro ucast_ucast_fits) (simp add: word_less_nat_alt)
  obtain t where cmd: "virtio_blk_cmd dev type (ucast sector) buf s = Inr (notify dev t)"
    and pend: "pending v t (virt_to_phys buf)"
    and t: "virtio_blk_req t = (virtio_blk_req s)\<lparr>req_type := type, req_sector := sector\<rparr>"
      "used t = used s" "dma t = dma s" "hw t = hw s" "queue_regs_ok t" "length (desc t) = 16"
      "av_ring (avail t) = replicate 16 0" "av_idx (avail t) = av_idx (avail s) + 1"
    using cmd_ready [OF ready assms(3), of "ucast sector" dev buf] assms(5) by (auto simp: sec)
  obtain j where j: "served v (virt_to_phys buf) t ((progress dev ^^ j) (notify dev t))"
    "\<forall>i < j. us_idx (used ((progress dev ^^ i) (notify dev t))) = us_idx (used t)"
    using dev pend unfolding serves_def by blast
  let ?s' = "(progress dev ^^ j) (notify dev t)"
  have "us_idx (used ?s') = us_idx (used t) + 1" using j(1) by (simp add: served_def)
  then have "(ucast (us_idx (used ?s')) :: u64) \<noteq> ucast (us_idx (used s))"
    by (simp add: t(2) ucast_up_eq)
  then have "wait_used dev (ucast (us_idx (used s))) (notify dev t) = Some ?s'"
    using j(2) by (intro wait_used_done) (auto simp: t(2))
  then have "blk_transfer dev type sector buf s = Inr ?s'"
    by (simp add: blk_transfer_def cmd)
  moreover have "blk_ready v ?s'"
    using j(1) t ready by (auto simp: served_def blk_ready_def queue_regs_ok_def)
  ultimately show ?thesis using j(1) t(1,3,4) by (auto simp: served_def Let_def split: if_splits)
qed

lemma store_outside: "length bs \<le> unat (x - a) \<Longrightarrow> store m a bs x = m x"
  by (simp add: store_def)

lemma virtio_transfer:
  assumes "serves dev v" and "blk_ready v s" and "sector < 2 ^ 32" and "sector < capacity v"
  shows "(\<exists>s'. virtio_blk_read_sector dev sector buf s = Inr s' \<and> blk_ready v s'
        \<and> load (dma s') (virt_to_phys buf) 512 = sectors v (hw s) sector
        \<and> sectors v (hw s') = sectors v (hw s)
        \<and> (\<forall>a. 512 \<le> a - virt_to_phys buf \<longrightarrow> dma s' a = dma s a))
    \<and> (\<exists>s'. virtio_blk_write_sector dev sector buf s = Inr s' \<and> blk_ready v s'
        \<and> sectors v (hw s') = (sectors v (hw s))(sector := load (dma s) (virt_to_phys buf) 512)
        \<and> dma s' = dma s)"
proof -
  have len: "length (sectors v (hw s) sector) = 512" using assms(1,4) by (simp add: serves_def)
  have ne: "VIRTIO_BLK_T_OUT \<noteq> VIRTIO_BLK_T_IN" by (simp add: VIRTIO_BLK_T_OUT_def VIRTIO_BLK_T_IN_def)
  show ?thesis
    using transfer_ready [OF assms(1,2) _ assms(3,4), of VIRTIO_BLK_T_IN buf]
      transfer_ready [OF assms(1,2) _ assms(3,4), of VIRTIO_BLK_T_OUT buf] ne len
    by (auto simp: virtio_blk_read_sector_def virtio_blk_write_sector_def store_outside word_le_nat_alt)
qed

text \<open>C22: Against a device that follows the virtio specification, reading a sector returns and
  leaves exactly its data in the buffer, with the disk unchanged, and writing a sector stores the
  buffer there and nowhere else; both return, keep the queue ready, and touch no other byte.\<close>

theorem virtio_sector_transfers:
  assumes "serves dev v" and "blk_ready v s" and "sector < 2 ^ 32" and "sector < capacity v"
  shows "(\<exists>s'. virtio_blk_read_sector dev sector buf s = Inr s' \<and> blk_ready v s'
        \<and> load (dma s') (virt_to_phys buf) 512 = sectors v (hw s) sector
        \<and> sectors v (hw s') = sectors v (hw s)
        \<and> (\<forall>a. 512 \<le> a - virt_to_phys buf \<longrightarrow> dma s' a = dma s a))
    \<and> (\<exists>s'. virtio_blk_write_sector dev sector buf s = Inr s' \<and> blk_ready v s'
        \<and> sectors v (hw s') = (sectors v (hw s))(sector := load (dma s) (virt_to_phys buf) 512)
        \<and> dma s' = dma s)"
  using assms by (rule virtio_transfer)

section \<open>Setting up the queue\<close>

lemma link_desc_all:
  assumes "length ds = 16"
  shows "\<exists>ds'. for_range 1 (of_nat VIRTIO_QUEUE_SIZE) link_desc ds = Inr ds' \<and> length ds' = 16
    \<and> (\<forall>i < 15. d_next (ds' ! i) = of_nat (Suc i))"
proof -
  have "\<exists>ds'. for_range 1 16 link_desc ds = Inr ds' \<and> length ds' = 16
    \<and> (\<forall>i. Suc i < unat (16 :: u64) \<longrightarrow> d_next (ds' ! i) = of_nat (Suc i))"
  proof (rule for_range_inv [where P = "\<lambda>j t. length t = 16 \<and> (\<forall>i. Suc i < unat j \<longrightarrow> d_next (t ! i) = of_nat (Suc i))"])
    fix j :: u64 and t :: "virtio_desc list"
    assume j: "1 \<le> j" "j < 16" and t: "length t = 16 \<and> (\<forall>i. Suc i < unat j \<longrightarrow> d_next (t ! i) = of_nat (Suc i))"
    have lt: "unat j < 16" "1 \<le> unat j" using j by (simp_all add: word_less_nat_alt word_le_nat_alt)
    have uj: "unat (j - 1) = unat j - 1" using j(1) by (simp add: unat_sub)
    have "unat (j + 1) = Suc (unat j)" using j(2) by (rule word_Suc_less(1))
    moreover have "(ucast j :: u16) = of_nat (unat j)" by simp
    ultimately show "\<exists>t'. link_desc j t = Inr t' \<and> length t' = 16 \<and>
        (\<forall>i. Suc i < unat (j + 1) \<longrightarrow> d_next (t' ! i) = of_nat (Suc i))"
      using t lt uj by (auto simp: link_desc_def nth_list_update less_Suc_eq)
  qed (use assms in auto)
  then show ?thesis by (auto simp: VIRTIO_QUEUE_SIZE_def)
qed

lemma load_zero: "\<forall>i < 36. m (a + of_nat i) = 0 \<Longrightarrow> k + n \<le> 36 \<Longrightarrow> load m (a + of_nat k) n = replicate n 0"
  by (rule nth_equalityI) (auto simp: add.assoc simp flip: of_nat_add)

lemma le_word_zero: "le_word (replicate n 0) = (0 :: 'a::len word)"
  by (induction n) auto

lemma virtio_queue_setup_aux:
  assumes "virtio_blk_regs s \<noteq> 0" and "mmio s (virtio_blk_regs s) = Some r"
    and "alloc_pages 3 (bud m) = Inr (pages, b)" and "pages \<noteq> 0"
    and "\<forall>i < 36. mem m (pages + PGSIZE + of_nat i) = 0" and "last_avail v (hw s) = 0"
  shows "\<exists>s1 s2 s3. virtio_blk_driver_init s = Inr s1 \<and> virtio_blk_feature_init s1 = Inr s2
    \<and> virtio_blk_queue_init (m, s2) = Inr (m\<lparr>bud := b\<rparr>, s3) \<and> blk_ready v s3
    \<and> virtio_blk_ring s3 = \<lparr>vr_num = 16, vr_desc = pages, vr_avail = pages + 0x1000, vr_used = pages + 0x2000\<rparr>
    \<and> Status (the (mmio s3 (virtio_blk_regs s))) = 1 + 2 + 8
    \<and> av_flags (avail s3) = 1 \<and> used s3 = used_in (mem m) (pages + 0x2000)
    \<and> (\<forall>i < 15. d_next (desc s3 ! i) = of_nat (Suc i))
    \<and> hw s3 = hw s \<and> virtio_blk_regs s2 = virtio_blk_regs s
    \<and> (\<exists>r2. mmio s2 (virtio_blk_regs s) = Some r2 \<and> Config r2 = Config r)"
proof -
  define r2 where "r2 = r\<lparr>DeviceFeaturesSel := 1, DriverFeaturesSel := 1, DriverFeatures := 0, Status := 11\<rparr>"
  define s2 where "s2 = s\<lparr>mmio := (mmio s)(virtio_blk_regs s \<mapsto> r2)\<rparr>"
  have init: "\<exists>s1. virtio_blk_driver_init s = Inr s1 \<and> virtio_blk_feature_init s1 = Inr s2"
    using assms(1,2)
    by (simp add: virtio_blk_driver_init_def virtio_blk_feature_init_def on_regs_ok s2_def r2_def
        DEVICE_ACKNOWLEDGE_def DEVICE_DRIVER_def DEVICE_FEATURES_OK_def)
  define v0 where "v0 = \<lparr>vr_num = of_nat VIRTIO_QUEUE_SIZE, vr_desc = pages, vr_avail = pages + PGSIZE,
    vr_used = pages + 2 * PGSIZE\<rparr>"
  define ds where "ds = map (\<lambda>i. desc_in (mem m) (pages + 16 * of_nat i)) [0 ..< VIRTIO_QUEUE_SIZE]"
  have "length ds = 16" by (simp add: ds_def VIRTIO_QUEUE_SIZE_def)
  then obtain ds' where ds': "for_range 1 (of_nat VIRTIO_QUEUE_SIZE) link_desc ds = Inr ds'" "length ds' = 16"
    "\<forall>i < 15. d_next (ds' ! i) = of_nat (Suc i)" using link_desc_all by blast
  note zero = load_zero [OF assms(5)]
  have "rd16 (mem m) (pages + PGSIZE + of_nat k) = 0" if "k + 2 \<le> 36" for k
    using zero [OF that] by (simp add: rd16_def le_word_zero numeral_2_eq_2)
  note z = this
  have idx: "av_idx (avail_in (mem m) (pages + PGSIZE)) = 0"
    using z [of 2] by (simp add: avail_in_def)
  have ring: "av_ring (avail_in (mem m) (pages + PGSIZE)) = replicate 16 0"
  proof (rule nth_equalityI)
    fix i assume "i < length (av_ring (avail_in (mem m) (pages + PGSIZE)))"
    then have "i < 16" by (simp add: avail_in_def VIRTIO_QUEUE_SIZE_def)
    then show "av_ring (avail_in (mem m) (pages + PGSIZE)) ! i = replicate 16 0 ! i"
      using z [of "4 + 2 * i"] by (simp add: avail_in_def VIRTIO_QUEUE_SIZE_def algebra_simps)
  qed (simp add: avail_in_def VIRTIO_QUEUE_SIZE_def)
  define s3 where "s3 = s2\<lparr>virtio_blk_ring := v0, desc := ds',
    avail := (avail_in (mem m) (pages + PGSIZE))\<lparr>av_flags := VIRTQ_AVAIL_F_NO_INTERRUPT\<rparr>,
    used := used_in (mem m) (pages + 2 * PGSIZE),
    mmio := (mmio s)(virtio_blk_regs s \<mapsto> (queue_regs v0 r2)\<lparr>QueueReady := 1\<rparr>)\<rparr>"
  have "virtio_blk_queue_init (m, s2) = Inr (m\<lparr>bud := b\<rparr>, s3)"
    using assms(1-4) ds'(1)
    by (simp add: virtio_blk_queue_init_def Let_def ds_def [symmetric] on_regs_ok s2_def s3_def v0_def)
  moreover have "blk_ready v s3"
    using assms(1,6) idx ring ds'(2)
    using queue_regs_at [of v0 r2] by (simp add: blk_ready_def queue_regs_ok_def s3_def s2_def)
  moreover have "v0 = \<lparr>vr_num = 16, vr_desc = pages, vr_avail = pages + 0x1000, vr_used = pages + 0x2000\<rparr>"
    "Status (queue_regs v0 r2) = 1 + 2 + 8"
    by (simp_all add: v0_def VIRTIO_QUEUE_SIZE_def layout queue_regs_def r2_def)
  ultimately show ?thesis
    using init ds'(3) by (auto simp: s3_def s2_def r2_def VIRTQ_AVAIL_F_NO_INTERRUPT_def layout)
qed

text \<open>C23: Initialising the driver on pages that hold zeros leaves the queue ready for requests: the
  status register says acknowledge (1), driver (2) and features ok (8) but not yet driver ok, the
  queue registers give the physical addresses of the three parts, which lie in the three pages that
  were allocated (\<open>queue_at\<close> in \<open>blk_ready\<close>), the free descriptors are linked in order, and
  driver and device agree that nothing has been made available yet.\<close>

theorem virtio_queue_setup:
  assumes "virtio_blk_regs s \<noteq> 0" and "mmio s (virtio_blk_regs s) = Some r"
    and "alloc_pages 3 (bud m) = Inr (pages, b)" and "pages \<noteq> 0"
    and "\<forall>i < 36. mem m (pages + PGSIZE + of_nat i) = 0" and "last_avail v (hw s) = 0"
  shows "\<exists>s1 s2 s3. virtio_blk_driver_init s = Inr s1 \<and> virtio_blk_feature_init s1 = Inr s2
    \<and> virtio_blk_queue_init (m, s2) = Inr (m\<lparr>bud := b\<rparr>, s3) \<and> blk_ready v s3
    \<and> virtio_blk_ring s3 = \<lparr>vr_num = 16, vr_desc = pages, vr_avail = pages + 0x1000, vr_used = pages + 0x2000\<rparr>
    \<and> Status (the (mmio s3 (virtio_blk_regs s))) = 1 + 2 + 8
    \<and> av_flags (avail s3) = 1 \<and> used s3 = used_in (mem m) (pages + 0x2000)
    \<and> (\<forall>i < 15. d_next (desc s3 ! i) = of_nat (Suc i))"
  using virtio_queue_setup_aux [OF assms] by blast

end
