(* ===== verification/Virtio_Disk.thy ===== *)
theory Virtio_Disk
  imports Virtio_Props
begin

text \<open>
  The driver as a provider of the sector interface: the two transfer functions with the copies
  between the caller's buffer and the memory the device reads and writes. The laws of
  \<open>block_device\<close> follow from the driver's properties for every device that behaves as specified; a
  device that holds its sectors in a function is one.
\<close>

definition virtio_io :: "'h blk_device \<Rightarrow> u64 \<Rightarrow> 'h blk sector_io" where
  "virtio_io dev buf =
     \<lparr>read_sector = (\<lambda>n s. bindr (virtio_blk_read_sector dev n buf s) (\<lambda>s.
        Inr (load (dma s) (virt_to_phys buf) 512, s))),
      write_sector = (\<lambda>n bs s. virtio_blk_write_sector dev n buf
        (s\<lparr>dma := store (dma s) (virt_to_phys buf) bs\<rparr>))\<rparr>"

lemma virtio_block:
  assumes device: "serves dev v" and small: "capacity v \<le> 2 ^ 32"
  shows "block_device (virtio_io dev buf) (blk_ready v) (\<lambda>s. sectors v (hw s)) (capacity v)"
proof
  fix d :: "'a blk" and n :: u64 and bs :: "u8 list"
  assume d: "blk_ready v d" and n: "n < capacity v"
  have n32: "n < 2 ^ 32" using n small by simp
  show "length (sectors v (hw d) n) = 512" using device n by (simp add: serves_def)
  show "\<exists>d'. read_sector (virtio_io dev buf) n d = Inr (sectors v (hw d) n, d') \<and> blk_ready v d'
      \<and> sectors v (hw d') = sectors v (hw d)"
    using virtio_transfer [OF device d n32 n, of buf] by (fastforce simp: virtio_io_def)
  assume bs: "length bs = 512"
  have ready: "blk_ready v (d\<lparr>dma := m\<rparr>)" for m using d by (simp add: blk_ready_def queue_regs_ok_def)
  from virtio_transfer [OF device ready [of "store (dma d) (virt_to_phys buf) bs"] n32 n, of buf] bs
  show "\<exists>d'. write_sector (virtio_io dev buf) n bs d = Inr d' \<and> blk_ready v d'
      \<and> sectors v (hw d') = (sectors v (hw d))(n := bs)"
    by (fastforce simp: virtio_io_def)
qed

locale virtio_disk =
  fixes dev :: "'h blk_device" and v :: "'h disk_view" and buf :: u64
  assumes device: "serves dev v" and small: "capacity v \<le> 2 ^ 32"

sublocale virtio_disk \<subseteq> block_device "virtio_io dev buf" "blk_ready v" "\<lambda>s. sectors v (hw s)" "capacity v"
  by (rule virtio_block [OF device small])

section \<open>A device that keeps its sectors in a function\<close>

type_synonym ram = "(u64 \<Rightarrow> u8 list) \<times> u16"

definition ram_view :: "ram disk_view" where
  "ram_view = \<lparr>sectors = (\<lambda>h n. take 512 (fst h n @ replicate 512 0)), last_avail = snd, capacity = 2 ^ 32\<rparr>"

definition ram_serve :: "ram blk \<Rightarrow> ram blk" where
  "ram_serve s =
     (let h = av_ring (avail s) ! (unat (snd (hw s)) mod 16);
          d1 = desc s ! unat (d_next (desc s ! unat h));
          n = req_sector (virtio_blk_req s);
          s = (if req_type (virtio_blk_req s) = VIRTIO_BLK_T_IN
               then s\<lparr>dma := store (dma s) (d_addr d1) (sectors ram_view (hw s) n)\<rparr>
               else s\<lparr>hw := ((fst (hw s))(n := load (dma s) (d_addr d1) 512), snd (hw s))\<rparr>)
      in s\<lparr>virtio_blk_status := 0, used := (used s)\<lparr>us_idx := us_idx (used s) + 1\<rparr>,
           hw := (fst (hw s), snd (hw s) + 1)\<rparr>)"

definition ram_device :: "ram blk_device" where
  "ram_device = \<lparr>notify = (\<lambda>s. s), progress = (\<lambda>s. if av_idx (avail s) = snd (hw s) then s else ram_serve s)\<rparr>"

lemma ram_serves: "serves ram_device ram_view"
  unfolding serves_def
proof (intro conjI allI impI)
  fix s :: "ram blk" and buf
  assume p: "pending ram_view s buf"
  have idx: "av_idx (avail s) \<noteq> snd (hw s)" using p by (simp add: pending_def ram_view_def)
  have d1: "d_addr (desc s ! unat (d_next (desc s ! unat (av_ring (avail s) ! (unat (snd (hw s)) mod 16))))) = buf"
    using p by (auto simp: pending_def chain_at_def Let_def ram_view_def)
  have "served ram_view buf s (progress ram_device s)"
    using idx by (auto simp: served_def ram_device_def ram_serve_def Let_def d1) (auto simp: ram_view_def fun_eq_iff)
  then show "\<exists>j. served ram_view buf s ((progress ram_device ^^ j) (notify ram_device s))
      \<and> (\<forall>i < j. us_idx (used ((progress ram_device ^^ i) (notify ram_device s))) = us_idx (used s))"
    by (intro exI [of _ 1]) (simp add: ram_device_def)
qed (simp add: ram_view_def)

interpretation ram_disk: virtio_disk ram_device ram_view buf for buf
  by unfold_locales (simp_all add: ram_serves, simp add: ram_view_def)

end
