(* ===== verification/Fat32_Props.thy ===== *)
theory Fat32_Props
  imports Fat32_Correct Virtio_Disk
begin

text \<open>
  Positions and lookup, and the properties of the file operations on the virtio disk: every one
  rests on the sector interface through the interpretation of \<open>block_device\<close>.
\<close>

section \<open>Lookup in the root directory\<close>

definition entry_matches :: "u8 list \<Rightarrow> u8 list \<Rightarrow> nat \<Rightarrow> bool" where
  "entry_matches buf filename j \<longleftrightarrow> u8_at buf (32 * j) \<noteq> FAT_DIRENT_DELETED
     \<and> de_name (dir_entry_of (bytes_at buf (32 * j) 32)) = filename"

definition entry_skipped :: "u8 list \<Rightarrow> u8 list \<Rightarrow> nat \<Rightarrow> bool" where
  "entry_skipped buf filename j \<longleftrightarrow> u8_at buf (32 * j) \<noteq> FAT_DIRENT_NEVER_USED
     \<and> \<not> entry_matches buf filename j"

lemma scan_skip:
  assumes "i \<le> k" "\<forall>j. i \<le> j \<and> j < k \<longrightarrow> entry_skipped buf filename j" "32 * k \<le> length buf"
  shows "scan_entries buf filename i = scan_entries buf filename k"
  using assms
proof (induction "k - i" arbitrary: i)
  case (Suc n)
  have "scan_entries buf filename i = scan_entries buf filename (i + 1)"
    using Suc.hyps(2) Suc.prems
    by (subst scan_entries.simps) (auto simp: entry_skipped_def entry_matches_def Let_def)
  then show ?case using Suc.hyps Suc.prems by simp
qed simp

lemma scan_result:
  assumes len: "length buf = 512" and k: "k \<le> 16" and skip: "\<forall>j < k. entry_skipped buf filename j"
  shows "k < 16 \<Longrightarrow> u8_at buf (32 * k) = FAT_DIRENT_NEVER_USED \<Longrightarrow> scan_entries buf filename 0 = Inr None"
    and "k < 16 \<Longrightarrow> u8_at buf (32 * k) \<noteq> FAT_DIRENT_NEVER_USED \<Longrightarrow> entry_matches buf filename k \<Longrightarrow>
      scan_entries buf filename 0 = Inr (Some (k, dir_entry_of (bytes_at buf (32 * k) 32)))"
    and "k = 16 \<Longrightarrow> scan_entries buf filename 0 = Inl Out_Of_Bounds"
  using scan_skip [of 0 k buf filename] assms
  by (simp_all add: scan_entries.simps [of buf filename k] scan_entries.simps [of buf filename 16]
      entry_matches_def Let_def)

lemma fill_name_eq: "i \<le> 8 \<Longrightarrow> length name = 8 \<Longrightarrow>
    fill_name i p name = take i name @ take (8 - i) p @ drop (i + min (8 - i) (length p)) name"
proof (induction i p name rule: fill_name.induct)
  case (2 i c p name)
  show ?case
  proof (cases "i < 8")
    case True
    then have "8 - i = Suc (7 - i)" by simp
    then have "take (8 - i) (c # p) = c # take (8 - Suc i) p" by simp
    moreover have "Suc i + min (8 - Suc i) (length p) = i + min (8 - i) (length (c # p))"
      using True by auto
    ultimately show ?thesis using 2 True by (simp add: take_Suc_conv_app_nth) (metis add_Suc_right)
  qed (use 2 in simp)
qed simp

text \<open>The eight characters a path stands for: upper case, padded with blanks.\<close>

definition short_name :: "u8 list \<Rightarrow> u8 list" where
  "short_name path = (let n = take 8 (drop 7 (to_upper_case path)) in n @ replicate (8 - length n) 0x20)"

lemma fill_name_short: "fill_name 0 (drop 7 (to_upper_case path)) (replicate 8 0x20) = short_name path"
  by (subst fill_name_eq) (simp_all add: short_name_def min_def)

lemma sint_nonneg: "0 \<le> sint x \<Longrightarrow> sint x = uint x" for x :: "'a::len word"
proof -
  assume "0 \<le> sint x"
  moreover have "sint x < 2 ^ (LENGTH('a) - 1)" by (rule sint_lt)
  moreover have "(2 :: int) ^ (LENGTH('a) - 1) \<le> 2 ^ LENGTH('a)" by (intro power_increasing) simp_all
  ultimately have "take_bit LENGTH('a) (sint x) = sint x" by (intro take_bit_int_eq_self) linarith+
  then show ?thesis by (simp add: uint_sint)
qed

context block_device
begin

lemma open_root:
  assumes "ok (disk s)" "first_data_sec (fat32_volume s) < cap"
  defines "buf \<equiv> content (disk s) (first_data_sec (fat32_volume s))"
  obtains s' where "fat32_open_file io path s
      = bindr (scan_entries buf (short_name path) 0) (\<lambda>found.
          Inr (case found of
                None \<Rightarrow> \<lparr>cluster = 0, dir = \<lparr>dir_cluster = 0, dir_index = 0\<rparr>\<rparr>
              | Some (i, e) \<Rightarrow> \<lparr>cluster = push_bit 16 (ucast (de_starthi e)) OR ucast (de_startlow e),
                               dir = \<lparr>dir_cluster = 2, dir_index = of_nat i\<rparr>\<rparr>, to_upper_case path, s'))"
    "ok (disk s')" "content (disk s') = content (disk s)" "fat32_volume s' = fat32_volume s" "length buf = 512"
proof -
  obtain d where d: "load_buf io (first_data_sec (fat32_volume s)) s = Inr (s\<lparr>fat32_buf := buf, disk := d\<rparr>)"
    "ok d" "content d = content (disk s)" using load_bufE [OF assms(1,2)] unfolding buf_def by metis
  moreover have "length buf = 512" using content_length assms by (simp add: buf_def)
  ultimately show ?thesis
    by (intro that [of "s\<lparr>fat32_buf := buf, disk := d\<rparr>"])
       (simp_all add: fat32_open_file_def Let_def fill_name_short)
qed

lemma lseek_clamps:
  fixes offset whence :: u64
  assumes ok: "ok (disk s)" and wf: "entry_wf cap (fat32_volume s) fl"
  defines "sz \<equiv> dir_size (content (disk s)) (fat32_volume s) fl"
  defines "target \<equiv> (if whence = SEEK_SET then sint offset
      else if whence = SEEK_CUR then sint (cfo fl + offset) else sint (ucast sz + offset))"
  shows "if whence \<in> {SEEK_SET, SEEK_CUR, SEEK_END}
    then \<exists>c s'. fat32_lseek io fl offset whence s = Inr (c, fl\<lparr>cfo := c\<rparr>, s')
      \<and> int (unat c) = max 0 (min (int (unat sz)) target)
      \<and> ok (disk s') \<and> content (disk s') = content (disk s)
    else fat32_lseek io fl offset whence s = Inl Panic"
proof -
  obtain buf d where d: "file_size io fl s = Inr (sz, s\<lparr>fat32_buf := buf, disk := d\<rparr>)" "ok d" "content d = content (disk s)"
    unfolding sz_def by (rule file_sizeE [OF ok wf])
  have szi: "sint (ucast sz :: u64) = int (unat sz)"
    using unsigned_less [of sz, where ?'a = nat] by (subst sint_small) (simp_all add: unat_ucast_up)
  have clamp: "int (unat (let c = (if t <s 0 then 0 else t) in if ucast sz <s c then ucast sz else c))
      = max 0 (min (int (unat sz)) (sint t))" for t :: u64
  proof -
    have pos: "0 \<le> sint t \<Longrightarrow> sint t = int (unat t)" by (simp add: sint_nonneg)
    have "int (unat (ucast sz :: u64)) = int (unat sz)" by (subst unat_ucast_up) simp_all
    then have "uint (ucast sz :: u64) = uint sz" by simp
    then show ?thesis using szi pos by (auto simp: word_sless_alt Let_def)
  qed
  show ?thesis
    using d clamp [of offset] clamp [of "cfo fl + offset"] clamp [of "ucast sz + offset"]
    by (auto simp: fat32_lseek_def target_def Let_def SEEK_SET_def SEEK_CUR_def SEEK_END_def)
qed

end

section \<open>The file system on the virtio disk\<close>

text \<open>C24: Reading an open file delivers exactly the bytes of the file from the current position
  on, at most \<open>len\<close> of them and never past the size, advances the position by as many, and leaves
  the disk as it was. It returns on every well-formed cluster chain.\<close>

theorem fat32_read_correct:
  fixes fl s v
  defines "C \<equiv> sectors v (hw (disk s))"
  assumes "serves dev v" and "capacity v \<le> 2 ^ 32" and "blk_ready v (disk s)"
    and "file_wf C (capacity v) (fat32_volume s) fl cs" and "unat (cfo fl) < 2 ^ 63"
  shows "\<exists>out s'. fat32_read (virtio_io dev buf) len fl s
      = Inr (of_nat (length out), out, fl\<lparr>cfo := cfo fl + of_nat (length out)\<rparr>, s')
    \<and> out = take (unat len) (drop (unat (cfo fl))
        (take (unat (dir_size C (fat32_volume s) fl)) (file_bytes C (fat32_volume s) cs)))
    \<and> sectors v (hw (disk s')) = C"
  using block_device.fat32_read_bytes [OF virtio_block [OF assms(2,3), of buf], of s fl cs len] assms
  unfolding C_def by blast

text \<open>C25: Writing an open file replaces exactly the bytes from the current position on by the
  bytes of the buffer, at most \<open>len\<close> of them and never past the size, and changes no sector that
  does not belong to the file.\<close>

theorem fat32_write_correct:
  fixes fl s v cs bs
  defines "C \<equiv> sectors v (hw (disk s))"
  defines "D \<equiv> file_bytes C (fat32_volume s) cs"
  defines "n \<equiv> min (length bs) (unat (dir_size C (fat32_volume s) fl) - unat (cfo fl))"
  assumes "serves dev v" and "capacity v \<le> 2 ^ 32" and "blk_ready v (disk s)"
    and "file_wf C (capacity v) (fat32_volume s) fl cs" and "distinct (file_sectors (fat32_volume s) cs)"
    and "unat (cfo fl) < 2 ^ 63" and "length bs < 2 ^ 63"
  shows "\<exists>s'. fat32_write (virtio_io dev buf) (\<lambda>off k. Inr (take (unat k) (drop (unat off) bs)))
      (of_nat (length bs)) fl s = Inr (of_nat n, fl\<lparr>cfo := cfo fl + of_nat n\<rparr>, s')
    \<and> file_bytes (sectors v (hw (disk s'))) (fat32_volume s) cs
        = take (unat (cfo fl)) D @ take n bs @ drop (unat (cfo fl) + n) D
    \<and> (\<forall>k. k \<notin> set (file_sectors (fat32_volume s) cs) \<longrightarrow> sectors v (hw (disk s')) k = C k)"
proof -
  have len: "unat (of_nat (length bs) :: u64) = length bs" using assms(10) by (intro unat_of_nat_small) simp
  note w = block_device.fat32_write_bytes [OF virtio_block [OF assms(4,5), of buf], where s = s and cs = cs and fl = fl
      and src = "\<lambda>off k. Inr (take (unat k) (drop (unat off) bs))" and len = "of_nat (length bs)" and bs = bs]
  show ?thesis
    using w assms(6-9) unfolding C_def D_def n_def len Let_def by blast
qed

text \<open>C26: What was written is what is read back: after a write, setting the position back and
  reading as many bytes returns the written bytes, and the file is still well-formed.\<close>

theorem fat32_write_read_back:
  fixes fl s v cs bs
  defines "C \<equiv> sectors v (hw (disk s))"
  defines "n \<equiv> min (length bs) (unat (dir_size C (fat32_volume s) fl) - unat (cfo fl))"
  assumes "serves dev v" and "capacity v \<le> 2 ^ 32" and "blk_ready v (disk s)"
    and "file_wf C (capacity v) (fat32_volume s) fl cs" and "distinct (file_sectors (fat32_volume s) cs)"
    and "unat (cfo fl) < 2 ^ 63" and "length bs < 2 ^ 63"
    and "dir_sector (fat32_volume s) fl \<notin> set (file_sectors (fat32_volume s) cs)"
    and "first_fat_sec (fat32_volume s) \<notin> set (file_sectors (fat32_volume s) cs)"
  shows "\<exists>s' s''. fat32_write (virtio_io dev buf) (\<lambda>off k. Inr (take (unat k) (drop (unat off) bs)))
      (of_nat (length bs)) fl s = Inr (of_nat n, fl\<lparr>cfo := cfo fl + of_nat n\<rparr>, s')
    \<and> file_wf (sectors v (hw (disk s'))) (capacity v) (fat32_volume s) fl cs
    \<and> fat32_read (virtio_io dev buf) (of_nat (length bs)) fl s'
        = Inr (of_nat n, take n bs, fl\<lparr>cfo := cfo fl + of_nat n\<rparr>, s'')"
proof -
  have len: "unat (of_nat (length bs) :: u64) = length bs" using assms(9) by (intro unat_of_nat_small) simp
  note w = block_device.fat32_write_read [OF virtio_block [OF assms(3,4), of buf], where s = s and cs = cs and fl = fl
      and src = "\<lambda>off k. Inr (take (unat k) (drop (unat off) bs))" and len = "of_nat (length bs)" and bs = bs]
  show ?thesis
    using w assms(5-11) unfolding C_def n_def len by blast
qed

text \<open>C27: Seeking puts the position at the requested place cut to the range from 0 to the file
  size, for each of the three origins and signed offsets; any other origin is a panic.\<close>

theorem fat32_lseek_clamps:
  fixes offset whence :: u64
  assumes "serves dev v" and "capacity v \<le> 2 ^ 32" and "blk_ready v (disk s)"
    and "entry_wf (capacity v) (fat32_volume s) fl"
  defines "sz \<equiv> dir_size (sectors v (hw (disk s))) (fat32_volume s) fl"
  defines "target \<equiv> (if whence = SEEK_SET then sint offset
      else if whence = SEEK_CUR then sint (cfo fl + offset) else sint (ucast sz + offset))"
  shows "if whence \<in> {SEEK_SET, SEEK_CUR, SEEK_END}
    then \<exists>c s'. fat32_lseek (virtio_io dev buf) fl offset whence s = Inr (c, fl\<lparr>cfo := c\<rparr>, s')
      \<and> int (unat c) = max 0 (min (int (unat sz)) target)
    else fat32_lseek (virtio_io dev buf) fl offset whence s = Inl Panic"
  using block_device.lseek_clamps [OF virtio_block [OF assms(1,2), of buf] assms(3,4), of whence offset]
  unfolding target_def sz_def by (auto split: if_splits)

text \<open>C28: Opening a file looks up the first entry of the root directory's first sector that is not
  deleted and has the name: it is the file's entry if it comes before the end marker, no file is
  found (cluster 0) if the marker comes first, and if the sector has neither, the scan runs past
  the end of the buffer.\<close>

theorem fat32_open_finds:
  fixes s v path
  defines "root \<equiv> sectors v (hw (disk s)) (first_data_sec (fat32_volume s))"
  assumes "serves dev v" and "capacity v \<le> 2 ^ 32" and "blk_ready v (disk s)"
    and "first_data_sec (fat32_volume s) < capacity v"
    and "k \<le> 16" and "\<forall>j < k. entry_skipped root (short_name path) j"
    and "k < 16 \<longrightarrow> \<not> entry_skipped root (short_name path) k"
  shows "if k = 16 then fat32_open_file (virtio_io dev buf) path s = Inl Out_Of_Bounds
    else \<exists>s'. fat32_open_file (virtio_io dev buf) path s =
      Inr (if u8_at root (32 * k) = FAT_DIRENT_NEVER_USED
           then \<lparr>cluster = 0, dir = \<lparr>dir_cluster = 0, dir_index = 0\<rparr>\<rparr>
           else let e = dir_entry_of (bytes_at root (32 * k) 32)
                in \<lparr>cluster = push_bit 16 (ucast (de_starthi e)) OR ucast (de_startlow e),
                    dir = \<lparr>dir_cluster = 2, dir_index = of_nat k\<rparr>\<rparr>, to_upper_case path, s')"
proof -
  obtain s' where o: "fat32_open_file (virtio_io dev buf) path s
      = bindr (scan_entries root (short_name path) 0) (\<lambda>found.
          Inr (case found of
                None \<Rightarrow> \<lparr>cluster = 0, dir = \<lparr>dir_cluster = 0, dir_index = 0\<rparr>\<rparr>
              | Some (i, e) \<Rightarrow> \<lparr>cluster = push_bit 16 (ucast (de_starthi e)) OR ucast (de_startlow e),
                               dir = \<lparr>dir_cluster = 2, dir_index = of_nat i\<rparr>\<rparr>, to_upper_case path, s'))"
    "length root = 512"
    unfolding root_def
    by (rule block_device.open_root [OF virtio_block [OF assms(2,3), of buf] assms(4,5), of path])
  note scan = scan_result [OF o(2) assms(6,7)]
  show ?thesis
    using assms(6,8) o(1) scan by (auto simp: entry_skipped_def Let_def)
qed

end
