(* ===== verification/Syscall_Correct.thy ===== *)
theory Syscall_Correct
  imports Trap_Correct Fat32_Props
begin

text \<open>
  System calls from the trap to the frame they return with: reading a file end to end, the calls
  that are refused, and opening.
\<close>

section \<open>Writing through user pointers\<close>

text \<open>
  The \<open>n\<close> bytes at \<open>a\<close> are writable and lie at the physical addresses \<open>phys\<close>, which the page
  table does not share: the translation stays the same whatever is stored there.
\<close>

definition writable :: "'a kernel_scheme \<Rightarrow> u64 \<Rightarrow> nat \<Rightarrow> (nat \<Rightarrow> u64) \<Rightarrow> bool" where
  "writable k a n phys \<longleftrightarrow> inj_on phys {..< n} \<and>
     (\<forall>m. (\<forall>x. x \<notin> phys ` {..< n} \<longrightarrow> m x = mem k x) \<longrightarrow>
        (\<forall>i < n. resolve PERM_W (k\<lparr>mem := m\<rparr>) (a + of_nat i) = Inr (phys i)))"

lemma writable_kernel: "VM_START \<le> a \<Longrightarrow> unat a + n \<le> 2 ^ 64 \<Longrightarrow> writable k a n (\<lambda>i. a + of_nat i)"
proof -
  assume a: "VM_START \<le> a" "unat a + n \<le> 2 ^ 64"
  have small: "unat (of_nat i :: u64) = i" if "i < n" for i
    using that a by (intro unat_of_nat_small) (auto simp: VM_START_def word_le_nat_alt)
  have "unat (a + of_nat i) = unat a + i" if "i < n" for i
    using small [OF that] that a(2) by (subst unat_add_lem [THEN iffD1]) auto
  then have "VM_START \<le> a + of_nat i" if "i < n" for i
    using a(1) that by (simp add: word_le_nat_alt)
  moreover have "inj_on (\<lambda>i. a + of_nat i) {..< n}"
    using small by (intro inj_onI) (metis add_left_cancel lessThan_iff)
  ultimately show ?thesis by (simp add: writable_def)
qed

lemma resolve_cong: "satp k = satp k' \<Longrightarrow> mem k = mem k' \<Longrightarrow> resolve perm k a = resolve perm k' a"
  by (simp only: resolve_def page_root_def)

lemma writable_step:
  assumes "writable k a (Suc n) phys"
  shows "vstore8 a c k = Inr (k\<lparr>mem := (mem k)(phys 0 := c)\<rparr>)"
    and "writable (k\<lparr>mem := (mem k)(phys 0 := c)\<rparr>) (a + 1) n (\<lambda>i. phys (Suc i))"
    and "writable k (a + 1) n (\<lambda>i. phys (Suc i))"
proof -
  have inj: "inj_on phys {..< Suc n}" using assms by (simp add: writable_def)
  have res: "resolve PERM_W (k\<lparr>mem := m\<rparr>) (a + of_nat i) = Inr (phys i)"
    if "\<And>x. x \<notin> phys ` {..< Suc n} \<Longrightarrow> m x = mem k x" "i < Suc n" for m i
    using assms that unfolding writable_def by blast
  have "resolve PERM_W k a = Inr (phys 0)" using res [of "mem k" 0] by simp
  then show "vstore8 a c k = Inr (k\<lparr>mem := (mem k)(phys 0 := c)\<rparr>)" by (simp add: vstore8_def)
  have sub: "phys (Suc i) \<in> phys ` {..< Suc n}" if "i < n" for i using that by blast
  have inj': "inj_on (\<lambda>i. phys (Suc i)) {..< n}"
    using inj by (auto simp: inj_on_def)
  have "resolve PERM_W (k\<lparr>mem := m\<rparr>) (a + 1 + of_nat i) = Inr (phys (Suc i))"
    if "\<And>x. x \<notin> (\<lambda>i. phys (Suc i)) ` {..< n} \<Longrightarrow> x \<noteq> phys 0 \<Longrightarrow> m x = mem k x" "i < n" for m i
  proof -
    have "m x = mem k x" if "x \<notin> phys ` {..< Suc n}" for x
      using that \<open>\<And>x. x \<notin> (\<lambda>i. phys (Suc i)) ` {..< n} \<Longrightarrow> x \<noteq> phys 0 \<Longrightarrow> m x = mem k x\<close> by blast
    from res [OF this, of "Suc i"] \<open>i < n\<close> show ?thesis by (simp add: add.assoc)
  qed
  with inj' show "writable (k\<lparr>mem := (mem k)(phys 0 := c)\<rparr>) (a + 1) n (\<lambda>i. phys (Suc i))"
    and "writable k (a + 1) n (\<lambda>i. phys (Suc i))"
    unfolding writable_def by auto
qed

lemma vstore_writable:
  assumes "writable k a (length bs) phys"
  shows "\<exists>m. vstore a bs k = Inr (k\<lparr>mem := m\<rparr>) \<and> (\<forall>i < length bs. m (phys i) = bs ! i)
    \<and> (\<forall>x. x \<notin> phys ` {..< length bs} \<longrightarrow> m x = mem k x)"
  using assms
proof (induction bs arbitrary: a k phys)
  case Nil
  then show ?case by (intro exI [of _ "mem k"]) simp
next
  case (Cons c bs)
  define k1 where "k1 = k\<lparr>mem := (mem k)(phys 0 := c)\<rparr>"
  have w: "writable k a (Suc (length bs)) phys" using Cons.prems by simp
  note step = writable_step [OF w]
  obtain m where m: "vstore (a + 1) bs k1 = Inr (k1\<lparr>mem := m\<rparr>)" "\<forall>i < length bs. m (phys (Suc i)) = bs ! i"
    "\<forall>x. x \<notin> (\<lambda>i. phys (Suc i)) ` {..< length bs} \<longrightarrow> m x = mem k1 x"
    using Cons.IH [of k1 "a + 1" "\<lambda>i. phys (Suc i)"] step(2) [of c] unfolding k1_def by blast
  have "inj_on phys {..< Suc (length bs)}" using w by (simp add: writable_def)
  then have fresh: "phys 0 \<notin> (\<lambda>i. phys (Suc i)) ` {..< length bs}" by (auto simp: inj_on_def)
  have "vstore a (c # bs) k = Inr (k\<lparr>mem := m\<rparr>)" using step(1) m(1) by (simp add: k1_def)
  moreover have "m (phys i) = (c # bs) ! i" if "i < Suc (length bs)" for i
    using m(2,3) fresh that by (cases i) (auto simp: k1_def)
  moreover have "m x = mem k x" if "x \<notin> phys ` {..< Suc (length bs)}" for x
  proof -
    have "x \<noteq> phys 0" "x \<notin> (\<lambda>i. phys (Suc i)) ` {..< length bs}" using that by auto
    then show ?thesis using m(3) by (simp add: k1_def)
  qed
  ultimately show ?case by auto
qed

lemma writable_take: "writable k a n phys \<Longrightarrow> j \<le> n \<Longrightarrow> writable k a j phys"
proof -
  assume w: "writable k a n phys" and j: "j \<le> n"
  have "inj_on phys {..< j}" using w j by (auto simp: writable_def intro: inj_on_subset)
  moreover have "resolve PERM_W (k\<lparr>mem := m\<rparr>) (a + of_nat i) = Inr (phys i)"
    if "\<And>x. x \<notin> phys ` {..< j} \<Longrightarrow> m x = mem k x" "i < j" for m i
  proof -
    have "m x = mem k x" if "x \<notin> phys ` {..< n}" for x
      using that j \<open>\<And>x. x \<notin> phys ` {..< j} \<Longrightarrow> m x = mem k x\<close> by (meson image_mono lessThan_subset_iff subsetD)
    then show ?thesis using w j \<open>i < j\<close> unfolding writable_def by (meson less_le_trans)
  qed
  ultimately show ?thesis by (simp add: writable_def)
qed

lemma writable_cong: "satp k = satp k' \<Longrightarrow> mem k = mem k' \<Longrightarrow> writable k a n phys = writable k' a n phys"
  unfolding writable_def using resolve_cong [of "k\<lparr>mem := _\<rparr>" "k'\<lparr>mem := _\<rparr>" PERM_W] by simp

section \<open>The frame\<close>

lemma frame_get:
  assumes "frame_holds (mem k) regs xs pc st"
  shows "get_x regs REG_IDX_A0 k = xs ! 10" "get_x regs REG_IDX_A1 k = xs ! 11"
    "get_x regs REG_IDX_A2 k = xs ! 12" "get_x regs REG_IDX_A7 k = xs ! 17"
proof -
  have "get_x regs (of_nat i) k = xs ! i" if "i < 32" for i
    using assms that by (simp add: frame_holds_def get_x_def)
  from this [of 10] this [of 11] this [of 12] this [of 17]
  show "get_x regs REG_IDX_A0 k = xs ! 10" "get_x regs REG_IDX_A1 k = xs ! 11"
    "get_x regs REG_IDX_A2 k = xs ! 12" "get_x regs REG_IDX_A7 k = xs ! 17"
    by (simp_all add: REG_IDX_A0_def REG_IDX_A1_def REG_IDX_A2_def REG_IDX_A7_def)
qed

lemma frame_set_result:
  assumes "frame_holds (mem k) regs xs pc st" "length xs = 32"
  shows "frame_holds (mem (set_x regs REG_IDX_A0 v k)) regs (xs[10 := v]) pc st"
proof -
  have "mem (set_x regs REG_IDX_A0 v k) = wr64 (mem k) (reg_slot regs (of_nat 10)) v"
    by (simp add: REG_IDX_A0_def set_x_def)
  then show ?thesis
    using assms by (simp add: frame_holds_def slot_names rd_slot_upd nth_list_update del: of_nat_numeral)
qed

lemma frame_advance:
  assumes "frame_holds (mem k) regs xs pc st"
  shows "frame_holds (mem (advance_sepc regs k)) regs xs (pc + 4) st"
  using assms
  by (simp add: frame_holds_def advance_sepc_def slot_names rd_slot_upd del: of_nat_numeral)

lemma frame_cong:
  assumes "\<And>x. x - regs < pt_regs_size \<Longrightarrow> m' x = m x" "frame_holds m regs xs pc st"
  shows "frame_holds m' regs xs pc st"
proof -
  have "rd64 m' (reg_slot regs (of_nat i)) = rd64 m (reg_slot regs (of_nat i))" if "i < 34" for i
  proof -
    have "m' (reg_slot regs (of_nat i) + of_nat j) = m (reg_slot regs (of_nat i) + of_nat j)" if "j < 8" for j
    proof (rule assms(1))
      have "reg_slot regs (of_nat i) + of_nat j - regs = of_nat (8 * i + j)" by (simp add: reg_slot_def)
      moreover have "unat (of_nat (8 * i + j) :: u64) = 8 * i + j"
        using \<open>i < 34\<close> \<open>j < 8\<close> by (intro unat_of_nat_small) simp
      ultimately show "reg_slot regs (of_nat i) + of_nat j - regs < pt_regs_size"
        using \<open>i < 34\<close> \<open>j < 8\<close> by (simp add: word_less_nat_alt pt_regs_size_def del: of_nat_add of_nat_mult)
    qed
    then show ?thesis unfolding rd64_def by (metis load_cong)
  qed
  then show ?thesis using assms(2) by (simp add: frame_holds_def slot_names del: of_nat_numeral)
qed

text \<open>Writing the result and moving on touches only the frame.\<close>

lemma frame_writes:
  assumes "\<not> x - regs < pt_regs_size"
  shows "mem (advance_sepc regs (set_x regs REG_IDX_A0 v k)) x = mem k x"
  using slot_far [OF _ assms, of 10] slot_far [OF _ assms, of 32]
  by (simp add: advance_sepc_def set_x_def sepc_slot_def REG_IDX_A0_def)

section \<open>Reading a file\<close>

text \<open>The running task has the file table \<open>fds\<close> at \<open>p\<close>.\<close>

definition running_files :: "'a kernel_scheme \<Rightarrow> u64 \<Rightarrow> file_struct list \<Rightarrow> bool" where
  "running_files k p fds \<longleftrightarrow> p \<noteq> 0 \<and> files_at k p = Some \<lparr>fd_array = fds\<rparr>
     \<and> (\<exists>cur. deref (task_at k) (current k) = Inr cur \<and> files cur = p)"

lemma current_files_ok: "running_files k p fds \<Longrightarrow> current_files k = Inr (p, fds)"
  by (auto simp: running_files_def current_files_def)

lemma set_file_ok:
  "running_files k p fds \<Longrightarrow> unat i < length fds
   \<Longrightarrow> set_file p i fl k = Inr (k\<lparr>files_at := (files_at k)(p \<mapsto> \<lparr>fd_array = fds[unat i := fl]\<rparr>)\<rparr>)"
  by (auto simp: running_files_def set_file_def)

lemma running_files_cong:
  "task_at k' = task_at k \<Longrightarrow> current k' = current k \<Longrightarrow> files_at k' = files_at k
   \<Longrightarrow> running_files k' p fds = running_files k p fds"
  by (simp add: running_files_def)

lemma ecall_dispatch:
  "trap_handler b SUPERVISOR_ECALL_FROM_USER sepc regs k = syscall_handler b regs k"
  by (simp add: trap_handler_def SUPERVISOR_ECALL_FROM_USER_def SUPERVISOR_LOAD_PAGE_FAULT_def
      SUPERVISOR_STORE_PAGE_FAULT_def SUPERVISOR_INST_PAGE_FAULT_def)

lemma syscall_numbers:
  "syscall_table SYS_OPENAT = Inr (Some sys_openat)" "syscall_table SYS_CLOSE = Inr (Some sys_close)"
  "syscall_table SYS_SEEK = Inr (Some sys_seek)" "syscall_table SYS_READ = Inr (Some sys_read)"
  "syscall_table SYS_WRITE = Inr (Some sys_write)" "syscall_table SYS_GETPID = Inr (Some sys_getpid)"
  "syscall_table SYS_CLONE = Inr (Some sys_clone)"
  by (simp_all add: syscall_table_def SYS_OPENAT_def SYS_CLOSE_def SYS_SEEK_def SYS_READ_def SYS_WRITE_def
      SYS_GETPID_def SYS_CLONE_def)

lemma syscall_enter:
  assumes "frame_holds (mem k) regs xs pc st" "syscall_table (xs ! 17) = Inr (Some h)"
  shows "trap_handler b SUPERVISOR_ECALL_FROM_USER sepc regs k
    = bindr (h b regs k) (\<lambda>k. Inr (advance_sepc regs k))"
  using assms frame_get(4) [OF assms(1)] by (simp add: ecall_dispatch syscall_handler_def)

text \<open>C29: The read system call on an open FAT32 file, from the trap on: the bytes of the file from
  the position on, at most as many as asked for and present, are in the caller's buffer, the
  number of them is in \<^verbatim>\<open>a0\<close>, the program goes on behind the \<^verbatim>\<open>ecall\<close>, the position has moved by
  as many, and no other byte of memory outside the frame, no other file and no sector has changed.\<close>

theorem read_syscall_delivers:
  fixes k :: "('w, 'h blk, 'a) system_scheme" and v :: "'h disk_view"
  defines "C \<equiv> sectors v (hw (disk (fs k)))"
  assumes "serves dev v" and "capacity v \<le> 2 ^ 32" and "blk_ready v (disk (fs k))"
    and "disk_io b = virtio_io dev buf"
    and "frame_holds (mem k) regs xs pc st" and "length xs = 32" and "xs ! 17 = SYS_READ"
    and "running_files k p fds" and "unat (xs ! 10) < length fds" and "fds ! unat (xs ! 10) = fl"
    and "opened fl \<noteq> 0" and "perms fl AND FILE_READABLE \<noteq> 0" and "f_read fl = Op_Fat32"
    and "file_wf C (capacity v) (fat32_volume (fs k)) fl cs" and "unat (cfo fl) < 2 ^ 63"
    and "out = take (unat (xs ! 12)) (drop (unat (cfo fl))
        (take (unat (dir_size C (fat32_volume (fs k)) fl)) (file_bytes C (fat32_volume (fs k)) cs)))"
    and "writable k (xs ! 11) (length out) phys"
    and "\<forall>i < length out. \<not> phys i - regs < pt_regs_size"
  shows "\<exists>k'. trap_handler b SUPERVISOR_ECALL_FROM_USER sepc regs k = Inr k'
    \<and> frame_holds (mem k') regs (xs[10 := of_nat (length out)]) (pc + 4) st
    \<and> (\<forall>i < length out. mem k' (phys i) = out ! i)
    \<and> (\<forall>x. x \<notin> phys ` {..< length out} \<and> \<not> x - regs < pt_regs_size \<longrightarrow> mem k' x = mem k x)
    \<and> running_files k' p (fds[unat (xs ! 10) := fl\<lparr>cfo := cfo fl + of_nat (length out)\<rparr>])
    \<and> sectors v (hw (disk (fs k'))) = C"
proof -
  obtain f where f: "fat32_read (virtio_io dev buf) (xs ! 12) fl (fs k)
      = Inr (of_nat (length out), out, fl\<lparr>cfo := cfo fl + of_nat (length out)\<rparr>, f)"
    "sectors v (hw (disk f)) = C"
    using fat32_read_correct [OF assms(2-4), of fl cs buf "xs ! 12"] assms(15-17) unfolding C_def by blast
  define k1 where "k1 = k\<lparr>fs := f\<rparr>"
  have "writable k1 (xs ! 11) (length out) phys"
    using assms(18) by (subst writable_cong [of _ k]) (simp_all add: k1_def)
  then obtain m where m: "vstore (xs ! 11) out k1 = Inr (k1\<lparr>mem := m\<rparr>)" "\<forall>i < length out. m (phys i) = out ! i"
    "\<forall>x. x \<notin> phys ` {..< length out} \<longrightarrow> m x = mem k1 x" using vstore_writable by blast
  define k2 where "k2 = k1\<lparr>mem := m\<rparr>"
  define fl' where "fl' = fl\<lparr>cfo := cfo fl + of_nat (length out)\<rparr>"
  have run2: "running_files k2 p fds" using assms(9) by (simp add: k2_def k1_def running_files_def)
  define k3 where "k3 = k2\<lparr>files_at := (files_at k2)(p \<mapsto> \<lparr>fd_array = fds[unat (xs ! 10) := fl']\<rparr>)\<rparr>"
  define k' where "k' = advance_sepc regs (set_x regs REG_IDX_A0 (of_nat (length out)) k3)"
  have "call_read b fl (xs ! 11) (xs ! 12) k = Inr (of_nat (length out), fl', k2)"
    using f(1) m(1) assms(5,14) by (simp add: call_read_def fl'_def k2_def k1_def)
  moreover have "set_file p (xs ! 10) fl' k2 = Inr k3"
    using set_file_ok [OF run2 assms(10)] by (simp add: k3_def)
  ultimately have "sys_read b regs k = Inr (set_x regs REG_IDX_A0 (of_nat (length out)) k3)"
    using assms(10-13) frame_get [OF assms(6)] current_files_ok [OF assms(9)]
    by (simp add: sys_read_def Let_def finish_call_def)
  then have call: "trap_handler b SUPERVISOR_ECALL_FROM_USER sepc regs k = Inr k'"
    using syscall_enter [OF assms(6)] assms(8) by (simp add: syscall_numbers k'_def)
  have mem3: "mem k3 = m" by (simp add: k3_def k2_def)
  have far: "mem k' x = m x" if "\<not> x - regs < pt_regs_size" for x
    using frame_writes [OF that, of "of_nat (length out)" k3] mem3 by (simp add: k'_def)
  have "frame_holds (mem k3) regs xs pc st"
  proof (rule frame_cong [OF _ assms(6)])
    fix x assume "x - regs < pt_regs_size"
    then have "x \<notin> phys ` {..< length out}" using assms(19) by auto
    then show "mem k3 x = mem k x" using m(3) by (simp add: mem3 k1_def)
  qed
  then have "frame_holds (mem k') regs (xs[10 := of_nat (length out)]) (pc + 4) st"
    unfolding k'_def using assms(7) by (intro frame_advance frame_set_result)
  moreover have "running_files k' p (fds[unat (xs ! 10) := fl'])"
    using run2 by (simp add: running_files_def k'_def k3_def advance_sepc_def set_x_def)
  moreover have "fs k' = f" by (simp add: k'_def k3_def k2_def k1_def advance_sepc_def set_x_def)
  ultimately show ?thesis
    using call f(2) far m(2,3) assms(19) by (auto simp: fl'_def k1_def)
qed

end
