(* ===== verification/Openat_Correct.thy ===== *)
theory Openat_Correct
  imports Syscall_Correct Console_Props
begin

text \<open>
  The calls that are refused, and \<^verbatim>\<open>openat\<close> in both outcomes: what the program gets back and what
  is left in the file table.
\<close>

text \<open>C33: Refused calls change nothing but the frame: reading or writing a closed file, or one
  without the permission, returns \<^verbatim>\<open>ERROR_FILE_NOT_OPEN\<close>; seeking in or closing a closed file
  returns with \<^verbatim>\<open>a0\<close> as it was. Descriptors are not checked: one past the table is an access past
  its end, and so is a call number past the table of handlers.\<close>

theorem file_access_refused:
  assumes "frame_holds (mem k) regs xs pc st" and "running_files k p fds"
  shows "let trap = trap_handler b SUPERVISOR_ECALL_FROM_USER sepc regs k;
             fd = unat (xs ! 10); fd32 = unat (ucast (xs ! 10) :: u32)
    in (xs ! 17 \<in> {SYS_READ, SYS_WRITE} \<longrightarrow> fd < length fds \<longrightarrow>
          opened (fds ! fd) = 0 \<or> perms (fds ! fd) AND (if xs ! 17 = SYS_READ then FILE_READABLE else FILE_WRITABLE) = 0
          \<longrightarrow> trap = Inr (advance_sepc regs (set_x regs REG_IDX_A0 ERROR_FILE_NOT_OPEN k)))
     \<and> (xs ! 17 \<in> {SYS_SEEK, SYS_CLOSE} \<longrightarrow> fd32 < length fds \<longrightarrow> opened (fds ! fd32) = 0
          \<longrightarrow> trap = Inr (advance_sepc regs k))
     \<and> (xs ! 17 \<in> {SYS_READ, SYS_WRITE} \<and> length fds \<le> fd \<or> xs ! 17 \<in> {SYS_SEEK, SYS_CLOSE} \<and> length fds \<le> fd32
          \<or> SYS_CLONE < xs ! 17 \<longrightarrow> trap = Inl Out_Of_Bounds)"
proof -
  note enter = syscall_enter [OF assms(1)] and args = frame_get [OF assms(1)]
    and fls = current_files_ok [OF assms(2)]
  have big: "trap_handler b SUPERVISOR_ECALL_FROM_USER sepc regs k = Inl Out_Of_Bounds" if "SYS_CLONE < xs ! 17"
    using that
    by (auto simp: ecall_dispatch syscall_handler_def args(4) syscall_table_def Let_def SYS_OPENAT_def
        SYS_CLOSE_def SYS_SEEK_def SYS_READ_def SYS_WRITE_def SYS_GETPID_def SYS_CLONE_def)
  have ne: "SYS_WRITE \<noteq> SYS_READ" by (simp add: SYS_WRITE_def SYS_READ_def)
  show ?thesis
    unfolding Let_def
    using enter args fls big ne
    by (auto simp: syscall_numbers sys_read_def sys_write_def sys_seek_def sys_close_def Let_def aget_def)
qed

section \<open>Reading the path\<close>

lemma readable_Cons: "readable k a (c # cs) \<Longrightarrow> vload8 k a = Inr c \<and> readable k (a + 1) cs"
proof -
  assume r: "readable k a (c # cs)"
  then have all: "vload8 k (a + of_nat i) = Inr ((c # cs) ! i)" if "i < Suc (length cs)" for i
    using that by (simp add: readable_def)
  have "vload8 k (a + 1 + of_nat i) = Inr (cs ! i)" if "i < length cs" for i
    using all [of "Suc i"] that by (simp add: add.assoc)
  with all [of 0] r show ?thesis by (auto simp: readable_def)
qed

lemma starts_with_prefix:
  assumes "readable k a (cs @ [0])" "0 \<notin> set pat"
  shows "starts_with k a pat = Inr (take (length pat) cs = pat)"
  using assms
proof (induction pat arbitrary: a cs)
  case (Cons c pat)
  show ?case
  proof (cases cs)
    case Nil
    then show ?thesis using Cons.prems readable_Cons [of k a 0 "[]"] by auto
  next
    case (Cons x ds)
    then show ?thesis
      using Cons.prems Cons.IH [of "a + 1" ds] readable_Cons [of k a x "ds @ [0]"] by auto
  qed
qed simp

lemma upper_case_writable:
  assumes "writable k a (length cs) phys"
  shows "\<exists>m. upper_case_at a cs k = Inr (k\<lparr>mem := m\<rparr>)
    \<and> (\<forall>x. x \<notin> phys ` {..< length cs} \<longrightarrow> m x = mem k x)
    \<and> ((\<forall>i < length cs. mem k (phys i) = cs ! i) \<longrightarrow> (\<forall>i < length cs. m (phys i) = to_upper_case cs ! i))"
  using assms
proof (induction cs arbitrary: a k phys)
  case Nil
  then show ?case by (intro exI [of _ "mem k"]) simp
next
  case (Cons c cs)
  define low where "low \<longleftrightarrow> 0x61 \<le> c \<and> c \<le> 0x7A"
  define k1 where "k1 = (if low then k\<lparr>mem := (mem k)(phys 0 := c - 32)\<rparr> else k)"
  have w: "writable k a (Suc (length cs)) phys" using Cons.prems by simp
  then have inj: "inj_on phys {..< Suc (length cs)}" by (simp add: writable_def)
  then have fresh: "phys 0 \<notin> (\<lambda>i. phys (Suc i)) ` {..< length cs}" by (auto simp: inj_on_def)
  have "writable k1 (a + 1) (length cs) (\<lambda>i. phys (Suc i))"
    using writable_step(2,3) [OF w] by (simp add: k1_def)
  then obtain m where m: "upper_case_at (a + 1) cs k1 = Inr (k1\<lparr>mem := m\<rparr>)"
    "\<forall>x. x \<notin> (\<lambda>i. phys (Suc i)) ` {..< length cs} \<longrightarrow> m x = mem k1 x"
    "(\<forall>i < length cs. mem k1 (phys (Suc i)) = cs ! i) \<longrightarrow> (\<forall>i < length cs. m (phys (Suc i)) = to_upper_case cs ! i)"
    using Cons.IH by blast
  have "upper_case_at a (c # cs) k = Inr (k\<lparr>mem := m\<rparr>)"
  proof -
    have "upper_case_at a (c # cs) k = bindr (if low then vstore8 a (c - 32) k else Inr k) (upper_case_at (a + 1) cs)"
      by (simp add: low_def)
    then show ?thesis using m(1) writable_step(1) [OF w] by (cases low) (simp_all add: k1_def)
  qed
  moreover have "m x = mem k x" if "x \<notin> phys ` {..< Suc (length cs)}" for x
  proof -
    have "x \<noteq> phys 0" "x \<notin> (\<lambda>i. phys (Suc i)) ` {..< length cs}" using that by auto
    then show ?thesis using m(2) by (simp add: k1_def)
  qed
  moreover have "\<forall>i < Suc (length cs). m (phys i) = to_upper_case (c # cs) ! i"
    if all: "\<forall>i < Suc (length cs). mem k (phys i) = (c # cs) ! i"
  proof -
    have "mem k1 (phys (Suc i)) = cs ! i" if "i < length cs" for i
    proof -
      have "phys (Suc i) \<noteq> phys 0" using fresh that by (metis imageI lessThan_iff)
      then show ?thesis using all that by (auto simp: k1_def)
    qed
    then have "\<forall>i < length cs. m (phys (Suc i)) = to_upper_case cs ! i" using m(3) by blast
    moreover have "m (phys 0) = (if low then c - 32 else c)"
      using m(2) fresh all by (auto simp: k1_def)
    ultimately show ?thesis by (auto simp: to_upper_case_def low_def nth_Cons split: nat.splits)
  qed
  ultimately show ?case by auto
qed

lemma length_upper_case [simp]: "length (to_upper_case cs) = length cs"
  by (simp add: to_upper_case_def)

section \<open>Messages with a string\<close>

lemma printk_string:
  assumes "console_out p out" "0x25 \<notin> set pre" "0x25 \<notin> set post" "a \<noteq> 0" "vstring k a = Inr cs"
  shows "\<exists>n w. printk p (pre @ [0x25, 0x73] @ post) [a] k = Inr (n, k\<lparr>world := w\<rparr>)
    \<and> out w = out (world k) @ pre @ cs @ post"
proof -
  have "vprintfmt kernel_pointers (pre @ [0x25, 0x73] @ post) [a] k
      = Inr (pre @ cs @ post, of_nat (length pre) + of_nat (length cs) + of_nat (length post), k)"
    unfolding vprintfmt_def
    using assms(2-5)
    by (simp add: plain_prefix no_flags_def fresh_flags_def conversion_def va_arg_def puts_wo_nl_def
        kernel_pointers_def vprintfmt_loop_plain puts_bytes)
  then show ?thesis using putc_all [OF assms(1), of "pre @ cs @ post" k] by (auto simp: printk_def)
qed

section \<open>Opening\<close>

text \<open>A call of \<^verbatim>\<open>openat\<close> with the path \<open>cs\<close>, for which descriptor \<open>i\<close> is the first closed one.\<close>

definition openat_call ::
  "u64 \<Rightarrow> u64 list \<Rightarrow> u64 \<Rightarrow> u64 \<Rightarrow> u64 \<Rightarrow> file_struct list \<Rightarrow> u8 list \<Rightarrow> nat \<Rightarrow> 'a kernel_scheme \<Rightarrow> bool" where
  "openat_call regs xs pc st p fds cs i k \<longleftrightarrow>
     frame_holds (mem k) regs xs pc st \<and> length xs = 32 \<and> xs ! 17 = SYS_OPENAT
     \<and> running_files k p fds \<and> length fds = MAX_FILE_NUMBER
     \<and> 3 \<le> i \<and> i < MAX_FILE_NUMBER \<and> opened (fds ! i) = 0 \<and> (\<forall>j. 3 \<le> j \<and> j < i \<longrightarrow> opened (fds ! j) \<noteq> 0)
     \<and> readable k (xs ! 11) (cs @ [0]) \<and> 0 \<notin> set cs \<and> length cs < MAX_PATH_LENGTH
     \<and> length (f_path (fds ! i)) = MAX_PATH_LENGTH"

definition opened_file :: "file_struct \<Rightarrow> u64 \<Rightarrow> u32 \<Rightarrow> u8 list \<Rightarrow> file_struct" where
  "opened_file fl flags type cs =
     fl\<lparr>opened := 1, perms := ucast flags, cfo := 0, fs_type := type,
        f_path := cs @ 0 # drop (length cs + 1) (f_path fl)\<rparr>"

lemma free_descriptor_first:
  assumes "length fds = MAX_FILE_NUMBER" "3 \<le> i" "i < MAX_FILE_NUMBER" "opened (fds ! i) = 0"
    "\<forall>j. 3 \<le> j \<and> j < i \<longrightarrow> opened (fds ! j) \<noteq> 0"
  shows "free_descriptor fds = Some (i, fds ! i)"
proof -
  have "drop 3 (enumerate 0 (take MAX_FILE_NUMBER fds)) = map (\<lambda>j. (j + 3, fds ! (j + 3))) [0 ..< 13]"
    using assms(1) by (intro nth_equalityI) (simp_all add: nth_enumerate_eq MAX_FILE_NUMBER_def add.commute)
  moreover have "find (\<lambda>(i, fl). opened fl = 0) (map (\<lambda>j. (j + 3, fds ! (j + 3))) [0 ..< 13]) = Some (i, fds ! i)"
    using assms(2-5)
    by (subst find_Some_iff) (auto simp: MAX_FILE_NUMBER_def intro!: exI [of _ "i - 3"])
  ultimately show ?thesis by (simp add: free_descriptor_def)
qed

lemma fs_type_of:
  assumes "readable k a (cs @ [0])"
  shows "get_fs_type k a = Inr (if take 7 cs = ascii ''/fat32/'' then FS_TYPE_FAT32
    else if take 6 cs = ascii ''/ext2/'' then FS_TYPE_EXT2 else - 1)"
proof -
  have len: "length (ascii ''/fat32/'') = 7" "length (ascii ''/ext2/'') = 6" by (simp_all add: ascii_def)
  have "0 \<notin> set (ascii ''/fat32/'')" "0 \<notin> set (ascii ''/ext2/'')" by (simp_all add: ascii_def)
  from this [THEN starts_with_prefix [OF assms]] show ?thesis
    unfolding len by (simp only: get_fs_type_def bindr_Inr) simp
qed

lemma sys_openat_enter:
  assumes call: "openat_call regs xs pc st p fds cs i k"
    and open': "file_open b (fds ! i) (xs ! 11) (ucast (xs ! 12)) k = Inr (r, fl, k2)"
    and same: "task_at k2 = task_at k" "current k2 = current k" "files_at k2 = files_at k"
    and frame: "\<And>x. x - regs < pt_regs_size \<Longrightarrow> mem k2 x = mem k x"
  shows "\<exists>k'. trap_handler b SUPERVISOR_ECALL_FROM_USER sepc regs k = Inr k'
    \<and> frame_holds (mem k') regs (xs[10 := scast r]) (pc + 4) st
    \<and> running_files k' p (fds[i := fl])
    \<and> (\<forall>x. \<not> x - regs < pt_regs_size \<longrightarrow> mem k' x = mem k2 x)
    \<and> satp k' = satp k2 \<and> world k' = world k2 \<and> fs k' = fs k2"
proof -
  have c: "frame_holds (mem k) regs xs pc st" "length xs = 32" "xs ! 17 = SYS_OPENAT" "running_files k p fds"
    "length fds = MAX_FILE_NUMBER" "3 \<le> i" "i < MAX_FILE_NUMBER" "opened (fds ! i) = 0"
    "\<forall>j. 3 \<le> j \<and> j < i \<longrightarrow> opened (fds ! j) \<noteq> 0"
    using call by (simp_all add: openat_call_def)
  note fd = free_descriptor_first [OF c(5-9)]
  have ui: "unat (of_nat i :: u64) = i" using c(7) by (intro unat_of_nat_small) (simp add: MAX_FILE_NUMBER_def)
  have run2: "running_files k2 p fds" using c(4) by (subst running_files_cong [OF same])
  define k3 where "k3 = k2\<lparr>files_at := (files_at k2)(p \<mapsto> \<lparr>fd_array = fds[i := fl]\<rparr>)\<rparr>"
  have "set_file p (of_nat i :: u64) fl k2 = Inr k3"
    using set_file_ok [OF run2, of "of_nat i :: u64"] c(5,7) ui by (simp add: k3_def)
  then have "sys_openat b regs k = Inr (set_x regs REG_IDX_A0 (scast r) k3)"
    using current_files_ok [OF c(4)] fd open' frame_get [OF c(1)] by (simp add: sys_openat_def Let_def)
  then have "trap_handler b SUPERVISOR_ECALL_FROM_USER sepc regs k = Inr (advance_sepc regs (set_x regs REG_IDX_A0 (scast r) k3))"
    using syscall_enter [OF c(1)] c(3) by (simp add: syscall_numbers)
  moreover have "frame_holds (mem k3) regs xs pc st"
    using frame_cong [OF _ c(1), of "mem k3"] frame by (simp add: k3_def)
  then have "frame_holds (mem (advance_sepc regs (set_x regs REG_IDX_A0 (scast r) k3))) regs (xs[10 := scast r]) (pc + 4) st"
    using c(2) by (intro frame_advance frame_set_result)
  ultimately show ?thesis
    using run2 frame_writes [of _ regs "scast r" k3]
    by (auto simp: running_files_def advance_sepc_def set_x_def k3_def)
qed

lemma copy_path_fits:
  "length field = MAX_PATH_LENGTH \<Longrightarrow> length cs < MAX_PATH_LENGTH
   \<Longrightarrow> copy_path cs field = Inr (cs @ 0 # drop (length cs + 1) field)"
  by (simp add: copy_path_def)

lemma fs_types_differ: "FS_TYPE_FAT32 \<noteq> FS_TYPE_EXT2" "- 1 \<noteq> FS_TYPE_FAT32" "- 1 \<noteq> FS_TYPE_EXT2"
  by (simp_all add: FS_TYPE_FAT32_def FS_TYPE_EXT2_def)

text \<open>C31: Opening a file of the root directory takes the first closed descriptor from 3 on, sets it up
  for FAT32 at position 0 with the requested permissions, and returns 0, which is not the number
  of that descriptor. The path in the caller's memory comes back in upper case.\<close>

theorem openat_opens:
  fixes k :: "('w, 'h blk, 'a) system_scheme" and v :: "'h disk_view"
  defines "root \<equiv> sectors v (hw (disk (fs k))) (first_data_sec (fat32_volume (fs k)))"
  assumes "openat_call regs xs pc st p fds cs i k" and "take 7 cs = ascii ''/fat32/''"
    and "writable k (xs ! 11) (length cs) phys" and "\<forall>l < length cs. \<not> phys l - regs < pt_regs_size"
    and "serves dev v" and "capacity v \<le> 2 ^ 32" and "blk_ready v (disk (fs k))"
    and "first_data_sec (fat32_volume (fs k)) < capacity v" and "disk_io b = virtio_io dev buf"
    and "j < 16" and "\<forall>l < j. entry_skipped root (short_name cs) l"
    and "\<not> entry_skipped root (short_name cs) j" and "u8_at root (32 * j) \<noteq> FAT_DIRENT_NEVER_USED"
    and "e = dir_entry_of (bytes_at root (32 * j) 32)"
    and "c = push_bit 16 (ucast (de_starthi e)) OR ucast (de_startlow e)" and "c \<noteq> 0"
  shows "\<exists>k'. trap_handler b SUPERVISOR_ECALL_FROM_USER sepc regs k = Inr k'
    \<and> frame_holds (mem k') regs (xs[10 := 0]) (pc + 4) st
    \<and> running_files k' p (fds[i := (opened_file (fds ! i) (xs ! 12) FS_TYPE_FAT32 cs)
          \<lparr>fat32_file_of := \<lparr>cluster = c, dir = \<lparr>dir_cluster = 2, dir_index = of_nat j\<rparr>\<rparr>,
           f_lseek := Op_Fat32, f_write := Op_Fat32, f_read := Op_Fat32\<rparr>])
    \<and> (\<forall>x. x \<notin> phys ` {..< length cs} \<and> \<not> x - regs < pt_regs_size \<longrightarrow> mem k' x = mem k x)
    \<and> ((\<forall>l < length cs. mem k (phys l) = cs ! l) \<longrightarrow> (\<forall>l < length cs. mem k' (phys l) = to_upper_case cs ! l))"
proof -
  have call: "readable k (xs ! 11) (cs @ [0])" "0 \<notin> set cs" "length cs < MAX_PATH_LENGTH"
    "length (f_path (fds ! i)) = MAX_PATH_LENGTH"
    using assms(2) by (simp_all add: openat_call_def)
  obtain m where m: "upper_case_at (xs ! 11) cs k = Inr (k\<lparr>mem := m\<rparr>)"
    "\<forall>x. x \<notin> phys ` {..< length cs} \<longrightarrow> m x = mem k x"
    "(\<forall>l < length cs. mem k (phys l) = cs ! l) \<longrightarrow> (\<forall>l < length cs. m (phys l) = to_upper_case cs ! l)"
    using upper_case_writable [OF assms(4)] by blast
  have "\<exists>f. fat32_open_file (virtio_io dev buf) cs (fs k)
    = Inr (\<lparr>cluster = c, dir = \<lparr>dir_cluster = 2, dir_index = of_nat j\<rparr>\<rparr>, to_upper_case cs, f)"
    using fat32_open_finds [OF assms(6-9), of j cs buf] assms(11-16) unfolding root_def by (auto simp: Let_def)
  then obtain f where f: "fat32_open_file (virtio_io dev buf) cs (fs k)
    = Inr (\<lparr>cluster = c, dir = \<lparr>dir_cluster = 2, dir_index = of_nat j\<rparr>\<rparr>, to_upper_case cs, f)" by blast
  define fl where "fl = (opened_file (fds ! i) (xs ! 12) FS_TYPE_FAT32 cs)
    \<lparr>fat32_file_of := \<lparr>cluster = c, dir = \<lparr>dir_cluster = 2, dir_index = of_nat j\<rparr>\<rparr>,
     f_lseek := Op_Fat32, f_write := Op_Fat32, f_read := Op_Fat32\<rparr>"
  define k2 where "k2 = k\<lparr>mem := m, fs := f\<rparr>"
  have "file_open b (fds ! i) (xs ! 11) (ucast (xs ! 12)) k = Inr (0, fl, k2)"
    unfolding file_open_def Let_def fs_type_of [OF call(1)]
    using assms(3,10,17) m(1) f vstring_eq [OF call(1,2)] copy_path_fits [OF call(4,3)]
    by (simp add: fl_def opened_file_def k2_def)
  moreover have frame: "mem k2 x = mem k x" if "x - regs < pt_regs_size" for x
  proof -
    have "x \<notin> phys ` {..< length cs}" using assms(5) that by auto
    then show ?thesis using m(2) by (simp add: k2_def)
  qed
  ultimately obtain k' where k': "trap_handler b SUPERVISOR_ECALL_FROM_USER sepc regs k = Inr k'"
    "frame_holds (mem k') regs (xs[10 := scast (0 :: u32)]) (pc + 4) st" "running_files k' p (fds[i := fl])"
    "\<forall>x. \<not> x - regs < pt_regs_size \<longrightarrow> mem k' x = mem k2 x"
    using sys_openat_enter [OF assms(2), of b 0 fl k2 sepc] by (auto simp: k2_def)
  moreover have "\<forall>l < length cs. mem k' (phys l) = m (phys l)"
    using k'(4) assms(5) by (simp add: k2_def)
  ultimately show ?thesis
    using m(2,3) by (auto simp: fl_def k2_def)
qed

text \<open>C32: Opening a path that is on no known file system prints a message and returns -1, but the
  first closed descriptor stays taken: it is open, with the requested permissions and the
  function pointers it had before, so a read through it is a call through a null pointer when
  the descriptor had not been used yet.\<close>

theorem openat_failure_leaks:
  fixes k :: "('w, 'd, 'a) system_scheme"
  assumes "openat_call regs xs pc st p fds cs i k" and "take 7 cs \<noteq> ascii ''/fat32/''"
    and "take 6 cs \<noteq> ascii ''/ext2/''" and "xs ! 11 \<noteq> 0" and "console_out (firmware b) out"
    and "f_read (fds ! i) = Op_Null"
  shows "\<exists>k'. trap_handler b SUPERVISOR_ECALL_FROM_USER sepc regs k = Inr k'
    \<and> frame_holds (mem k') regs (xs[10 := - 1]) (pc + 4) st
    \<and> running_files k' p (fds[i := opened_file (fds ! i) (xs ! 12) (- 1) cs])
    \<and> out (world k') = out (world k) @ RED @ ascii ''Unknown fs type: '' @ cs @ 0x0A # CLEAR
    \<and> (\<forall>xs2 pc2. length xs2 = 32 \<and> xs2 ! 17 = SYS_READ \<and> xs2 ! 10 = of_nat i
          \<and> (ucast (xs ! 12) :: u32) AND FILE_READABLE \<noteq> 0 \<and> frame_holds (mem k') regs xs2 pc2 st
        \<longrightarrow> trap_handler b SUPERVISOR_ECALL_FROM_USER sepc regs k' = Inl Null_Pointer)"
proof -
  have call: "readable k (xs ! 11) (cs @ [0])" "0 \<notin> set cs" "length cs < MAX_PATH_LENGTH"
    "length (f_path (fds ! i)) = MAX_PATH_LENGTH" "i < MAX_FILE_NUMBER" "length fds = MAX_FILE_NUMBER"
    using assms(1) by (simp_all add: openat_call_def)
  have msg: "unknown_fs = (RED @ ascii ''Unknown fs type: '') @ [0x25, 0x73] @ (0x0A # CLEAR)"
    by (simp add: unknown_fs_def ascii_def)
  have "0x25 \<notin> set (RED @ ascii ''Unknown fs type: '')" "0x25 \<notin> set (0x0A # CLEAR)"
    by (simp_all add: RED_def CLEAR_def ascii_def)
  from printk_string [OF assms(5) this assms(4) vstring_eq [OF call(1,2)]]
  obtain n w where w: "printk (firmware b) unknown_fs [xs ! 11] k = Inr (n, k\<lparr>world := w\<rparr>)"
    "out w = out (world k) @ RED @ ascii ''Unknown fs type: '' @ cs @ 0x0A # CLEAR"
    unfolding msg by auto
  define fl where "fl = opened_file (fds ! i) (xs ! 12) (- 1) cs"
  define k2 where "k2 = k\<lparr>world := w\<rparr>"
  have "file_open b (fds ! i) (xs ! 11) (ucast (xs ! 12)) k = Inr (- 1, fl, k2)"
    unfolding file_open_def Let_def fs_type_of [OF call(1)]
    using assms(2,3) w(1) vstring_eq [OF call(1,2)] copy_path_fits [OF call(4,3)] fs_types_differ
    by (simp add: fl_def opened_file_def k2_def)
  then obtain k' where k': "trap_handler b SUPERVISOR_ECALL_FROM_USER sepc regs k = Inr k'"
    "frame_holds (mem k') regs (xs[10 := scast (- 1 :: u32)]) (pc + 4) st"
    "running_files k' p (fds[i := fl])" "world k' = w"
    using sys_openat_enter [OF assms(1), of b "- 1" fl k2 sepc] by (auto simp: k2_def)
  have "trap_handler b SUPERVISOR_ECALL_FROM_USER sepc regs k' = Inl Null_Pointer"
    if "xs2 ! 17 = SYS_READ" "xs2 ! 10 = of_nat i" "(ucast (xs ! 12) :: u32) AND FILE_READABLE \<noteq> 0"
      "frame_holds (mem k') regs xs2 pc2 st" for xs2 pc2
  proof -
    have "unat (xs2 ! 10) = i" using that(2) call(5) by (simp add: unat_of_nat_small MAX_FILE_NUMBER_def)
    moreover have "opened fl \<noteq> 0" "perms fl AND FILE_READABLE \<noteq> 0" "f_read fl = Op_Null"
      using that(3) assms(6) by (simp_all add: fl_def opened_file_def)
    ultimately have "sys_read b regs k' = Inl Null_Pointer"
      using current_files_ok [OF k'(3)] frame_get [OF that(4)] call(5,6)
      by (simp add: sys_read_def Let_def call_read_def finish_call_def)
    then show ?thesis using syscall_enter [OF that(4)] that(1) by (simp add: syscall_numbers)
  qed
  with k' w(2) show ?thesis by (auto simp: fl_def)
qed

end
