(* ===== verification/Fat32_Witness.thy ===== *)
theory Fat32_Witness
  imports Fat32_Props Buddy_Witness
begin

text \<open>
  A small volume on the device that keeps its sectors in a function: table in sector 1, root
  directory in sector 3 with one entry, the file of five bytes in cluster 3, which is sector 4.
\<close>

definition demo_sector :: "u64 \<Rightarrow> u8 list" where
  "demo_sector n =
     (if n = 1 then [0, 0, 0, 0, 0, 0, 0, 0, 0, 0, 0, 0, 0xff, 0xff, 0xff, 0x0f]
      else if n = 3 then [0x41, 0x20, 0x20, 0x20, 0x20, 0x20, 0x20, 0x20, 0, 0, 0, 0, 0, 0, 0, 0, 0, 0, 0, 0, 0, 0, 0, 0, 0, 0,
        3, 0, 5, 0, 0, 0]
      else if n = 4 then [0x68, 0x65, 0x6c, 0x6c, 0x6f]
      else [])"

definition demo_regs :: virtio_regs where
  "demo_regs =
     \<lparr>MagicValue = 0x74726976, Version = 2, DeviceID = ID_VIRTIO_BLK, VendorID = 0, DeviceFeatures = 0,
      DeviceFeaturesSel = 0, DriverFeatures = 0, DriverFeaturesSel = 0, QueueSel = 0, QueueNumMax = 16,
      QueueNum = 0, QueueReady = 0, QueueNotify = 0, InterruptStatus = 0, InterruptACK = 0, Status = 0,
      QueueDescLow = 0, QueueDescHigh = 0, QueueAvailLow = 0, QueueAvailHigh = 0, QueueUsedLow = 0,
      QueueUsedHigh = 0, ConfigGeneration = 0, Config = []\<rparr>"

definition demo_ring :: vring where
  "demo_ring = \<lparr>vr_num = 16, vr_desc = VM_START + 0x1000, vr_avail = VM_START + 0x2000, vr_used = VM_START + 0x3000\<rparr>"

definition demo_blk :: "ram blk" where
  "demo_blk =
     \<lparr>mmio = [0x10001000 \<mapsto> (queue_regs demo_ring demo_regs)\<lparr>QueueReady := 1\<rparr>],
      virtio_blk_regs = 0x10001000, virtio_blk_ring = demo_ring,
      desc = replicate 16 \<lparr>d_addr = 0, d_len = 0, d_flags = 0, d_next = 0\<rparr>,
      avail = \<lparr>av_flags = 1, av_idx = 0, av_ring = replicate 16 0, used_event = 0\<rparr>,
      used = \<lparr>us_flags = 0, us_idx = 0, us_ring = [], avail_event = 0\<rparr>,
      virtio_blk_req = \<lparr>req_type = 0, req_reserved = 0, req_sector = 0\<rparr>, req_at = VM_START,
      virtio_blk_status = 0, status_at = VM_START + 16, dma = (\<lambda>_. 0), hw = (demo_sector, 0)\<rparr>"

definition demo_fs :: "ram blk fat32" where
  "demo_fs =
     \<lparr>fat32_header = bpb_of [],
      fat32_volume = \<lparr>first_data_sec = 3, first_fat_sec = 1, sec_per_cluster = 1, fat_sz = 1\<rparr>,
      fat32_buf = [], fat32_table_buf = [], disk = demo_blk\<rparr>"

definition demo_file :: file_struct where
  "demo_file =
     \<lparr>opened = 1, perms = 3, cfo = 1, fs_type = 1, fat32_file_of = \<lparr>cluster = 3, dir = \<lparr>dir_cluster = 2, dir_index = 0\<rparr>\<rparr>,
      f_lseek = Op_Null, f_write = Op_Null, f_read = Op_Null, f_path = []\<rparr>"


lemma demo_ready: "blk_ready ram_view demo_blk"
  using queue_regs_at [of demo_ring demo_regs]
  by (simp add: blk_ready_def queue_regs_ok_def demo_blk_def ram_view_def)

lemma ram_capacity: "capacity ram_view \<le> 2 ^ 32"
  by (simp add: ram_view_def)

lemma demo_entry: "entry_wf (capacity ram_view) (fat32_volume demo_fs) demo_file"
  by (simp add: entry_wf_def dir_sector_def demo_fs_def demo_file_def cluster_to_sector_def ram_view_def)


lemma demo_size: "dir_size (sectors ram_view (hw demo_blk)) (fat32_volume demo_fs) demo_file = 5"
  by (simp add: dir_size_def dir_sector_def demo_fs_def demo_file_def cluster_to_sector_def ram_view_def
      demo_blk_def demo_sector_def dir_entry_of_def u32_at_def bytes_at_def)

lemma demo_chain: "u32_at (sectors ram_view (hw demo_blk) 1) 12 = 0x0fffffff"
  by (simp add: ram_view_def demo_blk_def demo_sector_def u32_at_def bytes_at_def)

lemma demo_wf: "file_wf (sectors ram_view (hw demo_blk)) (capacity ram_view) (fat32_volume demo_fs) demo_file [3]"
  using demo_size demo_chain
  by (simp add: file_wf_def demo_entry)
     (simp add: demo_fs_def demo_file_def ram_view_def spc_def file_sectors_def cluster_sectors_def cluster_to_sector_def)

lemma demo_bytes: "take 5 (file_bytes (sectors ram_view (hw demo_blk)) (fat32_volume demo_fs) [3]) = [0x68, 0x65, 0x6c, 0x6c, 0x6f]"
  by (simp add: file_bytes_def file_sectors_def cluster_sectors_def cluster_to_sector_def spc_def demo_fs_def
      ram_view_def demo_blk_def demo_sector_def)

lemma demo_sectors: "file_sectors (fat32_volume demo_fs) [3] = [4]"
  by (simp add: file_sectors_def cluster_sectors_def cluster_to_sector_def spc_def demo_fs_def)

lemma demo_disk [simp]: "disk demo_fs = demo_blk" "cfo demo_file = 1"
  by (simp_all add: demo_fs_def demo_file_def)

section \<open>The driver\<close>

lemma virtio_sector_transfers_witness:
  "(\<exists>s'. virtio_blk_read_sector ram_device 4 VM_START demo_blk = Inr s'
      \<and> load (dma s') (virt_to_phys VM_START) 5 = [0x68, 0x65, 0x6c, 0x6c, 0x6f])
   \<and> (\<exists>s'. virtio_blk_write_sector ram_device 4 VM_START demo_blk = Inr s'
      \<and> sectors ram_view (hw s') 4 = load (\<lambda>_. 0) (virt_to_phys VM_START) 512)"
proof -
  note w = virtio_sector_transfers [OF ram_serves demo_ready, of 4 VM_START]
  obtain r where r: "virtio_blk_read_sector ram_device 4 VM_START demo_blk = Inr r"
    "load (dma r) (virt_to_phys VM_START) 512 = sectors ram_view (hw demo_blk) 4"
    using w by (auto simp: ram_view_def)
  have "take 5 (load (dma r) (virt_to_phys VM_START) 512) = load (dma r) (virt_to_phys VM_START) 5"
    by (simp add: load_def take_map)
  then have "load (dma r) (virt_to_phys VM_START) 5 = [0x68, 0x65, 0x6c, 0x6c, 0x6f]"
    unfolding r(2) by (simp add: ram_view_def demo_blk_def demo_sector_def)
  moreover obtain t where "virtio_blk_write_sector ram_device 4 VM_START demo_blk = Inr t"
    "sectors ram_view (hw t) = (sectors ram_view (hw demo_blk))(4 := load (dma demo_blk) (virt_to_phys VM_START) 512)"
    using w by (auto simp: ram_view_def)
  ultimately show ?thesis using r(1) by (auto simp: demo_blk_def)
qed

definition fresh_blk :: "ram blk" where
  "fresh_blk = demo_blk\<lparr>mmio := [0x10001000 \<mapsto> demo_regs]\<rparr>"

text \<open>Eight pages, page 0 in use: the queue gets pages 4 to 7.\<close>

definition eight_one_used :: buddy where
  "eight_one_used = \<lparr>bsize = 8, bitmap = [4, 2, 4, 1, 2, 2, 2, 0, 1, 1, 1, 1, 1, 1, 1, 0],
     ref_cnt = [1, 0, 0, 0, 0, 0, 0, 0]\<rparr>"

definition queue_allocated :: buddy where
  "queue_allocated = \<lparr>bsize = 8, bitmap = [2, 2, 0, 1, 2, 2, 2, 0, 1, 1, 1, 1, 1, 1, 1, 0],
     ref_cnt = [1, 0, 0, 0, 1, 0, 0, 0]\<rparr>"

lemma queue_pages: "alloc_pages 3 eight_one_used = Inr (VM_START + 0x4000, queue_allocated)"
  by code_simp

lemma virtio_queue_setup_witness:
  "\<exists>s1 s2 m s3. virtio_blk_driver_init fresh_blk = Inr s1 \<and> virtio_blk_feature_init s1 = Inr s2
    \<and> virtio_blk_queue_init (\<lparr>bud = eight_one_used, mem = \<lambda>_. 0\<rparr>, s2) = Inr (m, s3) \<and> blk_ready ram_view s3"
proof -
  have "virtio_blk_regs fresh_blk \<noteq> 0" "mmio fresh_blk (virtio_blk_regs fresh_blk) = Some demo_regs"
    "last_avail ram_view (hw fresh_blk) = 0" "VM_START + 0x4000 \<noteq> (0 :: u64)"
    by (simp_all add: fresh_blk_def demo_blk_def ram_view_def VM_START_def)
  then show ?thesis
    using virtio_queue_setup [of fresh_blk demo_regs "\<lparr>bud = eight_one_used, mem = \<lambda>_. 0\<rparr>"
        "VM_START + 0x4000" queue_allocated ram_view]
    by (simp add: queue_pages) blast
qed

section \<open>Files\<close>

lemma fat32_read_correct_witness:
  "\<exists>s'. fat32_read (virtio_io ram_device VM_START) 3 demo_file demo_fs
     = Inr (3, [0x65, 0x6c, 0x6c], demo_file\<lparr>cfo := 4\<rparr>, s')"
  using fat32_read_correct [OF ram_serves ram_capacity, of demo_fs demo_file "[3]" VM_START 3]
  by (auto simp: demo_ready demo_wf demo_size demo_bytes)

lemma fat32_write_correct_witness:
  "\<exists>s'. fat32_write (virtio_io ram_device VM_START) (\<lambda>off k. Inr (take (unat k) (drop (unat off) [0x61, 0x62])))
      2 demo_file demo_fs = Inr (2, demo_file\<lparr>cfo := 3\<rparr>, s')
     \<and> take 5 (file_bytes (sectors ram_view (hw (disk s'))) (fat32_volume demo_fs) [3]) = [0x68, 0x61, 0x62, 0x6c, 0x6f]"
proof -
  define D where "D = file_bytes (sectors ram_view (hw demo_blk)) (fat32_volume demo_fs) [3]"
  have D: "take 5 D = [0x68, 0x65, 0x6c, 0x6c, 0x6f]" unfolding D_def by (rule demo_bytes)
  then obtain R where "D = [0x68, 0x65, 0x6c, 0x6c, 0x6f] @ R" by (metis append_take_drop_id)
  then show ?thesis
    using fat32_write_correct [OF ram_serves ram_capacity, of demo_fs demo_file "[3]" "[0x61, 0x62]" VM_START]
    by (auto simp: demo_ready demo_wf demo_size demo_sectors D_def [symmetric])
qed

lemma fat32_write_read_back_witness:
  "\<exists>s' s''. fat32_write (virtio_io ram_device VM_START) (\<lambda>off k. Inr (take (unat k) (drop (unat off) [0x61, 0x62])))
      2 demo_file demo_fs = Inr (2, demo_file\<lparr>cfo := 3\<rparr>, s')
     \<and> fat32_read (virtio_io ram_device VM_START) 2 demo_file s' = Inr (2, [0x61, 0x62], demo_file\<lparr>cfo := 3\<rparr>, s'')"
proof -
  have "dir_sector (fat32_volume demo_fs) demo_file = 3" "first_fat_sec (fat32_volume demo_fs) = 1"
    by (simp_all add: dir_sector_def demo_fs_def demo_file_def cluster_to_sector_def)
  then show ?thesis
    using fat32_write_read_back [OF ram_serves ram_capacity, of demo_fs demo_file "[3]" "[0x61, 0x62]" VM_START]
    by (auto simp: demo_ready demo_wf demo_size demo_sectors)
qed

lemma fat32_lseek_clamps_witness:
  "\<exists>s'. fat32_lseek (virtio_io ram_device VM_START) demo_file (- 2) SEEK_END demo_fs
     = Inr (3, demo_file\<lparr>cfo := 3\<rparr>, s')"
proof -
  have "\<exists>c s'. fat32_lseek (virtio_io ram_device VM_START) demo_file (- 2) SEEK_END demo_fs = Inr (c, demo_file\<lparr>cfo := c\<rparr>, s')
      \<and> int (unat c) = 3"
    using fat32_lseek_clamps [OF ram_serves ram_capacity, where s = demo_fs and fl = demo_file and whence = SEEK_END and offset = "- 2"
        and buf = VM_START]
    by (simp add: demo_ready demo_entry demo_size SEEK_SET_def SEEK_CUR_def SEEK_END_def)
  then obtain c s' where c: "fat32_lseek (virtio_io ram_device VM_START) demo_file (- 2) SEEK_END demo_fs
      = Inr (c, demo_file\<lparr>cfo := c\<rparr>, s')" "int (unat c) = 3" by blast
  from c(2) have "c = 3" by (simp add: word_uint_eq_iff)
  with c(1) show ?thesis by blast
qed

lemma demo_entry_0:
  "\<not> entry_skipped (sectors ram_view (hw demo_blk) 3) (short_name (ascii ''/fat32/a'')) 0"
  "u8_at (sectors ram_view (hw demo_blk) 3) 0 = 0x41"
  "de_starthi (dir_entry_of (bytes_at (sectors ram_view (hw demo_blk) 3) 0 32)) = 0"
  "de_startlow (dir_entry_of (bytes_at (sectors ram_view (hw demo_blk) 3) 0 32)) = 3"
proof -
  have "to_upper_case (ascii ''/fat32/a'') = ascii ''/FAT32/A''"
    by (simp add: to_upper_case_def ascii_def chr_def)
  then have name: "short_name (ascii ''/fat32/a'') = [0x41, 0x20, 0x20, 0x20, 0x20, 0x20, 0x20, 0x20]"
    by (simp add: short_name_def ascii_def chr_def numeral_eq_Suc)
  show "\<not> entry_skipped (sectors ram_view (hw demo_blk) 3) (short_name (ascii ''/fat32/a'')) 0"
    "u8_at (sectors ram_view (hw demo_blk) 3) 0 = 0x41"
    "de_starthi (dir_entry_of (bytes_at (sectors ram_view (hw demo_blk) 3) 0 32)) = 0"
    "de_startlow (dir_entry_of (bytes_at (sectors ram_view (hw demo_blk) 3) 0 32)) = 3"
    by (simp_all add: entry_skipped_def entry_matches_def name ram_view_def demo_blk_def demo_sector_def
        dir_entry_of_def u8_at_def u16_at_def bytes_at_def FAT_DIRENT_DELETED_def)
qed

lemma fat32_open_finds_witness:
  "\<exists>s'. fat32_open_file (virtio_io ram_device VM_START) (ascii ''/fat32/a'') demo_fs
     = Inr (\<lparr>cluster = 3, dir = \<lparr>dir_cluster = 2, dir_index = 0\<rparr>\<rparr>, ascii ''/FAT32/A'', s')"
proof -
  have up: "to_upper_case (ascii ''/fat32/a'') = ascii ''/FAT32/A''"
    by (simp add: to_upper_case_def ascii_def chr_def)
  note entry = demo_entry_0
  have "first_data_sec (fat32_volume demo_fs) = 3" by (simp add: demo_fs_def)
  moreover have capacity: "3 < capacity ram_view" by (simp add: ram_view_def)
  ultimately show ?thesis
    using fat32_open_finds [OF ram_serves ram_capacity, of demo_fs 0 "ascii ''/fat32/a''" VM_START] entry capacity
    by (simp add: demo_ready up FAT_DIRENT_NEVER_USED_def Let_def)
qed

end
