(* ===== verification/Syscall_Witness.thy ===== *)
theory Syscall_Witness
  imports Openat_Correct Fat32_Witness Console_Witness
begin

text \<open>
  A machine that has just trapped with a system call: one task with the standard files and an open
  FAT32 file, the small volume of \<open>Fat32_Witness\<close>, and two paths in memory.
\<close>

definition demo_hart :: "u64 \<Rightarrow> u64 \<Rightarrow> u64 \<Rightarrow> u64 \<Rightarrow> hart" where
  "demo_hart call a0 a1 a2 =
     \<lparr>xregs = (replicate 32 0)[2 := 0x3f00, 10 := a0, 11 := a1, 12 := a2, 17 := call],
      h_sepc = 0x1000, h_sstatus = 0x20, h_sscratch = VM_START + 0x2000\<rparr>"

definition demo_regs_at :: u64 where "demo_regs_at = VM_START + 0x2000 - pt_regs_size"

definition demo_path :: "u8 list" where "demo_path = ascii ''/fat32/a''"
definition bad_path :: "u8 list" where "bad_path = ascii ''/x''"

definition demo_mem :: mem where
  "demo_mem = store (store (\<lambda>_. 0) (VM_START + 0x4000) (demo_path @ [0])) (VM_START + 0x5000) (bad_path @ [0])"

definition demo_fds :: "file_struct list" where
  "demo_fds = [stdin_file, stdout_file, stderr_file, demo_file\<lparr>f_read := Op_Fat32\<rparr>] @ replicate 12 zero_file"

definition demo_task :: task_struct where
  "demo_task = \<lparr>task_state = 0, counter = 1, priority = 1, pid = 1,
     thread = \<lparr>th_ra = 0, th_sp = 0, th_s = [], th_sepc = 0, th_sstatus = 0, th_sscratch = 0\<rparr>,
     files = VM_START + 0x6000, pgd = 0, mmap = 0\<rparr>"

definition demo_system :: "hart \<Rightarrow> (u8 list, ram blk) system" where
  "demo_system h =
     \<lparr>bud = \<lparr>bsize = 0, bitmap = [], ref_cnt = []\<rparr>, mem = snd (snd (trap_save h demo_mem)),
      task_at = [VM_START + 0x1000 \<mapsto> demo_task], vma_at = (\<lambda>_. None),
      files_at = [VM_START + 0x6000 \<mapsto> \<lparr>fd_array = demo_fds\<rparr>], idle = 0, current = VM_START + 0x1000,
      task = [0, VM_START + 0x1000], nr_tasks = 2, seed = 0,
      cpu = \<lparr>th_ra = 0, th_sp = 0, th_s = [], th_sepc = 0, th_sstatus = 0, th_sscratch = 0\<rparr>,
      satp = 0, stval = 0, scause = 8, world = [], fs = demo_fs\<rparr>"

definition demo_board :: "(u8 list, ram blk) board" where
  "demo_board = \<lparr>firmware = paper_platform, disk_io = virtio_io ram_device VM_START, char_slot = VM_START,
     ramdisk = 0, swapper_pg_dir = 0, ret_from_fork = 0, dummy_entry = 0\<rparr>"

abbreviation demo_xs :: "u64 \<Rightarrow> u64 \<Rightarrow> u64 \<Rightarrow> u64 \<Rightarrow> u64 list" where
  "demo_xs call a0 a1 a2 \<equiv>
     (replicate 32 0)[2 := 0x3f00, 10 := a0, 11 := a1, 12 := a2, 17 := call, 2 := demo_regs_at]"

lemma demo_save:
  obtains h m where "trap_save (demo_hart call a0 a1 a2) demo_mem = (demo_regs_at, h, m)"
proof -
  obtain sp h m where "trap_save (demo_hart call a0 a1 a2) demo_mem = (sp, h, m)" by (metis prod_cases3)
  moreover from trap_save_frame(3) [OF _ this] have "sp = demo_regs_at"
    by (simp add: hart_wf_def demo_hart_def demo_regs_at_def VM_START_def)
  ultimately show ?thesis using that by blast
qed

lemma demo_frame:
  "frame_holds (mem (demo_system (demo_hart call a0 a1 a2))) demo_regs_at (demo_xs call a0 a1 a2) 0x1000 0x20"
proof -
  obtain h m where s: "trap_save (demo_hart call a0 a1 a2) demo_mem = (demo_regs_at, h, m)" by (rule demo_save)
  have "hart_wf (demo_hart call a0 a1 a2)" by (simp add: hart_wf_def demo_hart_def)
  note frame = trap_save_frame(1) [OF this s]
  have "mem (demo_system (demo_hart call a0 a1 a2)) = m" by (simp add: demo_system_def s)
  with frame show ?thesis by (simp add: demo_hart_def)
qed

lemma demo_far:
  "\<not> x - demo_regs_at < pt_regs_size \<Longrightarrow> mem (demo_system (demo_hart call a0 a1 a2)) x = demo_mem x"
proof -
  obtain h m where s: "trap_save (demo_hart call a0 a1 a2) demo_mem = (demo_regs_at, h, m)" by (rule demo_save)
  show "\<not> x - demo_regs_at < pt_regs_size \<Longrightarrow> mem (demo_system (demo_hart call a0 a1 a2)) x = demo_mem x"
    using trap_save_far [OF s] by (simp add: demo_system_def s)
qed

lemma demo_running:
  "running_files (demo_system h) (VM_START + 0x6000) demo_fds"
  by (simp add: running_files_def demo_system_def demo_task_def VM_START_def)

lemma demo_system_disk [simp]: "fs (demo_system h) = demo_fs" "disk_io demo_board = virtio_io ram_device VM_START"
  "firmware demo_board = paper_platform" "world (demo_system h) = []"
  by (simp_all add: demo_system_def demo_board_def)

section \<open>Traps\<close>

lemma trap_frame_returns_witness:
  "trap_return demo_regs_at 0x3f00
      (mem (advance_sepc demo_regs_at (set_x demo_regs_at REG_IDX_A0 7 (demo_system (demo_hart 172 0 0 0)))))
    = (demo_hart 172 0 0 0)\<lparr>xregs := (xregs (demo_hart 172 0 0 0))[10 := 7], h_sepc := 0x1004\<rparr>"
proof -
  obtain h m where s: "trap_save (demo_hart 172 0 0 0) demo_mem = (demo_regs_at, h, m)" by (rule demo_save)
  have wf: "hart_wf (demo_hart 172 0 0 0)" by (simp add: hart_wf_def demo_hart_def)
  have "frame_holds (mem (advance_sepc demo_regs_at (set_x demo_regs_at REG_IDX_A0 7 (demo_system (demo_hart 172 0 0 0)))))
      demo_regs_at ((demo_xs 172 0 0 0)[10 := 7]) (0x1000 + 4) 0x20"
    by (intro frame_advance frame_set_result demo_frame) simp
  then show ?thesis
    using trap_frame_returns [OF wf s, of _ 7 "0x1004"] trap_save_frame(2) [OF wf s]
    by (simp add: demo_hart_def VM_START_def Let_def)
qed

section \<open>Reading\<close>

lemma demo_file_read: "file_wf C cap v (demo_file\<lparr>f_read := Op_Fat32\<rparr>) cs = file_wf C cap v demo_file cs"
  "dir_size C v (demo_file\<lparr>f_read := Op_Fat32\<rparr>) = dir_size C v demo_file"
  by (simp_all add: file_wf_def entry_wf_def dir_size_def dir_sector_def)

text \<open>A buffer in the kernel's memory that ends before the frame or starts behind it.\<close>

lemma demo_apart: "4096 \<le> i \<Longrightarrow> i < 2 ^ 30 \<Longrightarrow> \<not> (VM_START + 0x2000 + of_nat i) - demo_regs_at < pt_regs_size"
proof -
  assume i: "4096 \<le> i" "i < 2 ^ 30"
  have eq: "VM_START + 0x2000 + of_nat i - demo_regs_at = of_nat (272 + i)"
    by (simp add: demo_regs_at_def pt_regs_size_def)
  have "unat (of_nat (272 + i) :: u64) = 272 + i" using i by (intro unat_of_nat_small) simp
  then show ?thesis unfolding eq using i by (simp add: word_less_nat_alt pt_regs_size_def del: of_nat_add)
qed

lemma demo_xs_simps:
  "length (demo_xs call a0 a1 a2) = 32" "demo_xs call a0 a1 a2 ! 10 = a0" "demo_xs call a0 a1 a2 ! 11 = a1"
  "demo_xs call a0 a1 a2 ! 12 = a2" "demo_xs call a0 a1 a2 ! 17 = call"
  by simp_all

lemma demo_fds_simps: "length demo_fds = 16" "demo_fds ! 3 = demo_file\<lparr>f_read := Op_Fat32\<rparr>"
  "demo_fds ! 4 = zero_file"
  by (simp_all add: demo_fds_def)

lemma read_syscall_delivers_witness:
  "\<exists>k'. trap_handler demo_board SUPERVISOR_ECALL_FROM_USER 0x1000 demo_regs_at
        (demo_system (demo_hart SYS_READ 3 (VM_START + 0x3000) 3)) = Inr k'
    \<and> frame_holds (mem k') demo_regs_at ((demo_xs SYS_READ 3 (VM_START + 0x3000) 3)[10 := 3]) 0x1004 0x20
    \<and> mem k' (VM_START + 0x3001) = 0x6c"
proof -
  define k where "k = demo_system (demo_hart SYS_READ 3 (VM_START + 0x3000) 3)"
  define xs where "xs = demo_xs SYS_READ 3 (VM_START + 0x3000) 3"
  define fl where "fl = demo_file\<lparr>f_read := Op_Fat32\<rparr>"
  define phys where "phys = (\<lambda>i. VM_START + 0x3000 + of_nat i :: u64)"
  define out :: "u8 list" where "out = [0x65, 0x6c, 0x6c]"
  have xs: "length xs = 32" "xs ! 17 = SYS_READ" "xs ! 10 = 3" "xs ! 11 = VM_START + 0x3000" "xs ! 12 = 3"
    unfolding xs_def by (rule demo_xs_simps)+
  have frame: "frame_holds (mem k) demo_regs_at xs 0x1000 0x20" unfolding k_def xs_def by (rule demo_frame)
  have run: "running_files k (VM_START + 0x6000) demo_fds" unfolding k_def by (rule demo_running)
  have fd: "unat (xs ! 10) < length demo_fds" "demo_fds ! unat (xs ! 10) = fl"
    by (simp_all add: xs demo_fds_simps fl_def)
  have fl: "opened fl \<noteq> 0" "perms fl AND FILE_READABLE \<noteq> 0" "f_read fl = Op_Fat32" "unat (cfo fl) < 2 ^ 63"
    by (simp_all add: fl_def demo_file_def FILE_READABLE_def)
  have wf: "file_wf (sectors ram_view (hw (disk (fs k)))) (capacity ram_view) (fat32_volume (fs k)) fl [3]"
    by (simp add: k_def fl_def demo_file_read demo_wf)
  have out: "out = take (unat (xs ! 12)) (drop (unat (cfo fl)) (take (unat (dir_size (sectors ram_view (hw (disk (fs k))))
      (fat32_volume (fs k)) fl)) (file_bytes (sectors ram_view (hw (disk (fs k)))) (fat32_volume (fs k)) [3])))"
    by (simp add: k_def fl_def demo_file_read demo_size demo_bytes xs out_def)
  have len: "length out = 3" by (simp add: out_def)
  have far: "\<forall>i < length out. \<not> phys i - demo_regs_at < pt_regs_size"
    using demo_apart [of "4096 + _"] by (simp add: phys_def len add.assoc)
  have wr: "writable k (xs ! 11) (length out) phys"
    unfolding phys_def xs len by (rule writable_kernel) (simp_all add: VM_START_def)
  have ready: "blk_ready ram_view (disk (fs k))" by (simp add: k_def demo_ready)
  note r = read_syscall_delivers [OF ram_serves ram_capacity ready demo_system_disk(2) frame xs(1,2) run fd fl(1-3)
      wf fl(4) out wr far, of "0x1000"]
  from r obtain k' where "trap_handler demo_board SUPERVISOR_ECALL_FROM_USER 0x1000 demo_regs_at k = Inr k'"
    "frame_holds (mem k') demo_regs_at (xs[10 := of_nat (length out)]) (0x1000 + 4) 0x20"
    "\<forall>i < length out. mem k' (phys i) = out ! i" by blast
  moreover from this(3) have "mem k' (phys 1) = 0x6c" by (simp add: len out_def)
  ultimately show ?thesis by (intro exI [of _ k']) (simp add: k_def xs_def phys_def len add.commute)
qed

section \<open>Refused calls\<close>

lemma file_access_refused_witness:
  "trap_handler demo_board SUPERVISOR_ECALL_FROM_USER 0x1000 demo_regs_at (demo_system (demo_hart SYS_READ 5 0 1))
    = Inr (advance_sepc demo_regs_at (set_x demo_regs_at REG_IDX_A0 255 (demo_system (demo_hart SYS_READ 5 0 1))))"
proof -
  have "opened (demo_fds ! 5) = 0" by (simp add: demo_fds_def zero_file_def)
  then show ?thesis
    using file_access_refused [OF demo_frame [of SYS_READ 5 0 1] demo_running, of demo_board "0x1000"]
    unfolding Let_def demo_xs_simps by (simp add: demo_fds_simps ERROR_FILE_NOT_OPEN_def)
qed

section \<open>Opening\<close>

lemma readable_kernel:
  assumes "VM_START \<le> a" "unat a + length cs \<le> 2 ^ 64" "load (mem k) a (length cs) = cs"
  shows "readable k a cs"
proof -
  have "VM_START \<le> a + of_nat i" if "i < length cs" for i
    using writable_kernel [OF assms(1,2), of "k"] that assms(1,2)
    by (simp add: word_le_nat_alt unat_word_ariths unat_of_nat_small)
  moreover have "mem k (a + of_nat i) = cs ! i" if "i < length cs" for i
    using that arg_cong [OF assms(3), of "\<lambda>l. l ! i"] by simp
  moreover have "length cs < 2 ^ 64" using assms(1,2) by (auto simp: VM_START_def word_le_nat_alt)
  ultimately show ?thesis by (simp add: readable_def vload8_def)
qed

lemma demo_len: "length (demo_path @ [0]) = 9" "length (bad_path @ [0]) = 3"
  by (simp_all add: demo_path_def bad_path_def ascii_def)

lemma demo_load:
  "load (mem (demo_system (demo_hart c a0 a1 a2))) (VM_START + 0x4000) 9 = demo_path @ [0]"
  "load (mem (demo_system (demo_hart c a0 a1 a2))) (VM_START + 0x5000) 3 = bad_path @ [0]"
proof -
  note len = demo_len
  have far: "load (mem (demo_system (demo_hart c a0 a1 a2))) (VM_START + 0x2000 + of_nat b) n
      = load demo_mem (VM_START + 0x2000 + of_nat b) n" if "4096 \<le> b" "b + n < 2 ^ 30" for b n
  proof (rule load_cong)
    fix j assume "j < n"
    then show "mem (demo_system (demo_hart c a0 a1 a2)) (VM_START + 0x2000 + of_nat b + of_nat j)
        = demo_mem (VM_START + 0x2000 + of_nat b + of_nat j)"
      using demo_far [OF demo_apart [of "b + j"]] that by (simp add: add.assoc)
  qed
  have "load demo_mem (VM_START + 0x4000) 9 = demo_path @ [0]"
    unfolding demo_mem_def by (subst load_store_apart, unfold len) (simp_all add: VM_START_def load_store_same [OF len(1)])
  moreover have "load demo_mem (VM_START + 0x5000) 3 = bad_path @ [0]"
    unfolding demo_mem_def by (rule load_store_same [OF len(2)]) simp
  ultimately show "load (mem (demo_system (demo_hart c a0 a1 a2))) (VM_START + 0x4000) 9 = demo_path @ [0]"
    "load (mem (demo_system (demo_hart c a0 a1 a2))) (VM_START + 0x5000) 3 = bad_path @ [0]"
    using far [of "0x2000" 9] far [of "0x3000" 3] by (simp_all add: add.commute)
qed

lemma demo_openat:
  assumes "(a1 = VM_START + 0x4000 \<and> cs = demo_path) \<or> (a1 = VM_START + 0x5000 \<and> cs = bad_path)"
  shows "openat_call demo_regs_at (demo_xs SYS_OPENAT a0 a1 a2) 0x1000 0x20 (VM_START + 0x6000) demo_fds cs 4
    (demo_system (demo_hart SYS_OPENAT a0 a1 a2))"
proof -
  have "readable (demo_system (demo_hart SYS_OPENAT a0 a1 a2)) (VM_START + 0x4000) (demo_path @ [0])"
    by (rule readable_kernel) (simp_all only: demo_len demo_load, simp_all add: VM_START_def)
  moreover have "readable (demo_system (demo_hart SYS_OPENAT a0 a1 a2)) (VM_START + 0x5000) (bad_path @ [0])"
    by (rule readable_kernel) (simp_all only: demo_len demo_load, simp_all add: VM_START_def)
  ultimately have "readable (demo_system (demo_hart SYS_OPENAT a0 a1 a2)) a1 (cs @ [0])" using assms by auto
  moreover have "\<forall>j. 3 \<le> j \<and> j < 4 \<longrightarrow> opened (demo_fds ! j) \<noteq> 0"
  proof (intro allI impI)
    fix j :: nat assume "3 \<le> j \<and> j < 4"
    then have "j = 3" by simp
    then show "opened (demo_fds ! j) \<noteq> 0" by (simp add: demo_fds_simps demo_file_def)
  qed
  moreover have "0 \<notin> set cs" "length cs < 80" using assms by (auto simp: demo_path_def bad_path_def ascii_def)
  ultimately show ?thesis
    unfolding openat_call_def demo_xs_simps
    by (simp add: demo_frame demo_running demo_fds_simps MAX_FILE_NUMBER_def MAX_PATH_LENGTH_def zero_file_def path_field_def)
qed

lemma openat_opens_witness:
  "\<exists>k'. trap_handler demo_board SUPERVISOR_ECALL_FROM_USER 0x1000 demo_regs_at
        (demo_system (demo_hart SYS_OPENAT 0 (VM_START + 0x4000) 1)) = Inr k'
    \<and> frame_holds (mem k') demo_regs_at ((demo_xs SYS_OPENAT 0 (VM_START + 0x4000) 1)[10 := 0]) 0x1004 0x20
    \<and> mem k' (VM_START + 0x4001) = 0x46"
proof -
  define k where "k = demo_system (demo_hart SYS_OPENAT 0 (VM_START + 0x4000) 1)"
  define xs where "xs = demo_xs SYS_OPENAT 0 (VM_START + 0x4000) 1"
  define phys where "phys = (\<lambda>i. VM_START + 0x4000 + of_nat i :: u64)"
  define root where "root = sectors ram_view (hw (disk (fs k))) (first_data_sec (fat32_volume (fs k)))"
  have call: "openat_call demo_regs_at xs 0x1000 0x20 (VM_START + 0x6000) demo_fds demo_path 4 k"
    unfolding k_def xs_def by (rule demo_openat) simp
  have len: "length demo_path = 8" by (simp add: demo_path_def ascii_def)
  have root: "root = sectors ram_view (hw demo_blk) 3" by (simp add: root_def k_def) (simp add: demo_fs_def)
  note entry = demo_entry_0 [folded demo_path_def root]
  have wr: "writable k (xs ! 11) (length demo_path) phys"
    unfolding phys_def xs_def demo_xs_simps len by (rule writable_kernel) (simp_all add: VM_START_def)
  have far: "\<forall>l < length demo_path. \<not> phys l - demo_regs_at < pt_regs_size"
    using demo_apart [of "0x2000 + _"] by (simp add: phys_def len add.assoc)
  have ready: "blk_ready ram_view (disk (fs k))" by (simp add: k_def demo_ready)
  have cap: "first_data_sec (fat32_volume (fs k)) < capacity ram_view"
    by (simp add: k_def ram_view_def) (simp add: demo_fs_def)
  have prefix: "take 7 demo_path = ascii ''/fat32/''" by (simp add: demo_path_def ascii_def)
  define e where "e = dir_entry_of (bytes_at root (32 * 0) 32)"
  define c :: u32 where "c = push_bit 16 (ucast (de_starthi e)) OR ucast (de_startlow e)"
  have c0: "c \<noteq> 0" using entry by (simp add: c_def e_def)
  have used: "u8_at root (32 * 0) \<noteq> FAT_DIRENT_NEVER_USED" using entry by (simp add: FAT_DIRENT_NEVER_USED_def)
  note r = openat_opens [OF call prefix wr far ram_serves ram_capacity ready cap demo_system_disk(2) _ _ _ _ _ _ c0,
      of 0 e, folded root_def, OF _ _ entry(1) used e_def c_def]
  obtain k' where "trap_handler demo_board SUPERVISOR_ECALL_FROM_USER 0x1000 demo_regs_at k = Inr k'"
    "frame_holds (mem k') demo_regs_at (xs[10 := 0]) (0x1000 + 4) 0x20"
    "(\<forall>l < length demo_path. mem k (phys l) = demo_path ! l)
       \<longrightarrow> (\<forall>l < length demo_path. mem k' (phys l) = to_upper_case demo_path ! l)"
    using r [of "0x1000"] by auto
  moreover have "\<forall>l < length demo_path. mem k (phys l) = demo_path ! l"
  proof (intro allI impI)
    fix l assume l: "l < length demo_path"
    have "load (mem k) (VM_START + 0x4000) 9 ! l = (demo_path @ [0]) ! l" by (simp add: k_def demo_load)
    then show "mem k (phys l) = demo_path ! l" using l by (simp add: len phys_def nth_append)
  qed
  ultimately have "mem k' (phys 1) = to_upper_case demo_path ! 1" by (simp add: len)
  then have "mem k' (phys 1) = 0x46" by (simp add: demo_path_def ascii_def to_upper_case_def)
  then show ?thesis
    using \<open>trap_handler demo_board SUPERVISOR_ECALL_FROM_USER 0x1000 demo_regs_at k = Inr k'\<close>
      \<open>frame_holds (mem k') demo_regs_at (xs[10 := 0]) (0x1000 + 4) 0x20\<close>
    by (intro exI [of _ k']) (simp add: k_def xs_def phys_def add.commute)
qed

lemma openat_failure_leaks_witness:
  "\<exists>k'. trap_handler demo_board SUPERVISOR_ECALL_FROM_USER 0x1000 demo_regs_at
        (demo_system (demo_hart SYS_OPENAT 0 (VM_START + 0x5000) 1)) = Inr k'
    \<and> frame_holds (mem k') demo_regs_at ((demo_xs SYS_OPENAT 0 (VM_START + 0x5000) 1)[10 := - 1]) 0x1004 0x20
    \<and> world k' = RED @ ascii ''Unknown fs type: /x'' @ 0x0A # CLEAR"
proof -
  have call: "openat_call demo_regs_at (demo_xs SYS_OPENAT 0 (VM_START + 0x5000) 1) 0x1000 0x20 (VM_START + 0x6000)
      demo_fds bad_path 4 (demo_system (demo_hart SYS_OPENAT 0 (VM_START + 0x5000) 1))"
    by (rule demo_openat) simp
  have path: "take 7 bad_path \<noteq> ascii ''/fat32/''" "take 6 bad_path \<noteq> ascii ''/ext2/''"
    by (simp_all add: bad_path_def ascii_def)
  have ptr: "demo_xs SYS_OPENAT 0 (VM_START + 0x5000) 1 ! 11 \<noteq> 0" unfolding demo_xs_simps by (simp add: VM_START_def)
  have out: "console_out (firmware demo_board) (\<lambda>w. w)" by (simp add: paper_console)
  have unused: "f_read (demo_fds ! 4) = Op_Null" by (simp add: demo_fds_simps zero_file_def)
  show ?thesis
    using openat_failure_leaks [OF call path ptr out unused, of "0x1000"]
    by (auto simp: bad_path_def ascii_def)
qed

end
