(* ===== verification/Process_Witness.thy ===== *)
theory Process_Witness
  imports Process_Correct Vm_Witness Syscall_Witness
begin

text \<open>
  The properties of process creation at work: an image with one loadable segment, and a full task
  table.
\<close>

text \<open>An ELF header whose two program headers follow it: a loadable segment and a note.\<close>

definition tiny_image :: "u8 list" where
  "tiny_image =
     replicate 24 0 @ le_bytes 8 (0x10078 :: u64) @ le_bytes 8 (64 :: u64) @ replicate 16 0 @ le_bytes 2 (2 :: u16) @ replicate 6 0
     @ le_bytes 4 (1 :: u32) @ le_bytes 4 (6 :: u32) @ le_bytes 8 (0x78 :: u64) @ le_bytes 8 (0x10078 :: u64) @ replicate 8 0
       @ le_bytes 8 (0x200 :: u64) @ le_bytes 8 (0x400 :: u64) @ replicate 8 0
     @ le_bytes 4 (4 :: u32) @ replicate 52 0"

definition image_space :: machine where
  "image_space = start_space\<lparr>mem := store (\<lambda>_. 0) 0x1000000 tiny_image\<rparr>"

definition new_task :: kernel where
  "new_task = (one_task image_space 0 0)\<lparr>task_at := [0x1000 \<mapsto> blank_task 0 0]\<rparr>"

lemma new_task_simps: "machine_of new_task = image_space" "mem new_task = store (\<lambda>_. 0) 0x1000000 tiny_image"
  "task_at new_task 0x1000 = Some (blank_task 0 0)" "mmap (blank_task 0 0) = 0"
  by (simp_all add: new_task_def one_task_simps machine_of_def one_task_def with_machine_def image_space_def
      blank_task_def)

lemma tiny_headers:
  "program_headers (store (\<lambda>_. 0) 0x1000000 tiny_image) 0x1000000
    = [\<lparr>p_type = 1, p_flags = 6, p_offset = 0x78, p_vaddr = 0x10078, p_paddr = 0, p_filesz = 0x200,
        p_memsz = 0x400, p_align = 0\<rparr>,
       \<lparr>p_type = 4, p_flags = 0, p_offset = 0, p_vaddr = 0, p_paddr = 0, p_filesz = 0, p_memsz = 0, p_align = 0\<rparr>]"
  by code_simp

theorem load_elf_areas_witness:
  "\<exists>k' p. load_elf 0x1000000 0x1000 new_task = Inr k'
     \<and> areas k' [p] = [Some (0x10078, 0x10478, 0x78, 0x200, VM_READ OR VM_WRITE)]"
proof -
  have h: "has_areas 3 0x1000 [] new_task"
    using start_ok by (simp add: has_areas_def new_task_simps image_space_def address_space_def alloc_ok_def)
  have left: "free_pages_left 3 (machine_of new_task) = 6"
    using start_left by (simp add: new_task_simps image_space_def free_pages_left_def used_pages_def)
  have segs: "map (Some \<circ> loaded_area) (rev (load_segments (program_headers (mem new_task) 0x1000000)))
      = [Some (0x10078, 0x10478, 0x78, 0x200, VM_READ OR VM_WRITE)]"
    unfolding new_task_simps tiny_headers by code_simp
  have one: "length (load_segments (program_headers (mem new_task) 0x1000000)) = 1"
    using arg_cong [OF segs, of length] by simp
  obtain k' new where k': "load_elf 0x1000000 0x1000 new_task = Inr k'"
    "areas k' (new @ []) = map (Some \<circ> loaded_area) (rev (load_segments (program_headers (mem new_task) 0x1000000)))
       @ areas new_task []"
    using load_elf_areas [OF h new_task_simps(3), of "0x1000000"] one left by auto
  then have "areas k' new = [Some (0x10078, 0x10478, 0x78, 0x200, VM_READ OR VM_WRITE)]"
    unfolding segs by (simp add: areas_def)
  then show ?thesis using k'(1) by (auto simp: areas_def)
qed

end
