(* ===== verification/User.thy ===== *)
theory User
  imports Format
begin

text \<open>
  The user program of \<^verbatim>\<open>user/\<close>: its system-call wrappers, its \<^verbatim>\<open>printf\<close>, and the shell of
  \<^verbatim>\<open>main.c\<close>. The program sees the kernel through \<^verbatim>\<open>ecall\<close> only, which is a parameter here. A
  pointer into a character array is the rest of the array from there; reading past its end is a
  fault.
\<close>

section \<open>The kernel behind an ecall\<close>

text \<open>
  The second argument of a call is a number, or the address of an object whose bytes the call may
  read and change; the result is the value left in \<^verbatim>\<open>a0\<close>, the bytes of the object after the call
  and the world after it.
\<close>

datatype argument = Number u64 | Object "u8 list"

type_synonym 'w ecalls = "u64 \<Rightarrow> u64 \<Rightarrow> argument \<Rightarrow> u64 \<Rightarrow> 'w \<Rightarrow> u64 \<times> u8 list \<times> 'w"

definition U_OPENAT :: u64 where "U_OPENAT = 56"
definition U_CLOSE :: u64 where "U_CLOSE = 57"
definition U_LSEEK :: u64 where "U_LSEEK = 62"
definition U_READ :: u64 where "U_READ = 63"
definition U_WRITE :: u64 where "U_WRITE = 64"

definition AT_FDCWD :: u32 where "AT_FDCWD = - 100"
definition O_RDONLY :: u32 where "O_RDONLY = 0x0001"
definition O_RDWR :: u32 where "O_RDWR = 0x0003"
definition U_SEEK_SET :: u32 where "U_SEEK_SET = 0x0000"

text \<open>The globals of the program, and the world the kernel acts on.\<close>

record 'w user =
  string_buf :: "u8 list"
  out_buffer :: "u8 list"
  out_tail :: u32
  outside :: 'w

section \<open>Character arrays\<close>

definition peek :: "u8 list \<Rightarrow> u8 res" where
  "peek p = (case p of [] \<Rightarrow> Inl Out_Of_Bounds | c # _ \<Rightarrow> Inr c)"

text \<open>The string at a pointer, without its terminator.\<close>

fun cstring :: "u8 list \<Rightarrow> u8 list res" where
  "cstring [] = Inl Out_Of_Bounds"
| "cstring (c # p) = (if c = 0 then Inr [] else bindr (cstring p) (\<lambda>cs. Inr (c # cs)))"

definition u_strlen :: "u8 list \<Rightarrow> u32 res" where
  "u_strlen p = bindr (cstring p) (\<lambda>cs. Inr (of_nat (length cs)))"

section \<open>System calls\<close>

text \<open>\<^verbatim>\<open>write\<close> hands the kernel a copy of the bytes with a zero behind them.\<close>

definition u_write :: "'w ecalls \<Rightarrow> u32 \<Rightarrow> u8 list \<Rightarrow> u64 \<Rightarrow> 'w user \<Rightarrow> (u32 \<times> 'w user) res" where
  "u_write ec fd buf count u =
     (if length buf < unat count then Inl Out_Of_Bounds
      else let temp_buf = take (unat count) buf @ [0]
           in case ec U_WRITE (scast fd) (Object temp_buf) count (outside u) of (ret, _, w) \<Rightarrow>
                Inr (ucast ret, u\<lparr>outside := w\<rparr>))"

definition u_read :: "'w ecalls \<Rightarrow> u32 \<Rightarrow> u8 list \<Rightarrow> u64 \<Rightarrow> 'w user \<Rightarrow> (u32 \<times> u8 list \<times> 'w user)" where
  "u_read ec fd buf count u =
     (case ec U_READ (scast fd) (Object buf) count (outside u) of (ret, buf, w) \<Rightarrow>
        (ucast ret, buf, u\<lparr>outside := w\<rparr>))"

definition openat :: "'w ecalls \<Rightarrow> u32 \<Rightarrow> u8 list \<Rightarrow> u32 \<Rightarrow> 'w user \<Rightarrow> (u32 \<times> u8 list \<times> 'w user)" where
  "openat ec dfd filename flags u =
     (case ec U_OPENAT (scast dfd) (Object filename) (scast flags) (outside u) of (ret, filename, w) \<Rightarrow>
        (ucast ret, filename, u\<lparr>outside := w\<rparr>))"

definition open_path :: "'w ecalls \<Rightarrow> u8 list \<Rightarrow> u32 \<Rightarrow> 'w user \<Rightarrow> (u32 \<times> u8 list \<times> 'w user)" where
  "open_path ec filename flags u = openat ec AT_FDCWD filename flags u"

text \<open>\<^verbatim>\<open>close\<close> sets no further argument register: what is left in them is a parameter.\<close>

definition u_close :: "'w ecalls \<Rightarrow> u64 \<Rightarrow> u32 \<Rightarrow> 'w user \<Rightarrow> (u32 \<times> 'w user)" where
  "u_close ec junk fd u =
     (case ec U_CLOSE (scast fd) (Number junk) junk (outside u) of (ret, _, w) \<Rightarrow> (ucast ret, u\<lparr>outside := w\<rparr>))"

definition u_lseek :: "'w ecalls \<Rightarrow> u32 \<Rightarrow> u32 \<Rightarrow> u32 \<Rightarrow> 'w user \<Rightarrow> (u32 \<times> 'w user)" where
  "u_lseek ec fd offset whence u =
     (case ec U_LSEEK (scast fd) (Number (scast offset)) (scast whence) (outside u) of (ret, _, w) \<Rightarrow>
        (ucast ret, u\<lparr>outside := w\<rparr>))"

section \<open>printf\<close>

definition buf_putc :: "u8 \<Rightarrow> 'w user \<Rightarrow> 'w user res" where
  "buf_putc c u =
     bindr (aset (out_buffer u) (out_tail u) c) (\<lambda>b. Inr (u\<lparr>out_buffer := b, out_tail := out_tail u + 1\<rparr>))"

fun buf_puts :: "u8 list \<Rightarrow> 'w user \<Rightarrow> 'w user res" where
  "buf_puts [] u = Inr u"
| "buf_puts (c # cs) u = bindr (buf_putc c u) (buf_puts cs)"

text \<open>
  The user program prints strings it points to; argument \<open>n\<close>, counted from 1, stands for the
  address of the \<open>n\<close>-th of them.
\<close>

definition string_pointers :: "u8 list list \<Rightarrow> 'm pointers" where
  "string_pointers objs =
     \<lparr>string_at = (\<lambda>a _. if 0 < unat a \<and> unat a \<le> length objs then cstring (objs ! (unat a - 1)) else Inl Bad_Pointer),
      store_at = (\<lambda>_ _ _. Inl Bad_Pointer)\<rparr>"

definition user_vprintfmt :: "u8 list list \<Rightarrow> u8 list \<Rightarrow> u64 list \<Rightarrow> (u8 list \<times> u32) res" where
  "user_vprintfmt objs fmt vl =
     bindr (vprintfmt (string_pointers objs) fmt vl ()) (\<lambda>(out, n, _). Inr (out, n))"

definition printf :: "'w ecalls \<Rightarrow> u8 list list \<Rightarrow> u8 list \<Rightarrow> u64 list \<Rightarrow> 'w user \<Rightarrow> (u32 \<times> 'w user) res" where
  "printf ec objs s vl u =
     bindr (user_vprintfmt objs s vl) (\<lambda>(out, res).
     bindr (buf_puts out u) (\<lambda>u.
     bindr (buf_putc 0 u) (\<lambda>u.
     case ec U_WRITE 1 (Object (out_buffer u)) (scast (out_tail u)) (outside u) of (_, b, w) \<Rightarrow>
       Inr (res, u\<lparr>out_buffer := b, out_tail := 0, outside := w\<rparr>))))"

section \<open>The shell's parsing\<close>

text \<open>\<^verbatim>\<open>char\<close> is unsigned on this target; the sum of an \<^verbatim>\<open>int\<close> and two characters wraps.\<close>

definition atoi :: "u8 list \<Rightarrow> u32 res" where
  "atoi str = bindr (cstring str) (\<lambda>cs. Inr (foldl (\<lambda>ret c. ret * 10 + ucast c - 0x30) 0 cs))"

fun skip_spaces :: "u8 list \<Rightarrow> u8 list res" where
  "skip_spaces [] = Inl Out_Of_Bounds"
| "skip_spaces (c # p) = (if c = 0x20 then skip_spaces p else Inr (c # p))"

fun word_chars :: "u8 list \<Rightarrow> u8 list res" where
  "word_chars [] = Inl Out_Of_Bounds"
| "word_chars (c # p) = (if c = 0 \<or> c = 0x20 then Inr [] else bindr (word_chars p) (\<lambda>cs. Inr (c # cs)))"

fun quoted_chars :: "u8 list \<Rightarrow> u8 list res" where
  "quoted_chars [] = Inl Out_Of_Bounds"
| "quoted_chars (c # p) = (if c = 0x22 then Inr [] else bindr (quoted_chars p) (\<lambda>cs. Inr (c # cs)))"

text \<open>The characters and a terminator stored at the start of \<^verbatim>\<open>string_buf\<close>.\<close>

definition fill_string_buf :: "u8 list \<Rightarrow> 'w user \<Rightarrow> 'w user res" where
  "fill_string_buf cs u =
     (if length (string_buf u) \<le> length cs then Inl Out_Of_Bounds
      else Inr (u\<lparr>string_buf := cs @ 0 # drop (length cs + 1) (string_buf u)\<rparr>))"

definition get_param :: "u8 list \<Rightarrow> 'w user \<Rightarrow> (u8 list \<times> 'w user) res" where
  "get_param cmd u =
     bindr (skip_spaces cmd) (\<lambda>cmd.
     bindr (word_chars cmd) (\<lambda>cs.
     bindr (fill_string_buf cs u) (\<lambda>u. Inr (string_buf u, u))))"

definition get_string :: "u8 list \<Rightarrow> 'w user \<Rightarrow> (u8 list \<times> 'w user) res" where
  "get_string cmd u =
     bindr (skip_spaces cmd) (\<lambda>cmd.
     bindr (peek cmd) (\<lambda>c.
     if c = 0x22
     then bindr (quoted_chars (tl cmd)) (\<lambda>cs.
          bindr (fill_string_buf cs u) (\<lambda>u. Inr (string_buf u, u)))
     else get_param cmd u))"

section \<open>Commands\<close>

text \<open>
  Besides the calls, three values are not determined by the program: the first \<^verbatim>\<open>last_char\<close> of \<open>cat\<close>,
  which is never set, the bytes in its fresh buffer, and the argument registers that \<^verbatim>\<open>close\<close>
  leaves alone.
\<close>

record 'w host =
  calls :: "'w ecalls"
  stale_char :: u8
  stale_arg :: u64
  stale_byte :: "nat \<Rightarrow> u8"

definition CAT_BUF_SIZE :: u64 where "CAT_BUF_SIZE = 509"
definition YELLOW :: "u8 list" where "YELLOW = 0x1B # ascii ''[33m''"
definition PLAIN :: "u8 list" where "PLAIN = 0x1B # ascii ''[0m''"
definition prompt :: "u8 list" where "prompt = YELLOW @ ascii ''SHELL > '' @ PLAIN"

fun begins :: "u8 list \<Rightarrow> u8 list \<Rightarrow> bool res" where
  "begins p [] = Inr True"
| "begins p (c # cs) = bindr (peek p) (\<lambda>x. if x \<noteq> c then Inr False else begins (tl p) cs)"

text \<open>\<^verbatim>\<open>cat\<close> prints the bytes of a piece one by one, a zero byte as an x.\<close>

fun cat_chars :: "'w ecalls \<Rightarrow> u8 list \<Rightarrow> u8 \<Rightarrow> 'w user \<Rightarrow> (u8 \<times> 'w user) res" where
  "cat_chars ec [] last_char u = Inr (last_char, u)"
| "cat_chars ec (c # cs) last_char u =
     bindr (if c = 0 then u_write ec 1 (ascii ''x'') 1 u else u_write ec 1 (c # cs) 1 u) (\<lambda>(_, u).
     cat_chars ec cs c u)"

text \<open>The loop over the pieces of the file; \<open>None\<close> is a loop that never ends.\<close>

partial_function (option) cat_loop ::
  "'w ecalls \<Rightarrow> u32 \<Rightarrow> u8 \<Rightarrow> u8 list \<Rightarrow> 'w user \<Rightarrow> 'w user res option" where
  "cat_loop ec fd last_char cat_buf u =
     (case u_read ec fd cat_buf CAT_BUF_SIZE u of (num_chars, cat_buf, u) \<Rightarrow>
        if num_chars = 0
        then Some (if last_char \<noteq> 0x0A then bindr (printf ec [] (ascii ''$'' @ [0x0A]) [] u) (\<lambda>(_, u). Inr u)
                   else Inr u)
        else if length cat_buf < nat (sint num_chars) then Some (Inl Out_Of_Bounds)
        else case cat_chars ec (take (nat (sint num_chars)) cat_buf) last_char u of
               Inl e \<Rightarrow> Some (Inl e)
             | Inr (last_char, u) \<Rightarrow> cat_loop ec fd last_char cat_buf u)"

definition cat_cmd :: "'w host \<Rightarrow> u8 list \<Rightarrow> 'w user \<Rightarrow> 'w user res" where
  "cat_cmd h cmd u =
     bindr (get_param (drop 3 cmd) u) (\<lambda>(filename, u).
     case open_path (calls h) filename O_RDONLY u of (fd, filename, u) \<Rightarrow>
       let u = u\<lparr>string_buf := filename\<rparr>
       in if fd = - 1
          then bindr (printf (calls h) [filename] (ascii ''can't open file: %s'' @ [0x0A]) [1] u) (\<lambda>(_, u). Inr u)
          else case cat_loop (calls h) fd (stale_char h) (map (stale_byte h) [0 ..< unat CAT_BUF_SIZE]) u of
                 None \<Rightarrow> Inl No_Return
               | Some r \<Rightarrow> bindr r (\<lambda>u. Inr (snd (u_close (calls h) (stale_arg h) fd u))))"

text \<open>A copy of the string with its terminator, in an array of just that length.\<close>

definition local_copy :: "u8 list \<Rightarrow> u8 list res" where
  "local_copy temp = bindr (cstring temp) (\<lambda>cs. Inr (cs @ [0]))"

definition edit_cmd :: "'w host \<Rightarrow> u8 list \<Rightarrow> 'w user \<Rightarrow> 'w user res" where
  "edit_cmd h cmd u =
     bindr (skip_spaces (drop 4 cmd)) (\<lambda>cmd.
     bindr (get_param cmd u) (\<lambda>(temp, u).
     bindr (local_copy temp) (\<lambda>filename.
     bindr (skip_spaces (drop (length filename - 1) cmd)) (\<lambda>cmd.
     bindr (get_param cmd u) (\<lambda>(temp, u).
     bindr (local_copy temp) (\<lambda>offset.
     bindr (skip_spaces (drop (length offset - 1) cmd)) (\<lambda>cmd.
     bindr (get_string cmd u) (\<lambda>(temp, u).
     bindr (local_copy temp) (\<lambda>content.
     let len = of_nat (length content - 1) :: u32
     in bindr (atoi offset) (\<lambda>offset_int.
        case open_path (calls h) filename O_RDWR u of (fd, filename, u) \<Rightarrow>
          let u = snd (u_lseek (calls h) fd offset_int U_SEEK_SET u)
          in bindr (u_write (calls h) fd content (scast len) u) (\<lambda>(_, u).
             Inr (snd (u_close (calls h) (stale_arg h) fd u)))))))))))))"

definition echo_cmd :: "'w host \<Rightarrow> u8 list \<Rightarrow> 'w user \<Rightarrow> 'w user res" where
  "echo_cmd h cmd u =
     bindr (get_string (drop 4 cmd) u) (\<lambda>(echo_content, u).
     bindr (u_strlen echo_content) (\<lambda>len.
     bindr (u_write (calls h) 1 echo_content (scast len) u) (\<lambda>(_, u).
     bindr (u_write (calls h) 1 [0x0A] 1 u) (\<lambda>(_, u). Inr u))))"

definition parse_cmd :: "'w host \<Rightarrow> u8 list \<Rightarrow> 'w user \<Rightarrow> 'w user res" where
  "parse_cmd h cmd u =
     bindr (begins cmd (ascii ''echo'')) (\<lambda>is_echo.
     if is_echo then echo_cmd h cmd u
     else bindr (begins cmd (ascii ''cat'')) (\<lambda>is_cat.
          if is_cat then cat_cmd h cmd u
          else bindr (begins cmd (ascii ''edit'')) (\<lambda>is_edit.
               if is_edit then edit_cmd h cmd u
               else bindr (printf (calls h) [cmd] (ascii ''command not found: %s'' @ [0x0A]) [1] u)
                      (\<lambda>(_, u). Inr u))))"

section \<open>The shell\<close>

record 'w shell = "'w user" +
  read_buf :: "u8 list"
  line_buf :: "u8 list"
  char_in_line :: u32

text \<open>A call of a user function from \<^verbatim>\<open>main\<close>.\<close>

definition on_user :: "('w user \<Rightarrow> 'w user res) \<Rightarrow> 'w shell \<Rightarrow> 'w shell res" where
  "on_user f s =
     bindr (f \<lparr>string_buf = string_buf s, out_buffer = out_buffer s, out_tail = out_tail s, outside = outside s\<rparr>)
       (\<lambda>u. Inr (s\<lparr>string_buf := string_buf u, out_buffer := out_buffer u, out_tail := out_tail u, outside := outside u\<rparr>))"

definition put :: "'w host \<Rightarrow> u32 \<Rightarrow> u8 list \<Rightarrow> u64 \<Rightarrow> 'w shell \<Rightarrow> 'w shell res" where
  "put h fd bs n = on_user (\<lambda>u. bindr (u_write (calls h) fd bs n u) (\<lambda>(_, u). Inr u))"

definition show_prompt :: "'w host \<Rightarrow> 'w shell \<Rightarrow> 'w shell res" where
  "show_prompt h = on_user (\<lambda>u. bindr (printf (calls h) [] prompt [] u) (\<lambda>(_, u). Inr u))"

definition get_key :: "'w host \<Rightarrow> 'w shell \<Rightarrow> 'w shell" where
  "get_key h s =
     (case calls h U_READ 0 (Object (read_buf s)) 1 (outside s) of (_, b, w) \<Rightarrow> s\<lparr>read_buf := b, outside := w\<rparr>)"

text \<open>One round of the loop of \<^verbatim>\<open>main\<close>.\<close>

definition shell_step :: "'w host \<Rightarrow> 'w shell \<Rightarrow> 'w shell res" where
  "shell_step h s =
     (let s = get_key h s
      in bindr (peek (read_buf s)) (\<lambda>c.
         if c = 0x7f
         then if 0 <s char_in_line s
              then bindr (put h 1 [0x08, 0x20, 0x08] 3 s) (\<lambda>s. Inr (s\<lparr>char_in_line := char_in_line s - 1\<rparr>))
              else Inr s
         else bindr (if c = 0x0D then put h 1 [0x0A] 1 s else Inr s) (\<lambda>s.
              bindr (put h 1 (read_buf s) 1 s) (\<lambda>s.
              if c = 0x0D
              then bindr (aset (line_buf s) (char_in_line s) 0) (\<lambda>l.
                   let s = s\<lparr>line_buf := l\<rparr>
                   in bindr (on_user (parse_cmd h (line_buf s)) s) (\<lambda>s.
                      show_prompt h (s\<lparr>char_in_line := 0\<rparr>)))
              else bindr (aset (line_buf s) (char_in_line s) c) (\<lambda>l.
                   Inr (s\<lparr>line_buf := l, char_in_line := char_in_line s + 1\<rparr>))))))"

primrec shell_run :: "'w host \<Rightarrow> nat \<Rightarrow> 'w shell \<Rightarrow> 'w shell res" where
  "shell_run h 0 s = Inr s"
| "shell_run h (Suc n) s = bindr (shell_step h s) (shell_run h n)"

definition shell_start :: "'w host \<Rightarrow> 'w shell \<Rightarrow> 'w shell res" where
  "shell_start h s =
     bindr (put h 1 (ascii ''hello, stdout!'' @ [0x0A]) 15 s) (\<lambda>s.
     bindr (put h 2 (ascii ''hello, stderr!'' @ [0x0A]) 15 s) (\<lambda>s.
     show_prompt h (s\<lparr>char_in_line := 0\<rparr>)))"

end
