(* ===== verification/User_Correct.thy ===== *)
theory User_Correct
  imports User
begin

text \<open>
  The shell's line editor against a reference editor on lists: what the loop of \<^verbatim>\<open>main\<close> does to
  its line buffer and prints for a sequence of keys, up to the key that no longer fits. The lemmas are
  proved from the interface \<open>terminal\<close>; theory \<open>User_Kernel\<close> shows that the kernel provides it.
\<close>

section \<open>A terminal behind the system calls\<close>

text \<open>
  What a console that prints the written object as a format, up to its first zero byte, shows of a single
  character, or of several of which none is zero or a per cent sign.
\<close>

definition shown :: "u8 list \<Rightarrow> u8 list" where
  "shown cs = filter (\<lambda>c. c \<noteq> 0 \<and> c \<noteq> 0x25) cs"

text \<open>
  What the program relies on: reading one byte from descriptor 0 delivers the next key, and writing
  to descriptor 1 an object of at most four bytes that ends in a zero shows the bytes before it.
\<close>

locale terminal =
  fixes ec :: "'w ecalls" and keys :: "'w \<Rightarrow> u8 list" and screen :: "'w \<Rightarrow> u8 list" and good :: "'w \<Rightarrow> bool"
  assumes read_key: "good w \<Longrightarrow> keys w = k # ks
      \<Longrightarrow> \<exists>r w'. ec U_READ 0 (Object [a, b]) 1 w = (r, [k, b], w') \<and> good w' \<and> keys w' = ks \<and> screen w' = screen w"
    and write_text: "good w \<Longrightarrow> length cs \<le> 3 \<Longrightarrow> length cs = 1 \<or> 0 \<notin> set cs \<and> 0x25 \<notin> set cs
      \<Longrightarrow> \<exists>r bs w'. ec U_WRITE 1 (Object (cs @ [0])) (of_nat (length cs)) w = (r, bs, w')
        \<and> good w' \<and> keys w' = keys w \<and> screen w' = screen w @ shown cs"

section \<open>The reference editor\<close>

text \<open>
  A line of at most \<open>cap\<close> characters: the key DEL takes away the last one and wipes it from the
  screen, every other key is appended and shown (a zero or a per cent sign shows nothing); there is no
  result once a key does not fit.
\<close>

definition del :: u8 where "del = 0x7F"
definition wipe :: "u8 list" where "wipe = [0x08, 0x20, 0x08]"

fun editor :: "nat \<Rightarrow> u8 list \<Rightarrow> u8 list \<Rightarrow> (u8 list \<times> u8 list) option" where
  "editor cap l [] = Some (l, [])"
| "editor cap l (k # ks) =
     (if k = del
      then if l = [] then editor cap l ks
           else map_option (\<lambda>(l, out). (l, wipe @ out)) (editor cap (butlast l) ks)
      else if length l < cap then map_option (\<lambda>(l, out). (l, shown [k] @ out)) (editor cap (l @ [k]) ks)
      else None)"

section \<open>One key\<close>

definition line_of :: "'w shell \<Rightarrow> u8 list" where
  "line_of s = take (unat (char_in_line s)) (line_buf s)"

definition shell_ok :: "'w shell \<Rightarrow> bool" where
  "shell_ok s \<longleftrightarrow> length (line_buf s) = 128 \<and> unat (char_in_line s) \<le> 128 \<and> length (read_buf s) = 2"

lemma positive_count: "unat (n :: u32) \<le> 128 \<Longrightarrow> 0 <s n \<longleftrightarrow> n \<noteq> 0"
proof -
  assume n: "unat n \<le> 128"
  have "sint n = int (unat n)"
    using n by (intro sint_small) simp
  then have "0 <s n \<longleftrightarrow> 0 < unat n" by (simp only: word_sless_alt signed_0 of_nat_0_less_iff)
  then show ?thesis by (simp add: unat_gt_0)
qed

context terminal begin

lemma put_screen:
  assumes "good (outside s)" "cs = take (unat n) bs" "unat n = length cs" "length cs \<le> 3"
    "length cs = 1 \<or> 0 \<notin> set cs \<and> 0x25 \<notin> set cs" and c: "calls h = ec"
  obtains w where "put h 1 bs n s = Inr (s\<lparr>outside := w\<rparr>)" "good w" "keys w = keys (outside s)"
    "screen w = screen (outside s) @ shown cs"
proof -
  obtain r b w where w: "ec U_WRITE 1 (Object (cs @ [0])) (of_nat (length cs)) (outside s) = (r, b, w)"
    "good w" "keys w = keys (outside s)" "screen w = screen (outside s) @ shown cs"
    using write_text [OF assms(1,4,5)] by blast
  have "of_nat (length cs) = n" using assms(3) by (metis of_nat_unat ucast_id)
  moreover have "unat n \<le> length bs"
    using assms(3) arg_cong [OF assms(2), of length] by simp
  ultimately have "put h 1 bs n s = Inr (s\<lparr>outside := w\<rparr>)"
    using w(1) c assms(2) by (simp add: put_def on_user_def u_write_def)
  with w show thesis using that by blast
qed

text \<open>The next key in the read buffer.\<close>

lemma key_read:
  assumes good: "good (outside s)" and s: "shell_ok s" and k: "keys (outside s) = k # ks" and c: "calls h = ec"
  obtains s1 b where "get_key h s = s1" "peek (read_buf s1) = Inr k" "shell_ok s1" "good (outside s1)"
    "keys (outside s1) = ks" "screen (outside s1) = screen (outside s)"
    "line_buf s1 = line_buf s" "char_in_line s1 = char_in_line s" "read_buf s1 = [k, b]"
proof -
  obtain a b where b: "read_buf s = [a, b]"
    using s by (auto simp: shell_ok_def length_Suc_conv numeral_2_eq_2)
  obtain r w where "ec U_READ 0 (Object [a, b]) 1 (outside s) = (r, [k, b], w)" "good w" "keys w = ks"
    "screen w = screen (outside s)"
    using read_key [OF good k] by blast
  then show thesis using that b s c by (simp add: get_key_def peek_def shell_ok_def)
qed

text \<open>A key other than return is one step of the reference editor.\<close>

lemma shell_key:
  assumes good: "good (outside s)" and s: "shell_ok s" and k: "keys (outside s) = k # ks"
    and ret: "k \<noteq> 0x0D" and c: "calls h = ec"
  shows "case editor 128 (line_of s) [k] of None \<Rightarrow> shell_step h s = Inl Out_Of_Bounds
    | Some (l, out) \<Rightarrow> \<exists>s'. shell_step h s = Inr s' \<and> shell_ok s' \<and> good (outside s') \<and> line_of s' = l
        \<and> keys (outside s') = ks \<and> screen (outside s') = screen (outside s) @ out"
proof -
  obtain s1 b where s1: "get_key h s = s1" "peek (read_buf s1) = Inr k" "shell_ok s1"
    "keys (outside s1) = ks" "screen (outside s1) = screen (outside s)"
    "line_buf s1 = line_buf s" "char_in_line s1 = char_in_line s" "read_buf s1 = [k, b]" "good (outside s1)"
    using key_read [OF good s k c] by metis
  define n where "n = unat (char_in_line s)"
  have n: "n \<le> 128" "length (line_buf s) = 128" using s by (simp_all add: shell_ok_def n_def)
  then have len: "length (line_of s) = n" by (simp add: line_of_def n_def)
  have pos: "0 <s char_in_line s \<longleftrightarrow> n \<noteq> 0"
    using positive_count n(1) by (auto simp: n_def unat_eq_zero)
  show ?thesis
  proof (cases "k = del")
    case True
    show ?thesis
    proof (cases "n = 0")
      case True
      then have "shell_step h s = Inr s1"
        using s1 \<open>k = del\<close> pos by (simp add: shell_step_def Let_def del_def)
      moreover have "line_of s1 = line_of s" "line_of s = []" using s1 len True by (auto simp: line_of_def n_def)
      ultimately show ?thesis using s1 \<open>k = del\<close> by simp
    next
      case False
      obtain w where w: "put h 1 wipe 3 s1 = Inr (s1\<lparr>outside := w\<rparr>)" "good w" "keys w = ks"
        "screen w = screen (outside s) @ wipe"
        using put_screen [OF s1(9), of wipe 3 wipe h] s1(4,5) c by (auto simp: wipe_def shown_def)
      define s' where "s' = s1\<lparr>outside := w, char_in_line := char_in_line s - 1\<rparr>"
      have "shell_step h s = Inr s'"
        using s1 \<open>k = del\<close> pos False w(1) by (simp add: shell_step_def Let_def del_def wipe_def s'_def)
      moreover have n': "unat (char_in_line s - 1) = n - 1"
        using False by (simp add: n_def unat_minus_one unat_eq_zero)
      moreover have "line_of s' = butlast (line_of s)"
        using n n' s1(6) False by (simp add: s'_def line_of_def butlast_take n_def [symmetric])
      moreover have "shell_ok s'" using s1 n n' by (simp add: shell_ok_def s'_def)
      moreover have "line_of s \<noteq> []" using len False by auto
      ultimately show ?thesis using \<open>k = del\<close> w by (simp add: s'_def)
    qed
  next
    case False
    obtain w where w: "put h 1 [k, b] 1 s1 = Inr (s1\<lparr>outside := w\<rparr>)" "good w" "keys w = ks"
      "screen w = screen (outside s) @ shown [k]"
      using put_screen [OF s1(9), of "[k]" 1 "[k, b]" h] s1(4,5) c by auto
    have step: "shell_step h s = bindr (aset (line_buf s) (char_in_line s) k)
        (\<lambda>l. Inr (s1\<lparr>outside := w, line_buf := l, char_in_line := char_in_line s + 1\<rparr>))"
      using s1 False ret w(1) by (simp add: shell_step_def Let_def del_def)
    show ?thesis
    proof (cases "n < 128")
      case True
      define s' where "s' = s1\<lparr>outside := w, line_buf := (line_buf s)[n := k], char_in_line := char_in_line s + 1\<rparr>"
      have "unat (char_in_line s + 1) = n + 1"
        using True by (simp add: n_def unat_word_ariths)
      then have "line_of s' = line_of s @ [k]" "shell_ok s'"
        using True n s1(3) by (simp_all add: s'_def line_of_def take_Suc_conv_app_nth n_def [symmetric] shell_ok_def)
      moreover have "shell_step h s = Inr s'" using step True n by (simp add: aset_def s'_def n_def)
      ultimately show ?thesis using False len True w by (simp add: s'_def)
    next
      case full: False
      then have "shell_step h s = Inl Out_Of_Bounds" using step n by (simp add: aset_def n_def)
      then show ?thesis using False len full by simp
    qed
  qed
qed

end

section \<open>A line\<close>

lemma editor_step:
  "editor cap l (k # ks) = (case editor cap l [k] of None \<Rightarrow> None
     | Some (l', out) \<Rightarrow> map_option (\<lambda>(l, out'). (l, out @ out')) (editor cap l' ks))"
  by (cases "editor cap l ks"; cases "editor cap (butlast l) ks"; cases "editor cap (l @ [k]) ks") auto

context terminal begin

text \<open>
  For any keys but return the shell's loop is the reference editor: the same line in the
  line buffer and the same characters on the screen; and for the first key that does not fit into
  the 128 characters it writes behind the buffer.
\<close>

lemma edits_line:
  assumes c: "calls h = ec" and "good (outside s)" and "shell_ok s" and "keys (outside s) = ks @ rest"
    and "0x0D \<notin> set ks"
  shows "case editor 128 (line_of s) ks of
      None \<Rightarrow> shell_run h (length ks) s = Inl Out_Of_Bounds
    | Some (l, out) \<Rightarrow> \<exists>s'. shell_run h (length ks) s = Inr s' \<and> line_of s' = l
        \<and> screen (outside s') = screen (outside s) @ out \<and> keys (outside s') = rest
        \<and> shell_ok s' \<and> good (outside s')"
  using assms(2-5)
proof (induction ks arbitrary: s)
  case (Cons k ks)
  note step = shell_key [OF Cons.prems(1,2), of k "ks @ rest" h]
  show ?case
  proof (cases "editor 128 (line_of s) [k]")
    case None
    moreover have "shell_step h s = Inl Out_Of_Bounds" using step Cons.prems c None by simp
    ultimately show ?thesis by (subst editor_step) simp
  next
    case (Some p)
    obtain l out where p: "p = (l, out)" by (cases p)
    then obtain s1 where s1: "shell_step h s = Inr s1" "shell_ok s1" "line_of s1 = l" "good (outside s1)"
      "keys (outside s1) = ks @ rest" "screen (outside s1) = screen (outside s) @ out"
      using step Cons.prems c Some by auto
    have "0x0D \<notin> set ks" using Cons.prems(4) by simp
    from Cons.IH [OF s1(4,2,5) this] show ?thesis
      using s1 Some p by (subst editor_step) (auto split: option.splits)
  qed
qed simp

end

end
