(* ===== verification/User_Kernel.thy ===== *)
theory User_Kernel
  imports User_Correct Syscall_Correct Console_Props
begin

text \<open>
  The shell on the kernel: a system call of the user program runs the trap entry, the handler and the
  trap exit of the kernel's model, and with the firmware's console that makes a \<open>terminal\<close>, so the
  shell's line editor is correct on this kernel.
\<close>

section \<open>A call of the program\<close>

text \<open>
  The program keeps the object at the address \<open>a\<close> of its memory, which it reaches through its page table.
  \<open>h\<close> are the hart's registers at the \<^verbatim>\<open>ecall\<close> except for the arguments. The call gives the value in
  \<^verbatim>\<open>a0\<close> and the object as the program finds it afterwards.
\<close>

definition call_hart :: "hart \<Rightarrow> u64 \<Rightarrow> u64 \<Rightarrow> u64 \<Rightarrow> u64 \<Rightarrow> hart" where
  "call_hart h call fd a1 count = h\<lparr>xregs := (xregs h)[10 := fd, 11 := a1, 12 := count, 17 := call]\<rparr>"

definition program_ecall ::
  "('w, 'd) board \<Rightarrow> hart \<Rightarrow> u64 \<Rightarrow> u64 \<Rightarrow> u64 \<Rightarrow> argument \<Rightarrow> u64 \<Rightarrow> ('w, 'd, 'a) system_scheme
   \<Rightarrow> (u64 \<times> u8 list \<times> ('w, 'd, 'a) system_scheme) res" where
  "program_ecall b h a call fd arg count k =
     (let bs = (case arg of Number _ \<Rightarrow> [] | Object bs \<Rightarrow> bs);
          a1 = (case arg of Number x \<Rightarrow> x | Object _ \<Rightarrow> a)
      in bindr (vstore a bs k) (\<lambda>k.
         case trap_save (call_hart h call fd a1 count) (mem k) of (regs, h', m) \<Rightarrow>
         bindr (trap_handler b SUPERVISOR_ECALL_FROM_USER (h_sepc h) regs (k\<lparr>mem := m\<rparr>)) (\<lambda>k.
         bindr (vload k a (of_nat (length bs))) (\<lambda>bs.
         Inr (xregs (trap_return regs (h_sscratch h') (mem k)) ! 10, bs, k)))))"

text \<open>The calls the program makes are those of the kernel, wherever the kernel comes back.\<close>

definition on_kernel ::
  "('w, 'd) board \<Rightarrow> hart \<Rightarrow> u64 \<Rightarrow> ('w, 'd, 'a) system_scheme ecalls \<Rightarrow> bool" where
  "on_kernel b h a ec \<longleftrightarrow> (\<forall>call fd arg count k r.
     program_ecall b h a call fd arg count k = Inr r \<longrightarrow> ec call fd arg count k = r)"

section \<open>The console\<close>

text \<open>
  The debug console of the firmware with its input and its output: writing a byte shows it, reading
  takes the next byte of the input and stores it at the physical address given.
\<close>

definition console_io :: "'w platform \<Rightarrow> ('w \<Rightarrow> u8 list) \<Rightarrow> ('w \<Rightarrow> u8 list) \<Rightarrow> bool" where
  "console_io p inp out \<longleftrightarrow>
     (\<forall>c m w. \<exists>r w'. ecall p [0x4442434E, 2, ucast (c :: u8), 0, 0, 0, 0, 0] m w = (r, m, w')
        \<and> out w' = out w @ [c] \<and> inp w' = inp w)
     \<and> (\<forall>a m w c cs. inp w = c # cs \<longrightarrow> (\<exists>w'. ecall p [0x4442434E, 1, 1, a, 0, 0, 0, 0] m w
          = (\<lparr>error = 0, val = 1\<rparr>, m(a + PA2VA_OFFSET := c), w') \<and> inp w' = cs \<and> out w' = out w))"

lemma printed:
  assumes "console_io p inp out"
  shows "\<exists>w. fold (putc p) cs k = k\<lparr>world := w\<rparr> \<and> out w = out (world k) @ cs \<and> inp w = inp (world k)"
proof (induction cs arbitrary: k)
  case Nil
  show ?case by (intro exI [of _ "world k"]) simp
next
  case (Cons c cs)
  obtain r w where w: "ecall p [0x4442434E, 2, ucast c, 0, 0, 0, 0, 0] (mem k) (world k) = (r, mem k, w)"
    "out w = out (world k) @ [c]" "inp w = inp (world k)" using assms unfolding console_io_def by metis
  then have "putc p c k = k\<lparr>world := w\<rparr>"
    by (simp add: putc_def sbi_debug_console_write_byte_def sbi_ecall_def)
  with Cons.IH [of "k\<lparr>world := w\<rparr>"] w(2,3) show ?case by auto
qed

text \<open>What \<^verbatim>\<open>stdout_write\<close> shows of the objects that the line editor writes.\<close>

lemma stdout_shows:
  assumes io: "console_io p inp out" and r: "readable k buf (cs @ [0])"
    and cs: "length cs = 1 \<or> 0 \<notin> set cs \<and> 0x25 \<notin> set cs"
  shows "\<exists>n w. stdout_write p buf (of_nat (length cs)) k = Inr (n, k\<lparr>world := w\<rparr>)
    \<and> out w = out (world k) @ shown cs \<and> inp w = inp (world k)"
proof -
  have "\<exists>s n. vstring k buf = Inr s \<and> vprintfmt kernel_pointers s [] k = Inr (shown cs, n, k)"
  proof (cases "0 \<notin> set cs \<and> 0x25 \<notin> set cs")
    case True
    then have "shown cs = cs" by (auto simp: shown_def intro!: filter_True)
    then show ?thesis using vstring_eq [OF r] True vprintfmt_plain by metis
  next
    case False
    then obtain c where c: "cs = [c]" "c = 0 \<or> c = 0x25"
      using cs by (auto simp: length_Suc_conv)
    then have "shown cs = []" by (auto simp: shown_def)
    moreover have "vstring k buf = Inr (if c = 0 then [] else [c])"
      using vstring_eq [OF r] vstring_eq [of k buf "[]"] readable_append [of k buf "[0]" "[0]"] r c by auto
    moreover have "vprintfmt kernel_pointers [0x25] [] k = Inr ([], 0, k)" "vprintfmt kernel_pointers [] [] k = Inr ([], 0, k)"
      by (simp_all add: vprintfmt_def no_flags_def fresh_flags_def)
    ultimately show ?thesis using c(2) by auto
  qed
  then obtain s n where s: "vstring k buf = Inr s" "vprintfmt kernel_pointers s [] k = Inr (shown cs, n, k)" by blast
  moreover have "vload k buf (of_nat (length cs)) = Inr cs" using vload_readable [OF readable_append [OF r]] .
  ultimately show ?thesis
    using printed [OF io, of "shown cs" k] by (auto simp: stdout_write_def printk_def)
qed

text \<open>A read of one byte from the standard input.\<close>

lemma stdin_reads:
  assumes io: "console_io p inp out" and i: "inp (world k) = c # cs"
    and st: "\<And>w. vstore8 buf c (k\<lparr>mem := (mem k)(ret := c), world := w\<rparr>)
      = Inr (k\<lparr>mem := (mem k)(ret := c, phys := c), world := w\<rparr>)"
  shows "\<exists>w. stdin_read p ret buf 1 k = Inr (1, k\<lparr>mem := (mem k)(ret := c, phys := c), world := w\<rparr>)
    \<and> inp w = cs \<and> out w = out (world k)"
proof -
  obtain w where w: "ecall p [0x4442434E, 1, 1, ret - PA2VA_OFFSET, 0, 0, 0, 0] (mem k) (world k)
      = (\<lparr>error = 0, val = 1\<rparr>, (mem k)(ret := c), w)" "inp w = cs" "out w = out (world k)"
    using io [unfolded console_io_def, THEN conjunct2, rule_format, OF i, of "ret - PA2VA_OFFSET" "mem k"] by auto
  then have "uart_wait p ret k = Some (k\<lparr>mem := (mem k)(ret := c), world := w\<rparr>)"
    by (subst uart_wait.simps) (simp add: sbi_debug_console_read_def sbi_ecall_def)
  then have "uart_getchar p ret k = Inr (c, k\<lparr>mem := (mem k)(ret := c), world := w\<rparr>)"
    by (simp add: uart_getchar_def)
  moreover have "for_range 0 (1 :: u64) f k = f 0 k" for f :: "u64 \<Rightarrow> _"
    by (simp add: for_range_step bindr_def split: sum.splits)
  ultimately show ?thesis using st [of w] w(2,3) by (intro exI [of _ w]) (simp add: stdin_read_def)
qed

section \<open>The state of the kernel under the shell\<close>

text \<open>Where the trap entry puts the frame.\<close>

definition frame_at :: "hart \<Rightarrow> u64" where
  "frame_at h = (if h_sscratch h = 0 then xregs h ! 2 else h_sscratch h) - pt_regs_size"

text \<open>
  The four bytes at \<open>a\<close> are the program's to read and write: they lie at the addresses \<open>phys\<close> of the
  direct map, apart from each other, from the frame and from the local of \<^verbatim>\<open>uart_getchar\<close>, and no
  store to any of these bytes changes the translation.
\<close>

definition touched :: "('w, 'd) board \<Rightarrow> hart \<Rightarrow> (nat \<Rightarrow> u64) \<Rightarrow> u64 set" where
  "touched b h phys = insert (char_slot b) (phys ` {..< 4} \<union> {x. x - frame_at h < pt_regs_size})"

definition shell_memory :: "('w, 'd) board \<Rightarrow> hart \<Rightarrow> u64 \<Rightarrow> (nat \<Rightarrow> u64) \<Rightarrow> 'a kernel_scheme \<Rightarrow> bool" where
  "shell_memory b h a phys k \<longleftrightarrow> inj_on phys {..< 4} \<and> char_slot b \<notin> phys ` {..< 4}
     \<and> (\<forall>x \<in> insert (char_slot b) (phys ` {..< 4}). \<not> x - frame_at h < pt_regs_size)
     \<and> (\<forall>m. (\<forall>x. x \<notin> touched b h phys \<longrightarrow> m x = mem k x) \<longrightarrow>
          (\<forall>i < 4. resolve PERM_R (k\<lparr>mem := m\<rparr>) (a + of_nat i) = Inr (phys i)
            \<and> resolve PERM_W (k\<lparr>mem := m\<rparr>) (a + of_nat i) = Inr (phys i)))"

text \<open>The running task has the standard input and output open.\<close>

definition console_files :: "'a kernel_scheme \<Rightarrow> bool" where
  "console_files k \<longleftrightarrow> (\<exists>p fds. running_files k p fds \<and> 2 \<le> length fds
     \<and> opened (fds ! 0) \<noteq> 0 \<and> perms (fds ! 0) AND FILE_READABLE \<noteq> 0 \<and> f_read (fds ! 0) = Op_Stdin
     \<and> opened (fds ! 1) \<noteq> 0 \<and> perms (fds ! 1) AND FILE_WRITABLE \<noteq> 0 \<and> f_write (fds ! 1) = Op_Stdout)"

definition under_shell :: "('w, 'd) board \<Rightarrow> hart \<Rightarrow> u64 \<Rightarrow> (nat \<Rightarrow> u64) \<Rightarrow> 'a kernel_scheme \<Rightarrow> bool" where
  "under_shell b h a phys k \<longleftrightarrow> shell_memory b h a phys k \<and> console_files k"

lemma shell_memory_cong:
  assumes "shell_memory b h a phys k" "satp k' = satp k" "\<And>x. x \<notin> touched b h phys \<Longrightarrow> mem k' x = mem k x"
  shows "shell_memory b h a phys k'"
proof -
  have "resolve perm (k'\<lparr>mem := m\<rparr>) x = resolve perm (k\<lparr>mem := m\<rparr>) x" for perm m x
    using assms(2) by (intro resolve_cong) simp_all
  then show ?thesis using assms(1,3) unfolding shell_memory_def by simp
qed

text \<open>The object in the program's memory, and the frame behind it, when the handler is entered.\<close>

lemma enter_kernel:
  assumes m: "shell_memory b h a phys k" and h: "hart_wf h" and bs: "length bs \<le> 4"
  obtains m1 regs h' m2 where "vstore a bs k = Inr (k\<lparr>mem := m1\<rparr>)"
    "trap_save (call_hart h call fd a1 count) m1 = (frame_at h, h', m2)"
    "frame_holds m2 (frame_at h) ((xregs h)[10 := fd, 11 := a1, 12 := count, 17 := call, 2 := frame_at h])
      (h_sepc h) (h_sstatus h)"
    "\<And>x. x \<notin> touched b h phys \<Longrightarrow> m2 x = mem k x" "\<And>i. i < length bs \<Longrightarrow> m2 (phys i) = bs ! i"
proof -
  let ?h = "call_hart h call fd a1 count"
  have "inj_on phys {..< length bs}" using m bs by (auto simp: shell_memory_def intro: inj_on_subset)
  moreover have sub: "phys ` {..< length bs} \<subseteq> touched b h phys" using bs by (auto simp: touched_def)
  ultimately have "writable k a (length bs) phys"
    using m bs unfolding writable_def shell_memory_def by (meson less_le_trans subsetD)
  then obtain m1 where m1: "vstore a bs k = Inr (k\<lparr>mem := m1\<rparr>)" "\<forall>i < length bs. m1 (phys i) = bs ! i"
    "\<forall>x. x \<notin> phys ` {..< length bs} \<longrightarrow> m1 x = mem k x" using vstore_writable by blast
  obtain sp h' m2 where s: "trap_save ?h m1 = (sp, h', m2)" by (metis prod_cases3)
  have wf: "hart_wf ?h" using h by (simp add: hart_wf_def call_hart_def)
  have sp: "sp = frame_at h" using trap_save_frame(3) [OF wf s] h
    by (simp add: frame_at_def call_hart_def hart_wf_def)
  have far: "m2 x = m1 x" if "\<not> x - frame_at h < pt_regs_size" for x
    using trap_save_far [OF s] that sp by simp
  have fr: "frame_holds m2 (frame_at h) ((xregs h)[10 := fd, 11 := a1, 12 := count, 17 := call, 2 := frame_at h])
      (h_sepc h) (h_sstatus h)"
    using trap_save_frame(1) [OF wf s] by (simp add: sp call_hart_def)
  show thesis
  proof (rule that [OF m1(1) s [unfolded sp] fr])
    show "m2 x = mem k x" if "x \<notin> touched b h phys" for x
      using that far m1(3) sub by (auto simp: touched_def)
    show "m2 (phys i) = bs ! i" if "i < length bs" for i
      using that far m1(2) m bs by (auto simp: shell_memory_def)
  qed
qed

lemma shell_readable:
  assumes m: "shell_memory b h a phys k" and bs: "length bs \<le> 4" "\<And>i. i < length bs \<Longrightarrow> mem k (phys i) = bs ! i"
  shows "readable k a bs"
proof -
  have "resolve PERM_R (k\<lparr>mem := mem k\<rparr>) (a + of_nat i) = Inr (phys i)" if "i < 4" for i
    using m that unfolding shell_memory_def by blast
  then show ?thesis using bs by (simp add: readable_def vload8_def)
qed

text \<open>Back in the program: the result and the new \<^verbatim>\<open>sepc\<close> are in the frame, nothing else has changed.\<close>

lemma leave_kernel:
  fixes k :: "('w, 'd, 'a) system_scheme" and r :: u64 and w :: 'w
  assumes u: "under_shell b h a phys k" and m: "\<And>x. x \<notin> touched b h phys \<Longrightarrow> m3 x = mem k x"
    and bs: "length bs \<le> 4" "\<And>i. i < length bs \<Longrightarrow> m3 (phys i) = bs ! i"
  defines "k' \<equiv> advance_sepc (frame_at h) (set_x (frame_at h) REG_IDX_A0 r (k\<lparr>mem := m3, world := w\<rparr>))"
  shows "under_shell b h a phys k'" "vload k' a (of_nat (length bs)) = Inr bs" "world k' = w"
proof -
  have far: "mem k' x = m3 x" if "\<not> x - frame_at h < pt_regs_size" for x
    unfolding k'_def frame_writes [OF that] by simp
  have same: "satp k' = satp k" "task_at k' = task_at k" "current k' = current k" "files_at k' = files_at k"
    "world k' = w"
    by (simp_all add: k'_def advance_sepc_def set_x_def)
  have sh: "shell_memory b h a phys k'"
    using u far m by (intro shell_memory_cong [OF _ same(1)]) (auto simp: under_shell_def touched_def)
  moreover have "console_files k'"
    using u by (simp add: under_shell_def console_files_def running_files_cong [OF same(2-4)])
  ultimately show "under_shell b h a phys k'" by (simp add: under_shell_def)
  have "mem k' (phys i) = bs ! i" if "i < length bs" for i
    using far that bs sh by (simp add: shell_memory_def)
  then show "vload k' a (of_nat (length bs)) = Inr bs"
    by (intro vload_readable shell_readable [OF sh bs(1)])
  show "world k' = w" by (rule same(5))
qed

lemma same_file:
  assumes "running_files k p fds" "unat i < length fds"
  shows "set_file p i (fds ! unat i) k = Inr k"
proof -
  have "(files_at k)(p \<mapsto> \<lparr>fd_array = fds\<rparr>) = files_at k"
    using assms(1) by (intro fun_upd_idem) (simp add: running_files_def)
  then show ?thesis using set_file_ok [OF assms, of "fds ! unat i"] by simp
qed

section \<open>The kernel's console as a terminal\<close>

lemma write_call:
  fixes k :: "('w, 'd, 'a) system_scheme"
  assumes io: "console_io (firmware b) inp out" and h: "hart_wf h" and u: "under_shell b h a phys k"
    and len: "length cs \<le> 3" and cs: "length cs = 1 \<or> 0 \<notin> set cs \<and> 0x25 \<notin> set cs"
  shows "\<exists>r k'. program_ecall b h a U_WRITE 1 (Object (cs @ [0])) (of_nat (length cs)) k = Inr (r, cs @ [0], k')
    \<and> under_shell b h a phys k' \<and> inp (world k') = inp (world k) \<and> out (world k') = out (world k) @ shown cs"
proof -
  have mem: "shell_memory b h a phys k" using u by (simp add: under_shell_def)
  have l4: "length (cs @ [0]) \<le> 4" using len by simp
  let ?regs = "frame_at h"
  let ?xs = "(xregs h)[10 := 1, 11 := a, 12 := of_nat (length cs), 17 := U_WRITE, 2 := frame_at h]"
  obtain m1 h' m2 where e: "vstore a (cs @ [0]) k = Inr (k\<lparr>mem := m1\<rparr>)"
    "trap_save (call_hart h U_WRITE 1 a (of_nat (length cs))) m1 = (?regs, h', m2)"
    "frame_holds m2 ?regs ?xs (h_sepc h) (h_sstatus h)"
    "\<And>x. x \<notin> touched b h phys \<Longrightarrow> m2 x = mem k x"
    "\<And>i. i < length (cs @ [0]) \<Longrightarrow> m2 (phys i) = (cs @ [0]) ! i"
    using enter_kernel [OF mem h l4, of U_WRITE 1 a "of_nat (length cs)"] by metis
  define k2 where "k2 = k\<lparr>mem := m2\<rparr>"
  have k2: "mem k2 = m2" "world k2 = world k" by (simp_all add: k2_def)
  have frame: "frame_holds (mem k2) ?regs ?xs (h_sepc h) (h_sstatus h)" using e(3) k2 by simp
  have xs: "?xs ! 10 = 1" "?xs ! 11 = a" "?xs ! 12 = of_nat (length cs)" "?xs ! 17 = SYS_WRITE"
    using h by (simp_all add: hart_wf_def U_WRITE_def SYS_WRITE_def)
  note args = frame_get [OF frame, unfolded xs]
  have "shell_memory b h a phys k2" using e(4) by (intro shell_memory_cong [OF mem]) (simp_all add: k2_def)
  then have r: "readable k2 a (cs @ [0])" using e(5) by (intro shell_readable [OF _ l4]) (simp_all add: k2_def)
  obtain n w where w: "stdout_write (firmware b) a (of_nat (length cs)) k2 = Inr (n, k2\<lparr>world := w\<rparr>)"
    "out w = out (world k) @ shown cs" "inp w = inp (world k)"
    using stdout_shows [OF io r cs] k2(2) by auto
  obtain p fds where f: "running_files k p fds" "2 \<le> length fds" "opened (fds ! 1) \<noteq> 0"
    "perms (fds ! 1) AND FILE_WRITABLE \<noteq> 0" "f_write (fds ! 1) = Op_Stdout"
    using u by (auto simp: under_shell_def console_files_def)
  have run: "running_files k2 p fds" "running_files (k2\<lparr>world := w\<rparr>) p fds"
    using f(1) by (simp_all add: running_files_def k2_def)
  have set: "set_file p (1 :: u64) (fds ! 1) (k2\<lparr>world := w\<rparr>) = Inr (k2\<lparr>world := w\<rparr>)"
    using same_file [OF run(2), of "1 :: u64"] f(2) by simp
  have "call_write b (fds ! 1) a (of_nat (length cs)) k2 = Inr (n, fds ! 1, k2\<lparr>world := w\<rparr>)"
    using w(1) f(5) by (simp add: call_write_def)
  then have "sys_write b ?regs k2 = Inr (set_x ?regs REG_IDX_A0 n (k2\<lparr>world := w\<rparr>))"
    using f(2-4) current_files_ok [OF run(1)] set
    by (simp add: sys_write_def Let_def args aget_def finish_call_def)
  then have trap: "trap_handler b SUPERVISOR_ECALL_FROM_USER (h_sepc h) ?regs k2
      = Inr (advance_sepc ?regs (set_x ?regs REG_IDX_A0 n (k2\<lparr>world := w\<rparr>)))"
    using syscall_enter [OF frame, unfolded xs, OF syscall_numbers(5)] by simp
  have k3: "k2\<lparr>world := w\<rparr> = k\<lparr>mem := m2, world := w\<rparr>" by (simp add: k2_def)
  note left = leave_kernel [OF u e(4) l4 e(5), of n w]
  show ?thesis
    using e(1,2) trap left w(2,3) unfolding k3
    by (simp add: program_ecall_def Let_def k2_def [symmetric])
qed

lemma read_call:
  fixes k :: "('w, 'd, 'a) system_scheme"
  assumes io: "console_io (firmware b) inp out" and h: "hart_wf h" and u: "under_shell b h a phys k"
    and c: "inp (world k) = c # cs"
  shows "\<exists>r k'. program_ecall b h a U_READ 0 (Object [x, y]) 1 k = Inr (r, [c, y], k')
    \<and> under_shell b h a phys k' \<and> inp (world k') = cs \<and> out (world k') = out (world k)"
proof -
  have mem: "shell_memory b h a phys k" using u by (simp add: under_shell_def)
  let ?regs = "frame_at h"
  let ?xs = "(xregs h)[10 := 0, 11 := a, 12 := 1, 17 := U_READ, 2 := frame_at h]"
  have l2: "length [x, y] \<le> 4" by simp
  obtain m1 h' m2 where e: "vstore a [x, y] k = Inr (k\<lparr>mem := m1\<rparr>)"
    "trap_save (call_hart h U_READ 0 a 1) m1 = (?regs, h', m2)"
    "frame_holds m2 ?regs ?xs (h_sepc h) (h_sstatus h)"
    "\<And>x. x \<notin> touched b h phys \<Longrightarrow> m2 x = mem k x" "\<And>i. i < length [x, y] \<Longrightarrow> m2 (phys i) = [x, y] ! i"
    using enter_kernel [OF mem h l2, of U_READ 0 a 1] by metis
  define k2 where "k2 = k\<lparr>mem := m2\<rparr>"
  have frame: "frame_holds (mem k2) ?regs ?xs (h_sepc h) (h_sstatus h)" using e(3) by (simp add: k2_def)
  have xs: "?xs ! 10 = 0" "?xs ! 11 = a" "?xs ! 12 = 1" "?xs ! 17 = SYS_READ"
    using h by (simp_all add: hart_wf_def U_READ_def SYS_READ_def)
  note args = frame_get [OF frame, unfolded xs]
  define m3 where "m3 = m2(char_slot b := c, phys 0 := c)"
  have m3: "m3 x = mem k x" if "x \<notin> touched b h phys" for x
    using that e(4) by (auto simp: m3_def touched_def)
  have apart: "phys 0 \<noteq> phys 1" "phys 1 \<noteq> char_slot b"
  proof -
    have "inj_on phys {..< 4}" "char_slot b \<notin> phys ` {..< 4}" using mem by (simp_all add: shell_memory_def)
    moreover have "0 \<in> {..< 4 :: nat}" "1 \<in> {..< 4 :: nat}" by simp_all
    ultimately show "phys 0 \<noteq> phys 1" "phys 1 \<noteq> char_slot b" by (metis inj_onD zero_neq_one, metis imageI)
  qed
  have bytes: "m3 (phys i) = [c, y] ! i" if "i < length [c, y]" for i
    using that e(5) [of 1] apart by (auto simp: m3_def less_Suc_eq)
  have st: "vstore8 a c (k2\<lparr>mem := (mem k2)(char_slot b := c), world := w\<rparr>)
      = Inr (k2\<lparr>mem := (mem k2)(char_slot b := c, phys 0 := c), world := w\<rparr>)" for w
  proof -
    let ?k = "k2\<lparr>mem := (mem k2)(char_slot b := c), world := w\<rparr>"
    have "shell_memory b h a phys ?k"
      using e(4) by (intro shell_memory_cong [OF mem]) (auto simp: k2_def touched_def)
    then have r: "resolve PERM_W (?k\<lparr>mem := mem ?k\<rparr>) (a + of_nat i) = Inr (phys i)" if "i < 4" for i
      using that unfolding shell_memory_def by blast
    have a0: "a + of_nat 0 = a" by simp
    have "resolve PERM_W ?k (a + of_nat 0) = resolve PERM_W (?k\<lparr>mem := mem ?k\<rparr>) (a + of_nat 0)"
      by (rule resolve_cong) simp_all
    also have "\<dots> = Inr (phys 0)" by (rule r) simp
    finally have "resolve PERM_W ?k a = Inr (phys 0)" unfolding a0 .
    then show ?thesis by (simp add: vstore8_def)
  qed
  obtain w where w: "stdin_read (firmware b) (char_slot b) a 1 k2
      = Inr (1, k2\<lparr>mem := (mem k2)(char_slot b := c, phys 0 := c), world := w\<rparr>)"
    "inp w = cs" "out w = out (world k2)"
    using stdin_reads [OF io _ st, of cs] c by (auto simp: k2_def)
  have k3: "k2\<lparr>mem := (mem k2)(char_slot b := c, phys 0 := c), world := w\<rparr> = k\<lparr>mem := m3, world := w\<rparr>"
    by (simp add: k2_def m3_def)
  obtain p fds where f: "running_files k p fds" "2 \<le> length fds" "opened (fds ! 0) \<noteq> 0"
    "perms (fds ! 0) AND FILE_READABLE \<noteq> 0" "f_read (fds ! 0) = Op_Stdin"
    using u by (auto simp: under_shell_def console_files_def)
  have run: "running_files k2 p fds" "running_files (k\<lparr>mem := m3, world := w\<rparr>) p fds"
    using f(1) by (simp_all add: running_files_def k2_def)
  have some: "fds \<noteq> []" using f(2) by auto
  have same: "set_file p (0 :: u64) (fds ! 0) (k\<lparr>mem := m3, world := w\<rparr>) = Inr (k\<lparr>mem := m3, world := w\<rparr>)"
    using same_file [OF run(2), of "0 :: u64"] some by simp
  have "call_read b (fds ! 0) a 1 k2 = Inr (1, fds ! 0, k\<lparr>mem := m3, world := w\<rparr>)"
    using w(1) f(5) k3 by (simp add: call_read_def)
  then have "sys_read b ?regs k2 = Inr (set_x ?regs REG_IDX_A0 1 (k\<lparr>mem := m3, world := w\<rparr>))"
    using f(3,4) current_files_ok [OF run(1)] same some
    by (simp add: sys_read_def Let_def args aget_def finish_call_def)
  then have trap: "trap_handler b SUPERVISOR_ECALL_FROM_USER (h_sepc h) ?regs k2
      = Inr (advance_sepc ?regs (set_x ?regs REG_IDX_A0 1 (k\<lparr>mem := m3, world := w\<rparr>)))"
    using syscall_enter [OF frame, unfolded xs, OF syscall_numbers(4)] by simp
  have l2': "length [c, y] \<le> 4" by simp
  note left = leave_kernel [OF u m3 l2' bytes, of 1 w]
  show ?thesis
    using e(1,2) trap left w(2,3) by (simp add: program_ecall_def Let_def k2_def [symmetric]) (simp add: k2_def)
qed

text \<open>The kernel is a terminal.\<close>

lemma kernel_terminal:
  assumes io: "console_io (firmware b) inp out" and h: "hart_wf h" and ec: "on_kernel b h a ec"
  shows "terminal ec (\<lambda>k. inp (world k)) (\<lambda>k. out (world k)) (under_shell b h a phys)"
proof
  fix w :: "('a, 'b, 'c) system_scheme" and k x y :: u8 and ks cs :: "u8 list"
  assume u: "under_shell b h a phys w"
  show "\<exists>r w'. ec U_READ 0 (Object [x, y]) 1 w = (r, [k, y], w') \<and> under_shell b h a phys w'
      \<and> inp (world w') = ks \<and> out (world w') = out (world w)" if "inp (world w) = k # ks"
    using read_call [OF io h u that, of x y] ec unfolding on_kernel_def by blast
  show "\<exists>r bs w'. ec U_WRITE 1 (Object (cs @ [0])) (of_nat (length cs)) w = (r, bs, w')
      \<and> under_shell b h a phys w' \<and> inp (world w') = inp (world w) \<and> out (world w') = out (world w) @ shown cs"
    if "length cs \<le> 3" "length cs = 1 \<or> 0 \<notin> set cs \<and> 0x25 \<notin> set cs"
    using write_call [OF io h u that] ec unfolding on_kernel_def by blast
qed

locale kernel_console =
  fixes b :: "('w, 'd) board" and h :: hart and a :: u64 and phys :: "nat \<Rightarrow> u64"
    and ec :: "('w, 'd, 'a) system_scheme ecalls" and inp out :: "'w \<Rightarrow> u8 list"
  assumes io: "console_io (firmware b) inp out" and h: "hart_wf h" and ec: "on_kernel b h a ec"

sublocale kernel_console \<subseteq> terminal ec "\<lambda>k. inp (world k)" "\<lambda>k. out (world k)" "under_shell b h a phys"
  by (rule kernel_terminal [OF io h ec])

text \<open>
  C40: The shell on this kernel edits a line as the reference editor does. For any keys but return, the
  loop of \<^verbatim>\<open>main\<close>, with every \<^verbatim>\<open>read\<close> and \<^verbatim>\<open>write\<close> going through the trap entry, the system call and
  the console of the kernel, ends with the reference editor's line in the line buffer and its
  characters on the console; and for the first key that does not fit into
  the 128 characters it writes behind the buffer. A zero byte or a per cent sign goes into the line
  but does not show, because the kernel prints what is written to it as a format.
\<close>

theorem shell_edits_line:
  fixes s :: "('w, 'd, 'a) system_scheme shell"
  assumes "console_io (firmware b) inp out" and "hart_wf h" and "on_kernel b h a (calls u)"
    and "under_shell b h a phys (outside s)" and "shell_ok s"
    and "inp (world (outside s)) = ks @ rest" and "0x0D \<notin> set ks"
  shows "case editor 128 (line_of s) ks of
      None \<Rightarrow> shell_run u (length ks) s = Inl Out_Of_Bounds
    | Some (l, shows) \<Rightarrow> \<exists>s'. shell_run u (length ks) s = Inr s' \<and> line_of s' = l
        \<and> out (world (outside s')) = out (world (outside s)) @ shows \<and> inp (world (outside s')) = rest
        \<and> shell_ok s' \<and> under_shell b h a phys (outside s')"
  by (rule terminal.edits_line [OF kernel_terminal [OF assms(1-3)] refl assms(4-7)])

end
