(* ===== verification/User_Witness.thy ===== *)
theory User_Witness
  imports User_Kernel Syscall_Witness Vm_Witness
begin

text \<open>
  A machine that runs the shell: a console whose input and output are two lists, one task
  with the standard files, and a page of its memory mapped at \<open>0x12000\<close>; and a line typed on it.
\<close>

section \<open>The console\<close>

definition tty_ecall :: "u64 list \<Rightarrow> mem \<Rightarrow> u8 list \<times> u8 list \<Rightarrow> sbiret \<times> mem \<times> u8 list \<times> u8 list" where
  "tty_ecall a m w =
     (if a ! 1 = 1
      then (case fst w of [] \<Rightarrow> (\<lparr>error = 0, val = 0\<rparr>, m, w)
            | c # cs \<Rightarrow> (\<lparr>error = 0, val = 1\<rparr>, m(a ! 3 + PA2VA_OFFSET := c), cs, snd w))
      else (\<lparr>error = 0, val = 0\<rparr>, m, fst w, snd w @ [ucast (a ! 2)]))"

definition tty :: "(u8 list \<times> u8 list) platform" where
  "tty = \<lparr>ecall = tty_ecall, rdtime = (\<lambda>w. (0, w))\<rparr>"

lemma tty_console: "console_io tty fst snd"
  by (auto simp: console_io_def tty_def tty_ecall_def bit_simps intro!: bit_word_eqI)

section \<open>The machine\<close>

text \<open>Frames 0 to 2 hold the page table, frame 3 the program's page, frame 4 its kernel stack.\<close>

definition program_entry :: u64 where
  "program_entry = leaf_entry (page_va 3 - PA2VA_OFFSET) (PERM_U OR PERM_W OR PERM_R OR PERM_V)"

definition shell_hart :: hart where
  "shell_hart = \<lparr>xregs = replicate 32 0, h_sepc = 0x1000, h_sstatus = 0x20, h_sscratch = page_va 5\<rparr>"

definition shell_board :: "(u8 list \<times> u8 list, ram blk) board" where
  "shell_board = \<lparr>firmware = tty, disk_io = virtio_io ram_device VM_START, char_slot = page_va 6,
     ramdisk = 0, swapper_pg_dir = 0, ret_from_fork = 0, dummy_entry = 0\<rparr>"

definition shell_system :: "u8 list \<Rightarrow> (u8 list \<times> u8 list, ram blk) system" where
  "shell_system ks =
     \<lparr>bud = eight_four_used, mem = leaf_mem program_entry,
      task_at = [page_va 6 \<mapsto> demo_task], vma_at = (\<lambda>_. None),
      files_at = [VM_START + 0x6000 \<mapsto> \<lparr>fd_array = demo_fds\<rparr>], idle = 0, current = page_va 6,
      task = [0, page_va 6], nr_tasks = 2, seed = 0,
      cpu = \<lparr>th_ra = 0, th_sp = 0, th_s = [], th_sepc = 0, th_sstatus = 0, th_sscratch = 0\<rparr>,
      satp = drop_bit 12 (page_va 0 - PA2VA_OFFSET), stval = 0, scause = 8, world = (ks, []), fs = demo_fs\<rparr>"

definition shell_page :: "nat \<Rightarrow> u64" where "shell_page i = page_va 3 + 0x340 + of_nat i"

lemma shell_pages: "page_va 0 = VM_START" "page_va 1 = VM_START + 0x1000" "page_va 2 = VM_START + 0x2000"
  "page_va 3 = VM_START + 0x3000" "page_va 5 = VM_START + 0x5000" "page_va 6 = VM_START + 0x6000"
  by (simp_all add: page_va_eq add.commute)

lemma shell_frame: "frame_at shell_hart = VM_START + 0x4ef0"
  by (simp add: frame_at_def shell_hart_def shell_pages pt_regs_size_def VM_START_def)

lemma shell_slot: "char_slot shell_board = VM_START + 0x6000"
  by (simp add: shell_board_def shell_pages)

lemma four: "{..< 4 :: nat} = {0, 1, 2, 3}"
  by auto

lemma above: "(y :: u64) - 0x4ef0 < 0x110 \<Longrightarrow> 0x3000 \<le> y"
  by (cases "0x4ef0 \<le> y") (auto simp: word_less_nat_alt word_le_nat_alt unat_sub_if_size word_size)

lemma not_in_page: "\<not> y - c < (4096 :: u64)" if "0x3000 \<le> y" "c \<le> 0x2000"
  using that by (auto simp: word_less_nat_alt word_le_nat_alt unat_sub_if_size word_size)

lemma touched_far:
  assumes "x \<in> touched shell_board shell_hart shell_page" "q \<in> {0, 1, 2}"
  shows "\<not> x - page_va q < 4096"
proof -
  define y where "y = x - VM_START"
  have "y = 0x6000 \<or> y \<in> {0x3340, 0x3341, 0x3342, 0x3343} \<or> y - 0x4ef0 < 0x110"
    using assms(1)
    by (auto simp: touched_def shell_slot shell_page_def shell_frame pt_regs_size_def shell_pages y_def
        four diff_diff_eq)
  then have "0x3000 \<le> y" using above by auto
  moreover have "x - page_va q = y - (page_va q - VM_START)" by (simp add: y_def)
  moreover have "page_va q - VM_START \<le> 0x2000" using assms(2) by (auto simp: shell_pages simp del: One_nat_def)
  ultimately show ?thesis using not_in_page by metis
qed

lemma program_facts: "page_root (shell_system ks) = page_va 0" "program_entry AND PERM_V \<noteq> 0"
  "program_entry AND (PERM_V OR PERM_R) = PERM_V OR PERM_R"
  "program_entry AND (PERM_V OR PERM_W) = PERM_V OR PERM_W" "entry_table program_entry = page_va 3"
  by (simp add: page_root_def shell_system_def) code_simp+

lemma program_addresses:
  "i < 4 \<Longrightarrow> vpn2 (0x12340 + of_nat i) = 0 \<and> vpn1 (0x12340 + of_nat i) = 0 \<and> vpn0 (0x12340 + of_nat i) = 0x12
     \<and> (0x12340 + of_nat i) AND (PGSIZE - 1) = 0x340 + (of_nat i :: u64) \<and> \<not> VM_START \<le> 0x12340 + of_nat i"
proof -
  assume "i < 4"
  then have "i \<in> {..< 4}" by simp
  then consider "i = 0" | "i = 1" | "i = 2" | "i = 3" unfolding four by blast
  then show ?thesis
    by cases (simp_all add: vpn2_def vpn1_def vpn0_def PGSIZE_def VM_START_def)
qed

lemma shell_under: "under_shell shell_board shell_hart 0x12340 shell_page (shell_system ks)"
proof -
  let ?k = "shell_system ks"
  have "resolve perm (?k\<lparr>mem := m\<rparr>) (0x12340 + of_nat i) = Inr (shell_page i)"
    if m: "\<And>x. x \<notin> touched shell_board shell_hart shell_page \<Longrightarrow> m x = mem ?k x" and i: "i < 4"
      and perm: "perm = PERM_R \<or> perm = PERM_W" for perm m i
  proof -
    have rd: "rd64 m (slot (page_va q) j) = rd64 (leaf_mem program_entry) (slot (page_va q) j)"
      if "q \<in> {0, 1, 2}" "j < 512" for q j
    proof (rule rd64_page_frame [OF that(2)])
      show "m x = leaf_mem program_entry x" if "x - page_va q < 4096" for x
        using m [of x] touched_far [of x q] that \<open>q \<in> {0, 1, 2}\<close> by (auto simp: shell_system_def)
    qed
    have root: "page_root (?k\<lparr>mem := m\<rparr>) = page_va 0" using program_facts(1) [of ks] by (simp add: page_root_def)
    note a = program_addresses [OF i]
    have t: "rd64 m (slot (page_va 0) 0) = table_entry (page_va 1)" "rd64 m (slot (page_va 1) 0) = table_entry (page_va 2)"
      "rd64 m (slot (page_va 2) 0x12) = program_entry"
      using rd [of 0 0] rd [of 1 0] rd [of 2 "0x12"] leaf_rd [of 0, where e = program_entry]
        leaf_rd [of "0x12", where e = program_entry]
      by (simp_all del: One_nat_def)
    have e: "entry_table (table_entry (page_va 1)) = page_va 1" "entry_table (table_entry (page_va 2)) = page_va 2"
      using entry_table_entry [OF page_va_page(1,3)] by simp_all
    have "find_pte (page_va 0) (0x12340 + of_nat i) m = slot (page_va 2) 0x12"
      using a t e by (simp add: find_pte_def table_entry_valid)
    moreover have "slot (page_va 2) 0x12 \<noteq> 0" using slot_nonzero [of "page_va 2"] page_va_page [of 2] by simp
    ultimately show ?thesis
      using a t(3) perm program_facts root by (auto simp: resolve_def shell_page_def add.assoc)
  qed
  moreover have "inj_on shell_page {..< 4}" by (simp add: shell_page_def inj_on_def four)
  moreover have "char_slot shell_board \<notin> shell_page ` {..< 4}"
    by (simp add: four shell_page_def shell_slot shell_pages)
  moreover have "\<forall>x \<in> insert (char_slot shell_board) (shell_page ` {..< 4}). \<not> x - frame_at shell_hart < pt_regs_size"
    by (simp add: four shell_page_def shell_slot shell_pages shell_frame pt_regs_size_def VM_START_def)
  ultimately have "shell_memory shell_board shell_hart 0x12340 shell_page ?k"
    unfolding shell_memory_def by blast
  moreover have "running_files ?k (VM_START + 0x6000) demo_fds"
    by (simp add: running_files_def shell_system_def demo_task_def shell_pages VM_START_def)
  moreover have "length demo_fds = 16" "demo_fds ! 0 = stdin_file" "demo_fds ! 1 = stdout_file"
    by (simp_all add: demo_fds_def)
  ultimately show ?thesis
    unfolding under_shell_def console_files_def
    by (auto simp: stdin_file_def stdout_file_def zero_file_def FILE_READABLE_def FILE_WRITABLE_def intro!: exI)
qed

section \<open>A line on it\<close>

definition shell_calls :: "(u8 list \<times> u8 list, ram blk) system ecalls" where
  "shell_calls call fd a count k =
     (case program_ecall shell_board shell_hart 0x12340 call fd a count k of Inl _ \<Rightarrow> (0, [], k) | Inr r \<Rightarrow> r)"

interpretation tty: kernel_console shell_board shell_hart "0x12340" shell_page shell_calls fst snd
proof
  show "console_io (firmware shell_board) fst snd" by (simp add: shell_board_def tty_console)
  show "hart_wf shell_hart" by (simp add: hart_wf_def shell_hart_def)
  show "on_kernel shell_board shell_hart 0x12340 shell_calls" by (simp add: on_kernel_def shell_calls_def)
qed

definition shell_host :: "(u8 list \<times> u8 list, ram blk) system host" where
  "shell_host = \<lparr>calls = shell_calls, stale_char = 0, stale_arg = 0, stale_byte = (\<lambda>_. 0)\<rparr>"

definition typed :: "u8 list" where
  "typed = ascii ''cax'' @ [del] @ ascii ''t%''"

definition fresh_shell :: "(u8 list \<times> u8 list, ram blk) system shell" where
  "fresh_shell = \<lparr>string_buf = replicate 2048 0, out_buffer = replicate 1000 0, out_tail = 0,
     outside = shell_system typed, read_buf = [0, 0], line_buf = replicate 128 0, char_in_line = 0\<rparr>"

theorem shell_edits_line_witness:
  "\<exists>s'. shell_run shell_host 6 fresh_shell = Inr s' \<and> line_of s' = ascii ''cat%''
     \<and> snd (world (outside s')) = ascii ''cax'' @ wipe @ ascii ''t''"
proof -
  have ok: "shell_ok fresh_shell" by (simp add: shell_ok_def fresh_shell_def)
  have line: "line_of fresh_shell = []" by (simp add: line_of_def fresh_shell_def)
  have calls: "on_kernel shell_board shell_hart 0x12340 (calls shell_host)"
    using tty.ec by (simp add: shell_host_def)
  have under: "under_shell shell_board shell_hart 0x12340 shell_page (outside fresh_shell)"
    using shell_under by (simp add: fresh_shell_def)
  have keys: "fst (world (outside fresh_shell)) = typed @ []" by (simp add: fresh_shell_def shell_system_def)
  have ret: "0x0D \<notin> set typed" by code_simp
  have len: "length typed = 6" by code_simp
  have ed: "editor 128 [] typed = Some (ascii ''cat%'', ascii ''cax'' @ wipe @ ascii ''t'')" by code_simp
  have out: "snd (world (outside fresh_shell)) = []" by (simp add: fresh_shell_def shell_system_def)
  from shell_edits_line [OF tty.io tty.h calls under ok keys ret] show ?thesis
    unfolding line ed len out by auto
qed

end
