(* ===== verification/Kernel_Map.thy ===== *)
theory Kernel_Map
  imports Fork_Correct
begin

text \<open>
  The kernel's own page table. Its specification is a list of ranges, each with a virtual and a
  physical start, a size and the permissions; where ranges overlap the last one counts.
  \<open>setup_vm_final\<close> builds a table that translates every address as this list says.
\<close>

type_synonym range = "u64 \<times> u64 \<times> u64 \<times> u64"

definition pages_of :: "u64 \<Rightarrow> nat" where
  "pages_of sz = (unat sz + 4095) div 4096"

text \<open>The number of pages from \<open>va\<close> up to \<open>a\<close>, among the \<open>2 ^ 27\<close> pages a table can map.\<close>

definition page_distance :: "u64 \<Rightarrow> u64 \<Rightarrow> nat" where
  "page_distance va a = unat (take_bit 27 (drop_bit 12 a - drop_bit 12 va))"

fun range_entry :: "range \<Rightarrow> u64 \<Rightarrow> u64 option" where
  "range_entry (va, pa, sz, perm) a =
     (let i = page_distance va a
      in if i < pages_of sz then Some (leaf_entry (pa + of_nat (4096 * i)) perm) else None)"

definition overlay :: "range \<Rightarrow> (u64 \<Rightarrow> u64 option) \<Rightarrow> u64 \<Rightarrow> u64 option" where
  "overlay x f a = (case range_entry x a of None \<Rightarrow> f a | Some e \<Rightarrow> Some e)"

definition mapped :: "range list \<Rightarrow> u64 \<Rightarrow> u64 option" where
  "mapped xs = fold overlay xs (\<lambda>_. None)"

text \<open>The tables below the root that the ranges need, by their index paths.\<close>

fun range_tables :: "range \<Rightarrow> u64 list set" where
  "range_tables (va, pa, sz, perm) = (\<Union>i \<in> {..< pages_of sz}. prefixes (va + of_nat (4096 * i)))"

definition needed_tables :: "range list \<Rightarrow> u64 list set" where
  "needed_tables xs = (\<Union>x \<in> set xs. range_tables x)"

text \<open>
  The kernel's ranges: text, constants, data and bss with the permissions of their kind, the rest
  of memory for the allocator, the ramdisk once more with the right to execute, and the registers
  of the virtio devices.
\<close>

definition kernel_ranges :: "sections \<Rightarrow> range list" where
  "kernel_ranges k =
    [(stext k, VA2PA (stext k), etext k - stext k, PERM_A OR PERM_X OR PERM_R OR PERM_V),
     (srodata k, VA2PA (srodata k), erodata k - srodata k, PERM_A OR PERM_R OR PERM_V),
     (sdata k, VA2PA (sdata k), edata k - sdata k, PERM_A OR PERM_W OR PERM_R OR PERM_V),
     (sbss k, VA2PA (sbss k), ebss k - sbss k, PERM_A OR PERM_D OR PERM_W OR PERM_R OR PERM_V),
     (ekernel k, VA2PA (ekernel k), PHY_SIZE - (VA2PA (ekernel k) - PHY_START),
        PERM_A OR PERM_D OR PERM_W OR PERM_R OR PERM_V),
     (sramdisk k, VA2PA (sramdisk k), eramdisk k - sramdisk k,
        PERM_A OR PERM_R OR PERM_W OR PERM_X OR PERM_V),
     (io_to_virt VIRTIO_START, VIRTIO_START, VIRTIO_SIZE * VIRTIO_COUNT,
        PERM_A OR PERM_R OR PERM_W OR PERM_V)]"

fun range_ok :: "range \<Rightarrow> bool" where
  "range_ok (va, pa, sz, perm) \<longleftrightarrow> perm AND PERM_V \<noteq> 0 \<and> pages_of sz < 2 ^ 27"

section \<open>Pages of a range\<close>

lemma vpns_eq_iff: "vpns x = vpns y \<longleftrightarrow> take_bit 27 (drop_bit 12 x) = take_bit 27 (drop_bit 12 y)"
proof
  assume "vpns x = vpns y"
  then show "take_bit 27 (drop_bit 12 x) = take_bit 27 (drop_bit 12 y)"
    unfolding vpns_word by (simp add: vpns_def)
next
  assume eq: "take_bit 27 (drop_bit 12 x) = take_bit 27 (drop_bit 12 y)"
  have part: "vpn0 a = take_bit 9 (take_bit 27 (drop_bit 12 a))"
    "vpn1 a = take_bit 9 (drop_bit 9 (take_bit 27 (drop_bit 12 a)))"
    "vpn2 a = take_bit 9 (drop_bit 18 (take_bit 27 (drop_bit 12 a)))" for a
    unfolding vpn0_def vpn1_def vpn2_def mask_9
    by (auto intro!: bit_word_eqI simp: bit_simps ac_simps)
  show "vpns x = vpns y" unfolding vpns_def part eq by simp
qed

lemma mod_diff_iff: "0 \<le> i \<Longrightarrow> i < n \<Longrightarrow> (p - q) mod n = i \<longleftrightarrow> p mod n = (q + i) mod (n :: int)"
  by (metis add_diff_cancel_left' diff_add_cancel add.commute mod_diff_left_eq mod_add_right_eq mod_pos_pos_trivial)

lemma uint_page_add:
  assumes "i < 2 ^ 27"
  shows "uint (drop_bit 12 (va + of_nat (4096 * i) :: u64)) mod 2 ^ 27 = (uint (drop_bit 12 va) + int i) mod 2 ^ 27"
proof -
  have "unat (of_nat (4096 * i) :: u64) = 4096 * i" using assms by (intro unat_of_nat_small) simp
  then have "unat (va + of_nat (4096 * i)) = (unat va + 4096 * i) mod (4096 * 2 ^ 52)"
    by (simp only: unat_word_ariths) simp
  then have "unat (va + of_nat (4096 * i)) div 4096 mod 2 ^ 27 = (unat va + 4096 * i) div 4096 mod 2 ^ 52 mod 2 ^ 27"
    by (simp only: mod_mult_div)
  also have "\<dots> = (unat va div 4096 + i) mod 2 ^ 27" by (simp add: mod_mod_cancel add.commute)
  finally have "int (unat (va + of_nat (4096 * i)) div 4096 mod 2 ^ 27) = int ((unat va div 4096 + i) mod 2 ^ 27)"
    by (rule arg_cong)
  moreover have "uint (drop_bit 12 w) = int (unat w div 4096)" for w :: u64
    unfolding uint_nat by (simp add: drop_bit_eq_div unat_div)
  ultimately show ?thesis by (simp only: zmod_int of_nat_add) simp
qed

lemma page_distance_iff:
  assumes i: "i < 2 ^ 27"
  shows "vpns a = vpns (va + of_nat (4096 * i)) \<longleftrightarrow> page_distance va a = i"
proof -
  have uint_take: "uint (take_bit 27 w) = uint w mod 2 ^ 27" for w :: u64
    unfolding unsigned_take_bit_eq by (simp add: take_bit_eq_mod)
  have pages: "take_bit 27 v = take_bit 27 w \<longleftrightarrow> uint v mod 2 ^ 27 = uint w mod 2 ^ 27" for v w :: u64
    by (simp only: word_uint_eq_iff [of "take_bit 27 v"] uint_take)
  have "int (page_distance va a) = (uint (drop_bit 12 a) - uint (drop_bit 12 va)) mod 2 ^ 64 mod 2 ^ 27"
    unfolding page_distance_def uint_nat [symmetric] uint_take
    by (simp only: uint_word_ariths(2)) simp
  then have "int (page_distance va a) = (uint (drop_bit 12 a) - uint (drop_bit 12 va)) mod 2 ^ 27"
    by (simp add: mod_mod_cancel)
  then have "page_distance va a = i \<longleftrightarrow> (uint (drop_bit 12 a) - uint (drop_bit 12 va)) mod 2 ^ 27 = int i"
    by (metis of_nat_eq_iff)
  also have "\<dots> \<longleftrightarrow> uint (drop_bit 12 a) mod 2 ^ 27 = (uint (drop_bit 12 va) + int i) mod 2 ^ 27"
    by (rule mod_diff_iff) (use i in simp_all)
  finally show ?thesis by (simp only: vpns_eq_iff pages uint_page_add [OF i])
qed

section \<open>Mapping a list of ranges\<close>

fun map_range :: "u64 \<Rightarrow> range \<Rightarrow> machine \<Rightarrow> machine res" where
  "map_range r (va, pa, sz, perm) = create_mapping r va pa sz perm"

primrec map_ranges :: "u64 \<Rightarrow> range list \<Rightarrow> machine \<Rightarrow> machine res" where
  "map_ranges r [] s = Inr s"
| "map_ranges r (x # xs) s = bindr (map_range r x s) (map_ranges r xs)"

lemma pages_of_bounds: "unat sz \<le> 4096 * pages_of sz" "4096 * pages_of sz < unat sz + 4096"
  unfolding pages_of_def by linarith+

lemma map_range_ok:
  assumes good: "address_space K r s" and x: "range_ok x"
    and L: "finite L" "\<forall>l \<in> L. is_path l" "range_tables x \<subseteq> L"
    and left: "missing (mem s) r L \<le> free_pages_left K s"
  shows "\<exists>s'. map_range r x s = Inr s' \<and> kp.budget K r L s s'
    \<and> translate (mem s') r = overlay x (translate (mem s) r)"
proof -
  obtain va pa sz perm where xe: "x = (va, pa, sz, perm)" by (cases x)
  define n where "n = pages_of sz"
  have n: "unat sz \<le> 4096 * n" "4096 * n < unat sz + 4096" "n < 2 ^ 27" and perm: "perm AND PERM_V \<noteq> 0"
    using pages_of_bounds [of sz] x by (simp_all add: n_def xe)
  have pre: "\<And>i. i < n \<Longrightarrow> prefixes (va + of_nat (4096 * i)) \<subseteq> L"
    using L(3) by (auto simp: xe n_def)
  note map = kp.map_pages_budget [OF good [unfolded address_space_good] perm L(1,2) pre
    left [unfolded free_pages_room] n le0, of pa, simplified le0 simp_thms]
  obtain s' where s': "map_pages kalloc_page r va pa sz perm (of_nat (4096 * 0)) s = Inr s'" "kp.budget K r L s s'"
    "\<forall>i. i < n \<longrightarrow> translate (mem s') r (va + of_nat (4096 * i)) = Some (leaf_entry (pa + of_nat (4096 * i)) perm)"
    "\<forall>va'. (\<forall>i. i < n \<longrightarrow> vpns va' \<noteq> vpns (va + of_nat (4096 * i))) \<longrightarrow> translate (mem s') r va' = translate (mem s) r va'"
    using map by blast
  have "translate (mem s') r a = overlay x (translate (mem s) r) a" for a
  proof (cases "page_distance va a < n")
    case True
    then have same: "vpns a = vpns (va + of_nat (4096 * page_distance va a))"
      using n(3) page_distance_iff [of "page_distance va a" a va] by simp
    have "translate (mem s') r a = translate (mem s') r (va + of_nat (4096 * page_distance va a))"
      by (rule translate_cong [OF same])
    with True s'(3) show ?thesis by (simp add: overlay_def xe n_def)
  next
    case False
    then have "\<forall>i. i < n \<longrightarrow> vpns a \<noteq> vpns (va + of_nat (4096 * i))"
      using n(3) page_distance_iff by fastforce
    with s'(4) False show ?thesis by (simp add: overlay_def xe n_def)
  qed
  then show ?thesis
    using s'(1,2) by (auto simp: xe create_mapping_def create_mapping_with_def)
qed

lemma map_ranges_ok:
  assumes "address_space K r s" and "\<forall>x \<in> set xs. range_ok x"
    and L: "finite L" "\<forall>l \<in> L. is_path l" and "needed_tables xs \<subseteq> L"
    and "missing (mem s) r L \<le> free_pages_left K s"
  shows "\<exists>s'. map_ranges r xs s = Inr s' \<and> kp.budget K r L s s'
    \<and> translate (mem s') r = fold overlay xs (translate (mem s) r)"
  using assms(1,2,5,6)
proof (induction xs arbitrary: s)
  case Nil
  then have "kp.good K r s" by (simp add: address_space_good)
  then show ?case using kp.budget_zero [OF kp.extends_refl L] by simp
next
  case (Cons x xs)
  have x: "range_ok x" "range_tables x \<subseteq> L" "\<forall>x \<in> set xs. range_ok x" "needed_tables xs \<subseteq> L"
    using Cons.prems(2,3) by (auto simp: needed_tables_def)
  obtain s1 where s1: "map_range r x s = Inr s1" "kp.budget K r L s s1"
    "translate (mem s1) r = overlay x (translate (mem s) r)"
    using map_range_ok [OF Cons.prems(1) x(1) L x(2) Cons.prems(4)] by blast
  have "address_space K r s1" "missing (mem s1) r L \<le> free_pages_left K s1"
    using kp.budget_room [OF s1(2)] Cons.prems(4)
    unfolding address_space_good free_pages_room by blast+
  then obtain s' where "map_ranges r xs s1 = Inr s'" "kp.budget K r L s1 s'"
    "translate (mem s') r = fold overlay xs (translate (mem s1) r)"
    using Cons.IH x(3,4) by blast
  with s1 show ?case using kp.budget_trans [OF s1(2)] by auto
qed

lemma setup_vm_final_ranges:
  "setup_vm_final k swapper s =
     bindr (map_ranges swapper (kernel_ranges k) (s\<lparr>mem := memset swapper 0 PGSIZE (mem s)\<rparr>))
       (\<lambda>s. Inr (push_bit 60 8 OR (drop_bit 12 (VA2PA swapper) AND PPN_MASK), s))"
  by (simp add: setup_vm_final_def kernel_ranges_def VA2PA_def bindr_assoc Let_def)

section \<open>The table that paging is switched on with\<close>

lemma satp_root:
  assumes "page_aligned t" "t - PA2VA_OFFSET < 2 ^ 56"
  defines "root \<equiv> push_bit 60 8 OR (drop_bit 12 (VA2PA t) AND PPN_MASK)"
  shows "push_bit 12 (root AND PPN_MASK) + PA2VA_OFFSET = t" "drop_bit 60 root = 8"
proof -
  have M: "PPN_MASK = mask 44" by (simp add: layout mask_eq_decr_exp)
  have "root AND PPN_MASK = take_bit 44 (drop_bit 12 (VA2PA t))"
    unfolding root_def M take_bit_eq_mask [symmetric] take_bit_or by (simp add: take_bit_push_bit)
  moreover have "drop_bit 10 (table_entry t) AND PPN_MASK = take_bit 44 (drop_bit 12 (VA2PA t))"
    unfolding table_entry_def M PERM_V_def VA2PA_def by (rule bit_word_eqI) (auto simp: bit_simps)
  ultimately have "push_bit 12 (root AND PPN_MASK) + PA2VA_OFFSET = entry_table (table_entry t)"
    by (simp add: entry_table_def)
  then show "push_bit 12 (root AND PPN_MASK) + PA2VA_OFFSET = t"
    using entry_table_entry [OF assms(1,2)] by simp
  have "drop_bit 60 (drop_bit 12 (VA2PA t) AND PPN_MASK) = 0"
    unfolding M by (rule bit_word_eqI) (auto simp: bit_simps)
  then show "drop_bit 60 root = 8" by (simp add: root_def drop_bit_or)
qed

text \<open>Clearing the root page leaves an address space without tables below the root.\<close>

lemma cleared_root:
  assumes ok: "alloc_ok K s" and r: "r \<in> used_pages K s"
    and cl: "clean (page_pool K) (mem s) (used_pages K s)"
  defines "s' \<equiv> s\<lparr>mem := memset r 0 PGSIZE (mem s)\<rparr>"
  shows "address_space K r s'" "translate (mem s') r a = None" "tables (mem s') r = {r}"
proof -
  have ra: "page_aligned r" and r0: "r \<noteq> 0" using kp.used_page [OF ok] r by auto
  have m: "mem s' x = (if x - r < 4096 then 0 else mem s x)" for x
    by (simp add: s'_def memset_eq PGSIZE_def)
  have zero: "rd64 (mem s') (slot r i) = 0" if i: "i < 512" for i
  proof (rule rd64_zeros)
    fix j :: nat assume "j < 8"
    then have "unat (slot r i + of_nat j - r) < 4096"
      using slot_byte [OF i, of j r] i by (simp add: word_less_nat_alt)
    then show "mem s' (slot r i + of_nat j) = 0" by (simp add: m word_less_nat_alt)
  qed
  then have root: "sub_table (mem s') r i = None" if "i < 512" for i
    using that by (simp add: sub_table_def)
  have tab: "table_at (mem s') r l = (if l = [] then Some r else None)" if "is_path l" for l
    using that root by (cases l) (simp_all add: is_path_def)
  then have wf: "wf_pt (mem s') r (used_pages K s)"
    using r unfolding wf_pt_def by (auto split: if_splits)
  have "clean (page_pool K) (mem s') (used_pages K s)"
    unfolding clean_def
  proof (intro ballI allI impI)
    fix p i assume p: "p \<in> page_pool K - used_pages K s" and i: "(i :: u64) < 512"
    have "page_aligned p" "p \<noteq> r" using p r kp.pool_page [of p K] by auto
    then have "rd64 (mem s') (slot p i) = rd64 (mem s) (slot p i)"
      using page_bytes_apart [of p r] ra by (intro rd64_page_frame [OF i]) (simp add: m)
    then show "sub_table (mem s') p i = None" using cl p i by (simp add: clean_def sub_table_def)
  qed
  then show "address_space K r s'"
    using ok wf by (simp add: address_space_def s'_def alloc_ok_def used_pages_def)
  show "translate (mem s') r a = None"
    using translate_eq [OF wf kp.used_page [OF ok], of a] tab [of "[vpn2 a, vpn1 a]"]
    by (simp add: is_path_def del: table_at.simps)
  have "is_path []" by (simp add: is_path_def)
  then show "tables (mem s') r = {r}" unfolding tables_def by (auto simp: tab split: if_splits intro!: exI [of _ "[]"])
qed

lemma needed_tables_paths: "finite (needed_tables xs)" "\<forall>l \<in> needed_tables xs. is_path l"
proof -
  have "finite (range_tables x) \<and> (\<forall>l \<in> range_tables x. is_path l)" for x
    using prefixes_path by (cases x) (auto simp: prefixes_def)
  then show "finite (needed_tables xs)" "\<forall>l \<in> needed_tables xs. is_path l"
    by (auto simp: needed_tables_def)
qed

lemma setup_vm_final_aux:
  assumes "alloc_ok K s" and "swapper \<in> used_pages K s"
    and "clean (page_pool K) (mem s) (used_pages K s)"
    and "\<forall>x \<in> set (kernel_ranges k). range_ok x"
    and "card (needed_tables (kernel_ranges k)) \<le> free_pages_left K s"
  shows "\<exists>root s'. setup_vm_final k swapper s = Inr (root, s') \<and> address_space K swapper s'
    \<and> (\<forall>va. translate (mem s') swapper va = mapped (kernel_ranges k) va)
    \<and> push_bit 12 (root AND PPN_MASK) + PA2VA_OFFSET = swapper \<and> drop_bit 60 root = 8
    \<and> free_pages_left K s \<le> free_pages_left K s' + card (needed_tables (kernel_ranges k))
    \<and> (\<forall>x. (\<forall>t \<in> tables (mem s') swapper. \<not> x - t < 4096) \<longrightarrow> mem s' x = mem s x)
    \<and> used_pages K s \<subseteq> used_pages K s'
    \<and> tables (mem s') swapper \<subseteq> insert swapper (used_pages K s' - used_pages K s)"
proof -
  define L where "L = needed_tables (kernel_ranges k)"
  define s0 where "s0 = s\<lparr>mem := memset swapper 0 PGSIZE (mem s)\<rparr>"
  note c = cleared_root [OF assms(1-3), folded s0_def]
  note L = needed_tables_paths [of "kernel_ranges k", folded L_def]
  have left0: "free_pages_left K s0 = free_pages_left K s"
    by (simp add: free_pages_left_def used_pages_def s0_def)
  have miss: "missing (mem s0) swapper L \<le> card L"
    unfolding missing_def using L(1) by (intro card_mono) auto
  then have left: "missing (mem s0) swapper L \<le> free_pages_left K s0"
    using assms(5) left0 by (simp add: L_def)
  obtain s' where s': "map_ranges swapper (kernel_ranges k) s0 = Inr s'" "kp.budget K swapper L s0 s'"
    "translate (mem s') swapper = fold overlay (kernel_ranges k) (translate (mem s0) swapper)"
    using map_ranges_ok [OF c(1) assms(4) L _ left] unfolding L_def by blast
  have ext: "kp.extends K swapper s0 s' (card L)" by (rule kp.budget_extends [OF s'(2) miss])
  have run: "setup_vm_final k swapper s = Inr (push_bit 60 8 OR (drop_bit 12 (VA2PA swapper) AND PPN_MASK), s')"
    using s'(1) by (simp add: setup_vm_final_ranges s0_def)
  have "mem s' x = mem s x" if x: "\<forall>t \<in> tables (mem s') swapper. \<not> x - t < 4096" for x
  proof -
    have "swapper \<in> tables (mem s') swapper"
      unfolding tables_def by (auto intro: exI [of _ "[]"] simp: is_path_def)
    then have "mem s0 x = mem s x" using x by (simp add: s0_def memset_eq PGSIZE_def)
    then show ?thesis using ext x by (simp add: kp.extends_def)
  qed
  moreover have "translate (mem s') swapper va = mapped (kernel_ranges k) va" for va
    unfolding s'(3) mapped_def using c(2) by presburger
  moreover have "page_aligned swapper" "swapper - PA2VA_OFFSET < 2 ^ 56"
    using assms(1,2) kp.used_pool kp.pool_page by blast+
  moreover have "used_pages K s0 = used_pages K s" by (simp add: used_pages_def s0_def)
  ultimately show ?thesis
    using run ext satp_root [of swapper] left0 c(3)
    by (simp add: kp.extends_def address_space_good free_pages_room L_def)
qed

text \<open>
  C12: \<open>setup_vm_final\<close> builds the kernel's page table. If there are as many free pages as the
  kernel's ranges need tables, it succeeds; the table is a well-formed address space that
  translates every virtual address exactly as the list of ranges says, the value for \<^verbatim>\<open>satp\<close>
  selects Sv39 and leads to this table, and memory outside its tables is as before.
\<close>

theorem setup_vm_final_maps:
  assumes "alloc_ok K s" and "swapper \<in> used_pages K s"
    and "clean (page_pool K) (mem s) (used_pages K s)"
    and "\<forall>x \<in> set (kernel_ranges k). range_ok x"
    and "card (needed_tables (kernel_ranges k)) \<le> free_pages_left K s"
  shows "\<exists>root s'. setup_vm_final k swapper s = Inr (root, s') \<and> address_space K swapper s'
    \<and> (\<forall>va. translate (mem s') swapper va = mapped (kernel_ranges k) va)
    \<and> push_bit 12 (root AND PPN_MASK) + PA2VA_OFFSET = swapper \<and> drop_bit 60 root = 8
    \<and> free_pages_left K s \<le> free_pages_left K s' + card (needed_tables (kernel_ranges k))
    \<and> (\<forall>x. (\<forall>t \<in> tables (mem s') swapper. \<not> x - t < 4096) \<longrightarrow> mem s' x = mem s x)"
  using setup_vm_final_aux [OF assms] by blast

end
