(* ===== verification/Kernel_Map_Witness.thy ===== *)
theory Kernel_Map_Witness
  imports Kernel_Map Vm_Witness
begin

text \<open>
  A small kernel image: five pages of sections at the start of memory, the last page of memory
  left over, and the ramdisk in that page.
\<close>

definition small_image :: sections where
  "small_image = \<lparr>stext = VM_START, etext = VM_START + 0x2000, srodata = VM_START + 0x2000,
     erodata = VM_START + 0x3000, sdata = VM_START + 0x3000, edata = VM_START + 0x3800,
     sbss = VM_START + 0x4000, ebss = VM_START + 0x5000, ekernel = VM_START + 0x7fff000,
     sramdisk = VM_START + 0x7fff000, eramdisk = VM_START + 0x7fff800\<rparr>"

lemma small_ranges:
  "kernel_ranges small_image =
    [(0xffffffe000000000, 0x80000000, 0x2000, 0x4b), (0xffffffe000002000, 0x80002000, 0x1000, 0x43),
     (0xffffffe000003000, 0x80003000, 0x800, 0x47), (0xffffffe000004000, 0x80004000, 0x1000, 0xc7),
     (0xffffffe007fff000, 0x87fff000, 0x1000, 0xc7), (0xffffffe007fff000, 0x87fff000, 0x800, 0x4f),
     (0xffffffc810001000, 0x10001000, 0x8000, 0x47)]"
  by (simp add: kernel_ranges_def small_image_def VA2PA_def layout io_to_virt_def VIRTIO_START_def
      VIRTIO_SIZE_def VIRTIO_COUNT_def IOMAP_OFFSET_def)

lemma less_2: "{0 ..< 2} = {0, 1 :: nat}"
  by auto

lemma small_pages: "pages_of 0x800 = 1" "pages_of 0x1000 = 1" "pages_of 0x2000 = 2" "pages_of 0x8000 = 8"
  by (simp_all add: pages_of_def)

lemma small_image_ranges: "\<forall>x \<in> set (kernel_ranges small_image). range_ok x"
  by (simp add: small_ranges small_pages PERM_V_def)

lemma small_image_tables:
  "needed_tables (kernel_ranges small_image) \<subseteq> {[0x180], [0x180, 0], [0x180, 0x3f], [0x120], [0x120, 0x80]}"
  unfolding needed_tables_def small_ranges
  by (simp add: small_pages lessThan_atLeast0 less_8 less_2 prefixes_def vpn1_def vpn2_def)

lemma small_image_translation:
  "mapped (kernel_ranges small_image) 0xffffffe000001234 = Some (leaf_entry 0x80001000 0x4b)"
  "mapped (kernel_ranges small_image) 0xffffffe007fff010 = Some (leaf_entry 0x87fff000 0x4f)"
  "mapped (kernel_ranges small_image) 0xffffffc810001010 = Some (leaf_entry 0x10001000 0x47)"
  "mapped (kernel_ranges small_image) 0x1000 = None"
  unfolding mapped_def small_ranges by (simp_all add: overlay_def page_distance_def small_pages mask_eq_exp_minus_1)

theorem setup_vm_final_maps_witness:
  "\<exists>root s'. setup_vm_final small_image (page_va 0) start_space = Inr (root, s')
     \<and> translate (mem s') (page_va 0) 0xffffffe000001234 = Some (leaf_entry 0x80001000 0x4b)
     \<and> translate (mem s') (page_va 0) 0xffffffe007fff010 = Some (leaf_entry 0x87fff000 0x4f)
     \<and> translate (mem s') (page_va 0) 0xffffffc810001010 = Some (leaf_entry 0x10001000 0x47)
     \<and> translate (mem s') (page_va 0) 0x1000 = None"
proof -
  have "alloc_ok 3 start_space" "clean (page_pool 3) (mem start_space) (used_pages 3 start_space)"
    using start_ok by (simp_all add: address_space_def)
  moreover have "page_va 0 \<in> used_pages 3 start_space"
    by (simp add: used_pages_def start_space_def eight_in_use)
  moreover have "card (needed_tables (kernel_ranges small_image)) \<le> free_pages_left 3 start_space"
    using card_mono [OF _ small_image_tables] by (simp add: start_left)
  ultimately show ?thesis
    using setup_vm_final_maps [of 3 start_space "page_va 0" small_image] small_image_ranges
      small_image_translation by metis
qed

end
