(* ===== verification/Bring_Up.thy ===== *)
theory Bring_Up
  imports Files Virtio Console_Props Vm
begin

text \<open>
  Bringing up the disk: the last part of \<^verbatim>\<open>fs/virtio.c\<close>, which finds the device and starts it, and the
  partition scan of \<^verbatim>\<open>fs/mbr.c\<close>, with the messages they print.
\<close>

definition message :: "string \<Rightarrow> u8 list" where
  "message s = ascii s @ [0x0A]"

definition say :: "'w platform \<Rightarrow> u8 list \<Rightarrow> ('w, 'a) hosted_scheme \<Rightarrow> ('w, 'a) hosted_scheme res" where
  "say p s k = bindr (printk p s [] k) (\<lambda>(_, k). Inr k)"

section \<open>The device\<close>

definition with_disk :: "'d \<Rightarrow> ('w, 'd, 'a) system_scheme \<Rightarrow> ('w, 'd, 'a) system_scheme" where
  "with_disk d k = k\<lparr>fs := (fs k)\<lparr>disk := d\<rparr>\<rparr>"

text \<open>\<open>buf\<close> is the address of the local sector buffer.\<close>

definition virtio_blk_init ::
  "'w platform \<Rightarrow> 'h blk_device \<Rightarrow> u64 \<Rightarrow> ('w, 'h blk, 'a) system_scheme \<Rightarrow> ('w, 'h blk, 'a) system_scheme res" where
  "virtio_blk_init p dev buf k =
     bindr (virtio_blk_driver_init (disk (fs k))) (\<lambda>s.
     bindr (virtio_blk_feature_init s) (\<lambda>s.
     bindr (virtio_blk_config_init s) (\<lambda>capacity.
     bindr (virtio_blk_queue_init (machine_of k, s)) (\<lambda>(m, s).
     bindr (virtio_blk_read_sector dev 0 buf s) (\<lambda>s.
     if dma s (virt_to_phys buf + 510) \<noteq> 0x55 \<or> dma s (virt_to_phys buf + 511) \<noteq> 0xaa
     then Inl Panic
     else say p (message ''...virtio_blk_init done!'') (with_disk s (with_machine m k)))))))"

definition virtio_dev_init ::
  "'w platform \<Rightarrow> 'h blk_device \<Rightarrow> u64 \<Rightarrow> ('w, 'h blk, 'a) system_scheme \<Rightarrow> ('w, 'h blk, 'a) system_scheme res" where
  "virtio_dev_init p dev buf k =
     bindr (for_range 0 VIRTIO_COUNT (\<lambda>i. virtio_dev_test (io_to_virt (VIRTIO_START + i * VIRTIO_SIZE)))
       (disk (fs k))) (\<lambda>s.
     if virtio_blk_regs s \<noteq> 0 then virtio_blk_init p dev buf (with_disk s k) else Inr (with_disk s k))"

section \<open>The partitions\<close>

definition partition_init ::
  "'w platform \<Rightarrow> 'd sector_io \<Rightarrow> u32 \<Rightarrow> u64 \<Rightarrow> u64 \<Rightarrow> ('w, 'd, 'a) system_scheme
   \<Rightarrow> ('w, 'd, 'a) system_scheme res" where
  "partition_init p io partion_number start_lba sectors k =
     bindr (is_fat32 io start_lba (fs k)) (\<lambda>(yes, f).
     if yes \<noteq> 0
     then bindr (fat32_init io start_lba sectors f) (\<lambda>f.
          bindr (printk p (message ''...fat32 partition #%d init done!'') [scast partion_number] (k\<lparr>fs := f\<rparr>))
            (\<lambda>(_, k). Inr k))
     else Inr (k\<lparr>fs := f\<rparr>))"

text \<open>The table is in a buffer of its own, so what \<^verbatim>\<open>partition_init\<close> reads does not change it.\<close>

definition mbr_init ::
  "'w platform \<Rightarrow> 'd sector_io \<Rightarrow> ('w, 'd, 'a) system_scheme \<Rightarrow> ('w, 'd, 'a) system_scheme res" where
  "mbr_init p io k =
     bindr (read_sector io 0 (disk (fs k))) (\<lambda>(bs, d).
     for_range 0 4 (\<lambda>i k.
       bindr (aget (partition_table (mbr_of bs)) (i :: u32)) (\<lambda>e.
       if pe_type e = 0x83
       then partition_init p io (i + 1) (ucast (lba_first_sector e)) (ucast (sector_count e)) k
       else Inr k)) (with_disk d k))"

section \<open>Messages\<close>

lemma say_world:
  assumes "console_out p out" "0x25 \<notin> set cs"
  shows "\<exists>w. say p cs k = Inr (k\<lparr>world := w\<rparr>) \<and> out w = out (world k) @ cs"
  using printk_plain [OF assms, of "[]" k] by (auto simp: say_def)

lemma with_disk_simps [simp]: "disk (fs (with_disk d k)) = d" "fat32_volume (fs (with_disk d k)) = fat32_volume (fs k)"
  "world (with_disk d k) = world k" "machine_of (with_disk d k) = machine_of k"
  by (simp_all add: with_disk_def machine_of_def)

lemma vprintfmt_decimal:
  assumes "0x25 \<notin> set cs" "0x25 \<notin> set ds"
  shows "\<exists>n. vprintfmt ptr (cs @ [0x25, 0x64] @ ds) [a] m
    = Inr (cs @ fst (print_dec_int (int_of a) True fresh_flags) @ ds, n, m)"
proof -
  have f: "\<not> in_format no_flags" "in_format fresh_flags" "\<not> longflag fresh_flags"
    by (simp_all add: no_flags_def fresh_flags_def)
  show ?thesis
    unfolding vprintfmt_def plain_prefix [OF assms(1) f(1)]
    using assms(2) f
    by (simp add: conversion_def va_arg_def vprintfmt_loop_plain case_prod_beta Let_def)
qed

text \<open>What \<^verbatim>\<open>partition_init\<close> prints for the partition with index \<open>i\<close>.\<close>

definition partition_message :: "nat \<Rightarrow> u8 list" where
  "partition_message i = ascii ''...fat32 partition #'' @ [0x31 + of_nat i] @ message '' init done!''"

lemma partition_text:
  assumes "i < 4"
  shows "\<exists>n. vprintfmt ptr (message ''...fat32 partition #%d init done!'') [scast (of_nat i + 1 :: u32)] m
    = Inr (partition_message i, n, m)"
proof -
  have "message ''...fat32 partition #%d init done!''
      = ascii ''...fat32 partition #'' @ [0x25, 0x64] @ message '' init done!''"
    "0x25 \<notin> set (ascii ''...fat32 partition #'')" "0x25 \<notin> set (message '' init done!'')"
    by code_simp+
  moreover have "fst (print_dec_int (int_of (scast (of_nat i + 1 :: u32))) True fresh_flags) = [0x31 + of_nat i]"
  proof -
    have "\<forall>i \<in> set [0, 1, 2, 3]. fst (print_dec_int (int_of (scast (of_nat i + 1 :: u32))) True fresh_flags)
        = [0x31 + of_nat i]"
      by code_simp
    moreover have "i \<in> set [0, 1, 2, 3]" using assms by auto
    ultimately show ?thesis by blast
  qed
  ultimately show ?thesis
    using vprintfmt_decimal unfolding partition_message_def by metis
qed

lemma partition_printed:
  assumes "console_out p out" "i < 4"
  shows "\<exists>n w. printk p (message ''...fat32 partition #%d init done!'') [scast (of_nat i + 1 :: u32)] k
    = Inr (n, k\<lparr>world := w\<rparr>) \<and> out w = out (world k) @ partition_message i"
proof -
  obtain n where "vprintfmt kernel_pointers (message ''...fat32 partition #%d init done!'')
      [scast (of_nat i + 1 :: u32)] k = Inr (partition_message i, n, k)"
    using partition_text [OF assms(2)] ..
  then have "printk p (message ''...fat32 partition #%d init done!'') [scast (of_nat i + 1 :: u32)] k
      = Inr (n, fold (putc p) (partition_message i) k)"
    by (simp only: printk_def bindr_Inr prod.case)
  moreover obtain w where "fold (putc p) (partition_message i) k = k\<lparr>world := w\<rparr>"
    "out w = out (world k) @ partition_message i"
    using putc_all [OF assms(1)] by blast
  ultimately show ?thesis by (intro exI [of _ n] exI [of _ w]) (simp only:)
qed

end
