(* ===== verification/Early_Table.thy ===== *)
theory Early_Table
  imports Bring_Up
begin

text \<open>
  The first page table: \<^verbatim>\<open>setup_vm\<close> of \<^verbatim>\<open>arch/riscv/kernel/vm.c\<close> with the line it prints, and the
  switch to it, \<^verbatim>\<open>relocate\<close> of \<^verbatim>\<open>head.S\<close>. Until \<^verbatim>\<open>setup_vm_final\<close> the kernel runs on this table, so the
  switch goes on only when the table translates the addresses of the code.
\<close>

section \<open>Filling the table\<close>

text \<open>
  \<^verbatim>\<open>setup_vm\<close> maps gigabyte pages; its counter advances by \<open>huge_page\<close> and stops below
  \<open>PHY_SIZE\<close>, which is less than one such page.
\<close>

definition huge_page :: u64 where "huge_page = 0x40000000"

function setup_vm_loop ::
  "'w platform \<Rightarrow> u64 \<Rightarrow> u64 list \<Rightarrow> ('w, 'a) hosted_scheme \<Rightarrow> (u64 list \<times> ('w, 'a) hosted_scheme) res" where
  "setup_vm_loop p i early_pgtbl k =
     (if i < PHY_SIZE
      then let identity_vpn = drop_bit 30 (PHY_START + i) AND 0x1ff;
               direct_map_vpn = drop_bit 30 (VM_START + i) AND 0x1ff
           in bindr (printk p (message ''id vpn: %lx, %ld, dm vpn: %lx, %ld, pte: %lx'')
                       [identity_vpn, identity_vpn, direct_map_vpn, direct_map_vpn, create_pte (PHY_START + i)] k) (\<lambda>(_, k).
              bindr (aset early_pgtbl direct_map_vpn (create_pte (PHY_START + i))) (\<lambda>early_pgtbl.
              setup_vm_loop p (i + huge_page) early_pgtbl k))
      else Inr (early_pgtbl, k))"
  by pat_completeness auto
termination
proof (relation "measure (\<lambda>(_, i, _). 0x8000000 - unat i)", simp, clarsimp)
  fix i :: u64
  assume "i < PHY_SIZE"
  then have "unat i < 0x8000000" by (simp add: layout word_less_nat_alt)
  then show "0x8000000 - unat (i + huge_page) < 0x8000000 - unat i"
    by (simp add: huge_page_def unat_word_ariths)
qed

declare setup_vm_loop.simps [simp del]

definition setup_vm ::
  "'w platform \<Rightarrow> u64 list \<Rightarrow> ('w, 'a) hosted_scheme \<Rightarrow> (u64 list \<times> ('w, 'a) hosted_scheme) res" where
  "setup_vm p early_pgtbl k = setup_vm_loop p 0 early_pgtbl k"

section \<open>Switching to it\<close>

text \<open>
  The hart's translation through a root table of gigabyte pages (Sv39): bits 38 to 63 of the
  address are equal, the entry is valid with the permissions asked for, not a user page, accessed, and its
  physical address is a multiple of the page.
\<close>

definition gigapage :: "u64 list \<Rightarrow> u64 \<Rightarrow> u64 \<Rightarrow> u64 option" where
  "gigapage tbl perm va =
     (let e = tbl ! unat (vpn2 va);
          need = perm OR PERM_V OR PERM_A;
          base = push_bit 12 (drop_bit 10 e AND PPN_MASK)
      in if drop_bit 38 va \<in> {0, mask 26} \<and> e AND need = need \<and> e AND PERM_U = 0 \<and> base AND 0x3fffffff = 0
         then Some (base + (va AND 0x3fffffff)) else None)"

text \<open>
  \<^verbatim>\<open>relocate\<close>, called at physical addresses: \<open>early_pgtbl\<close> is the table's, \<open>tmp_stvec\<close> that of the
  \<^verbatim>\<open>ret\<close> and \<open>ra\<close> the return address. When \<^verbatim>\<open>satp\<close> names the table, the fetch of the \<^verbatim>\<open>ret\<close> is
  translated; if it is not mapped, the page fault goes to \<^verbatim>\<open>stvec\<close>, the same instruction in the direct
  map. A hart that cannot fetch there faults for ever, and so does one that cannot fetch where
  \<^verbatim>\<open>ret\<close> goes.
\<close>

definition relocate ::
  "u64 \<Rightarrow> u64 \<Rightarrow> u64 \<Rightarrow> u64 list \<Rightarrow> 'a kernel_scheme \<Rightarrow> 'a kernel_scheme res" where
  "relocate early_pgtbl tmp_stvec ra tbl k =
     (let stvec = tmp_stvec + PA2VA_OFFSET;
          ra' = ra + PA2VA_OFFSET;
          k = k\<lparr>satp := drop_bit 12 early_pgtbl OR push_bit 60 8\<rparr>;
          fetch = (\<lambda>va. if drop_bit 60 (satp k) = 8 \<and> push_bit 12 (satp k AND PPN_MASK) = early_pgtbl
                        then gigapage tbl PERM_X va else None);
          (at, k) = (case fetch tmp_stvec of
                       Some pa \<Rightarrow> (Some pa, k)
                     | None \<Rightarrow> (fetch stvec, k\<lparr>scause := 12, stval := tmp_stvec\<rparr>))
      in if at = Some tmp_stvec \<and> fetch ra' = Some ra then Inr k else Inl No_Return)"

section \<open>What it prints and what it maps\<close>

text \<open>A format that prints \<open>cs\<close>, wherever in a format it stands.\<close>

definition prints :: "'m pointers \<Rightarrow> u8 list \<Rightarrow> u64 list \<Rightarrow> u8 list \<Rightarrow> bool" where
  "prints ptr fmt vl cs \<longleftrightarrow> (\<forall>flags written out m. \<not> in_format flags
     \<longrightarrow> (\<exists>n. vprintfmt_loop ptr flags fmt vl written out m = Inr (out @ cs, n, m)))"

abbreviation long_flags :: fmt_flags where
  "long_flags \<equiv> fresh_flags\<lparr>longflag := True\<rparr>"

lemma prints_plain: "0x25 \<notin> set cs \<Longrightarrow> prints ptr cs vl cs"
  by (simp add: prints_def vprintfmt_loop_plain)

lemma print_hex_from: "fst (print_hex c num flags written) = fst (print_hex c num flags 0)"
  by (simp only: print_hex_chars)

lemma prints_long:
  assumes "0x25 \<notin> set cs" "prints ptr fmt vl ds"
  shows "prints ptr (cs @ [0x25, 0x6C, 0x64] @ fmt) (a # vl) (cs @ fst (print_dec_int a True long_flags) @ ds)"
    and "prints ptr (cs @ [0x25, 0x6C, 0x78] @ fmt) (a # vl) (cs @ fst (print_hex 0x78 a long_flags 0) @ ds)"
proof -
  have f: "in_format fresh_flags" "in_format long_flags" "longflag long_flags" by (simp_all add: fresh_flags_def)
  have step: "vprintfmt_loop ptr flags ([0x25, 0x6C, 0x64] @ fmt) (a # vl) written out m
      = vprintfmt_loop ptr (long_flags\<lparr>in_format := False\<rparr>) fmt vl
          (written + snd (print_dec_int a True long_flags)) (out @ fst (print_dec_int a True long_flags)) m"
    "vprintfmt_loop ptr flags ([0x25, 0x6C, 0x78] @ fmt) (a # vl) written out m
      = vprintfmt_loop ptr (long_flags\<lparr>in_format := False\<rparr>) fmt vl
          (snd (print_hex 0x78 a long_flags written)) (out @ fst (print_hex 0x78 a long_flags 0)) m"
    if "\<not> in_format flags" for flags written out m
    using that f by (simp_all add: conversion_def va_arg_def print_hex_from [of _ _ _ written] case_prod_beta Let_def)
  have rest: "\<exists>n. vprintfmt_loop ptr (long_flags\<lparr>in_format := False\<rparr>) fmt vl written out m = Inr (out @ ds, n, m)"
    for written out m using assms(2) by (simp add: prints_def)
  have "\<exists>n. vprintfmt_loop ptr flags (cs @ [0x25, 0x6C, 0x64] @ fmt) (a # vl) written out m
      = Inr (out @ cs @ fst (print_dec_int a True long_flags) @ ds, n, m)"
    "\<exists>n. vprintfmt_loop ptr flags (cs @ [0x25, 0x6C, 0x78] @ fmt) (a # vl) written out m
      = Inr (out @ cs @ fst (print_hex 0x78 a long_flags 0) @ ds, n, m)"
    if "\<not> in_format flags" for flags written out m
    using rest [of _ "out @ cs @ fst (print_dec_int a True long_flags)" m]
      rest [of _ "out @ cs @ fst (print_hex 0x78 a long_flags 0)" m]
    by (simp_all only: plain_prefix [OF assms(1) that] step [OF that] append_assoc)
  then show "prints ptr (cs @ [0x25, 0x6C, 0x64] @ fmt) (a # vl) (cs @ fst (print_dec_int a True long_flags) @ ds)"
    "prints ptr (cs @ [0x25, 0x6C, 0x78] @ fmt) (a # vl) (cs @ fst (print_hex 0x78 a long_flags 0) @ ds)"
    unfolding prints_def by blast+
qed

definition early_message :: "u8 list" where
  "early_message = message ''id vpn: 2, 2, dm vpn: 180, 384, pte: 200000cf''"

lemma early_text: "prints ptr (message ''id vpn: %lx, %ld, dm vpn: %lx, %ld, pte: %lx'') [2, 2, 384, 384, 0x200000CF] early_message"
proof -
  have m: "message ''id vpn: %lx, %ld, dm vpn: %lx, %ld, pte: %lx''
      = ascii ''id vpn: '' @ [0x25, 0x6C, 0x78] @ ascii '', '' @ [0x25, 0x6C, 0x64]
        @ ascii '', dm vpn: '' @ [0x25, 0x6C, 0x78] @ ascii '', '' @ [0x25, 0x6C, 0x64]
        @ ascii '', pte: '' @ [0x25, 0x6C, 0x78] @ [0x0A]"
    by code_simp
  have t: "early_message = ascii ''id vpn: '' @ fst (print_hex 0x78 2 long_flags 0) @ ascii '', ''
        @ fst (print_dec_int 2 True long_flags) @ ascii '', dm vpn: '' @ fst (print_hex 0x78 384 long_flags 0)
        @ ascii '', '' @ fst (print_dec_int 384 True long_flags) @ ascii '', pte: ''
        @ fst (print_hex 0x78 0x200000CF long_flags 0) @ [0x0A]"
    by code_simp
  have plain: "0x25 \<notin> set (ascii ''id vpn: '')" "0x25 \<notin> set (ascii '', '')" "0x25 \<notin> set (ascii '', dm vpn: '')"
    "0x25 \<notin> set (ascii '', pte: '')" "0x25 \<notin> set [0x0A :: u8]"
    by code_simp+
  show ?thesis
    unfolding m t by (intro prints_long plain prints_plain)
qed

definition early_table :: "u64 list" where
  "early_table = (replicate 512 0)[384 := create_pte PHY_START]"

lemma early_printed:
  assumes "console_out p out"
  shows "\<exists>n w. printk p (message ''id vpn: %lx, %ld, dm vpn: %lx, %ld, pte: %lx'') [2, 2, 384, 384, 0x200000CF] k
      = Inr (n, k\<lparr>world := w\<rparr>) \<and> out w = out (world k) @ early_message"
proof -
  have "\<not> in_format no_flags" by (simp add: no_flags_def fresh_flags_def)
  from early_text [of kernel_pointers, unfolded prints_def, rule_format, OF this, of 0 "[]" k]
  obtain n where "vprintfmt kernel_pointers (message ''id vpn: %lx, %ld, dm vpn: %lx, %ld, pte: %lx'')
      [2, 2, 384, 384, 0x200000CF] k = Inr (early_message, n, k)"
    unfolding vprintfmt_def append_Nil ..
  then show ?thesis using putc_all [OF assms, of early_message k]
    by (auto simp: printk_def)
qed

text \<open>\<^verbatim>\<open>setup_vm\<close> makes one round: it prints its line and enters the page of the direct map.\<close>

lemma setup_vm_stage:
  assumes "console_out p out"
  shows "\<exists>w. setup_vm p (replicate 512 0) k = Inr (early_table, k\<lparr>world := w\<rparr>)
    \<and> out w = out (world k) @ early_message"
proof -
  have v: "drop_bit 30 (PHY_START + 0) AND 0x1ff = 2" "drop_bit 30 (VM_START + 0) AND 0x1ff = 384"
    "create_pte (PHY_START + 0) = 0x200000CF" "(0 :: u64) < PHY_SIZE" "\<not> 0 + huge_page < PHY_SIZE"
    by (code_simp)+
  have "aset (replicate 512 0) (384 :: u64) (0x200000CF :: u64) = Inr early_table"
    using v(3) by (simp add: aset_def early_table_def)
  then show ?thesis
    using early_printed [OF assms, of k] v
    by (auto simp: setup_vm_def setup_vm_loop.simps [of _ 0] setup_vm_loop.simps [of _ huge_page] Let_def)
qed

text \<open>The addresses of physical memory.\<close>

definition physical :: "u64 \<Rightarrow> bool" where
  "physical pa \<longleftrightarrow> PHY_START \<le> pa \<and> pa < PHY_START + PHY_SIZE"

lemma physical_bounds: "physical pa \<longleftrightarrow> 0x80000000 \<le> unat pa \<and> unat pa < 0x88000000"
  by (simp add: physical_def layout word_le_nat_alt word_less_nat_alt)

lemma unat_direct: "physical pa \<Longrightarrow> unat (pa + PA2VA_OFFSET) = unat pa + 0xffffffdf80000000"
  by (simp add: physical_bounds layout unat_word_ariths)

lemma unat_vpn2: "unat (vpn2 va) = unat va div 2 ^ 30 mod 512"
proof -
  have "vpn2 va = take_bit 9 (drop_bit 30 va)" by (simp add: vpn2_def take_bit_eq_mask mask_eq_decr_exp)
  then show ?thesis by (simp add: take_bit_eq_mod drop_bit_eq_div unat_div unat_mod)
qed

text \<open>
  The early table maps the whole of the physical memory into the direct map, with every permission
  of the kernel, and does not map the physical addresses themselves.
\<close>

lemma early_direct_map:
  assumes pa: "physical pa" and perm: "perm AND 0xCF = perm"
  shows "gigapage early_table perm (pa + PA2VA_OFFSET) = Some pa"
    and "gigapage early_table perm pa = None"
proof -
  let ?va = "pa + PA2VA_OFFSET"
  have e: "create_pte PHY_START = 0x200000CF" by code_simp
  have va: "unat ?va = unat pa + 0xffffffdf80000000" and b: "0x80000000 \<le> unat pa" "unat pa < 0x88000000"
    using pa unat_direct by (simp_all add: physical_bounds)
  have d: "unat ?va div 2 ^ 30 = 17179869056" "unat pa div 2 ^ 30 = 2" "unat ?va div 2 ^ 38 = 0x3ffffff"
    using va b by (auto intro!: div_nat_eqI)
  then have n: "unat (vpn2 ?va) = 384" "unat (vpn2 pa) = 2" "drop_bit 38 ?va = mask 26"
    by (simp_all add: unat_vpn2 word_unat_eq_iff drop_bit_eq_div unat_div mask_eq_exp_minus_1)
  have nz: "perm OR 65 \<noteq> 0"
  proof
    assume "perm OR 65 = 0"
    then have "bit (perm OR 65) 0 = bit (0 :: u64) 0" by (rule arg_cong)
    then show False by (simp add: bit_or_iff)
  qed
  show "gigapage early_table perm pa = None"
    by (simp add: gigapage_def n early_table_def Let_def layout) (rule disjI2, rule nz)
  have "?va AND 0x3fffffff = take_bit 30 ?va" by (simp add: take_bit_eq_mask mask_eq_exp_minus_1)
  moreover have "unat (take_bit 30 ?va) = unat pa - 0x80000000"
    using va b d(1) minus_mult_div_eq_mod [of "unat ?va" "2 ^ 30"] by (simp add: take_bit_eq_mod unat_mod)
  ultimately have off: "0x80000000 + (?va AND 0x3fffffff) = pa"
    using b by (simp add: word_unat_eq_iff unat_word_ariths)
  have "0xCF AND perm = perm" using perm by (simp add: and.commute)
  moreover have "0x200000CF AND (0xCF AND perm) = 0xCF AND perm" by (simp add: and.assoc [symmetric])
  ultimately have "0x200000CF AND perm = perm" by simp
  then have "0x200000CF AND (perm OR PERM_V OR PERM_A) = perm OR PERM_V OR PERM_A"
    by (simp add: bit.conj_disj_distrib layout)
  then show "gigapage early_table perm ?va = Some pa"
    using n off by (simp add: gigapage_def early_table_def e [unfolded PHY_START_def] Let_def layout)
qed

text \<open>The switch: the \<^verbatim>\<open>ret\<close> faults at its physical address and is fetched through the direct map.\<close>

lemma relocate_stage:
  assumes "physical early" "early AND 0xfff = 0" "physical tmp" "physical ra"
  shows "relocate early tmp ra early_table k
    = Inr (k\<lparr>satp := drop_bit 12 early OR push_bit 60 8, scause := 12, stval := tmp\<rparr>)"
proof -
  have x: "PERM_X AND 0xCF = PERM_X" by code_simp
  have M: "PPN_MASK = mask 44" by (simp add: layout mask_eq_decr_exp)
  have hi: "take_bit 56 early = early"
    using assms(1) by (simp add: word_unat_eq_iff physical_bounds unsigned_take_bit_eq take_bit_nat_eq_self)
  have lo: "take_bit 12 early = 0" using assms(2) by (simp add: take_bit_eq_mask mask_eq_decr_exp)
  have bits: "bit early n \<longleftrightarrow> 12 \<le> n \<and> n < 56 \<and> bit early n" for n
    using arg_cong [OF hi, of "\<lambda>w. bit w n"] arg_cong [OF lo, of "\<lambda>w. bit w n"] by (auto simp: bit_take_bit_iff)
  have "drop_bit 60 (drop_bit 12 early) = 0" by (rule bit_word_eqI) (auto simp: bit_simps)
  then have "drop_bit 60 (drop_bit 12 early OR push_bit 60 8) = 8" by (simp add: drop_bit_or)
  moreover have "push_bit 12 ((drop_bit 12 early OR push_bit 60 8) AND PPN_MASK) = early"
    unfolding M take_bit_eq_mask [symmetric] take_bit_or
    by (simp add: take_bit_push_bit) (rule bit_word_eqI, subst bits, auto simp: bit_simps)
  ultimately show ?thesis
    by (simp add: relocate_def Let_def early_direct_map [OF assms(3) x] early_direct_map [OF assms(4) x])
qed

end
