(* ===== verification/Boot.thy ===== *)
theory Boot
  imports Process Early_Table Buddy_Init Vm_Correct
begin

text \<open>
  Starting the system: the calls of \<^verbatim>\<open>head.S\<close> in their order, with \<^verbatim>\<open>mm_init\<close> and
  \<^verbatim>\<open>start_kernel\<close>. What the linker places is a parameter: the section boundaries and the physical
  addresses of the early page table, of the label \<^verbatim>\<open>tmp_stvec\<close> and of the instruction after
  \<^verbatim>\<open>call relocate\<close>. The arrays of the buddy allocator and the early page table are typed
  objects of their own, so clearing them is not a write to \<open>mem\<close>.
\<close>

record ('w, 'd) kernel_image =
  on_board :: "('w, 'd) board"
  boundaries :: sections
  early_pgtbl_at :: u64
  tmp_stvec_at :: u64
  relocated_at :: u64
  sector_buf :: u64

section \<open>The stages\<close>

definition mm_init :: "'w platform \<Rightarrow> u64 \<Rightarrow> ('w, 'a) hosted_scheme \<Rightarrow> ('w, 'a) hosted_scheme res" where
  "mm_init p free_page_start k =
     bindr (buddy_init free_page_start) (\<lambda>(b, _).
     bindr (say p (message ''...buddy_init done!'') (k\<lparr>bud := b\<rparr>))
       (say p (message ''...mm_init done!'')))"

definition final_table ::
  "'w platform \<Rightarrow> sections \<Rightarrow> u64 \<Rightarrow> ('w, 'a) hosted_scheme \<Rightarrow> ('w, 'a) hosted_scheme res" where
  "final_table p secs swapper k =
     bindr (setup_vm_final secs swapper (machine_of k)) (\<lambda>(root, s).
     say p (message ''...setup_vm_final: done'') (with_machine s k\<lparr>satp := root\<rparr>))"

definition init_disk ::
  "'w platform \<Rightarrow> 'h blk_device \<Rightarrow> u64 \<Rightarrow> 'h blk sector_io \<Rightarrow> ('w, 'h blk, 'a) system_scheme
   \<Rightarrow> ('w, 'h blk, 'a) system_scheme res" where
  "init_disk p dev buf io k = bindr (virtio_dev_init p dev buf k) (mbr_init p io)"

text \<open>After \<^verbatim>\<open>schedule\<close> has come back the function loops for ever.\<close>

definition start_kernel :: "'w platform \<Rightarrow> ('w, 'a) hosted_scheme \<Rightarrow> ('w, 'a) hosted_scheme res" where
  "start_kernel p k = bindr (say p (message ''2024 ZJU Operating System'') k) schedule"

text \<open>
  \<^verbatim>\<open>__dummy\<close> of \<^verbatim>\<open>entry.S\<close>, where \<^verbatim>\<open>__switch_to\<close> returns to for a new thread: it goes to the user's stack, and
  \<^verbatim>\<open>sret\<close> continues at \<^verbatim>\<open>sepc\<close>.
\<close>

definition run_dummy :: "thread_struct \<Rightarrow> thread_struct" where
  "run_dummy c =
     (if th_sscratch c = 0 then c else c\<lparr>th_sp := th_sscratch c, th_sscratch := th_sp c\<rparr>)"

section \<open>The boot sequence\<close>

text \<open>The state the hart is in when it loops in \<^verbatim>\<open>start_kernel\<close> or has left for the first thread.\<close>

definition boot ::
  "('w, 'h blk) kernel_image \<Rightarrow> 'h blk_device \<Rightarrow> ('w, 'h blk, 'a) system_scheme
   \<Rightarrow> ('w, 'h blk, 'a) system_scheme res" where
  "boot i dev k =
     (let b = on_board i; p = firmware b; secs = boundaries i
      in bindr (setup_vm p (replicate 512 0) k) (\<lambda>(early_pgtbl, k).
         bindr (relocate (early_pgtbl_at i) (tmp_stvec_at i) (relocated_at i) early_pgtbl k) (\<lambda>k.
         bindr (mm_init p (ekernel secs) k) (\<lambda>k.
         bindr (final_table p secs (swapper_pg_dir b) k) (\<lambda>k.
         bindr (task_init b k) (\<lambda>k.
         bindr (init_disk p dev (sector_buf i) (disk_io b) k) (\<lambda>k.
         start_kernel p (clock_set_next_event p k))))))))"

section \<open>The test loop\<close>

text \<open>
  The body of the endless loop of \<^verbatim>\<open>init/test.c\<close>, which nothing calls. The counter never gets past
  100000000, so the signed remainder is the unsigned one.
\<close>

definition test_body :: "'w platform \<Rightarrow> u32 \<times> ('w, 'a) hosted_scheme \<Rightarrow> (u32 \<times> ('w, 'a) hosted_scheme) res" where
  "test_body p st =
     (case st of (i, k) \<Rightarrow>
        let i = i + 1
        in if i mod 100000000 = 0
           then bindr (say p (message ''kernel is running!'') k) (\<lambda>k. Inr (0, k))
           else Inr (i, k))"

primrec test_rounds ::
  "'w platform \<Rightarrow> nat \<Rightarrow> u32 \<times> ('w, 'a) hosted_scheme \<Rightarrow> (u32 \<times> ('w, 'a) hosted_scheme) res" where
  "test_rounds p 0 st = Inr st"
| "test_rounds p (Suc n) st = bindr (test_rounds p n st) (test_body p)"

section \<open>The allocator after mm_init\<close>

text \<open>Every round of the test loop succeeds, and every hundred millionth prints the message.\<close>

lemma test_rounds_print:
  assumes out: "console_out p out"
  shows "\<exists>w. test_rounds p n (0, k) = Inr (of_nat (n mod 100000000), k\<lparr>world := w\<rparr>)
    \<and> out w = out (world k) @ concat (replicate (n div 100000000) (message ''kernel is running!''))"
proof (induction n)
  case 0
  show ?case by (intro exI [of _ "world k"]) simp
next
  case (Suc n)
  then obtain w where w: "test_rounds p n (0, k) = Inr (of_nat (n mod 100000000), k\<lparr>world := w\<rparr>)"
    "out w = out (world k) @ concat (replicate (n div 100000000) (message ''kernel is running!''))"
    by blast
  define i where "i = n mod 100000000"
  have i: "i < 100000000" by (simp add: i_def)
  have u: "unat (of_nat i + 1 :: u32) = Suc i"
    using i by (simp add: unat_word_ariths unat_of_nat_small)
  have m: "(of_nat i + 1 :: u32) mod 100000000 = 0 \<longleftrightarrow> Suc i = 100000000"
  proof -
    have "(of_nat i + 1 :: u32) mod 100000000 = 0 \<longleftrightarrow> Suc i mod 100000000 = 0"
      using u by (simp add: word_unat_eq_iff [of "_ mod _"] unat_mod)
    then show ?thesis using i by (simp add: mod_Suc)
  qed
  show ?case
  proof (cases "Suc i = 100000000")
    case True
    then have n: "Suc n mod 100000000 = 0" "Suc n div 100000000 = Suc (n div 100000000)"
      unfolding i_def by (simp_all add: mod_Suc div_Suc)
    have plain: "0x25 \<notin> set (message ''kernel is running!'')" by code_simp
    obtain w' where "say p (message ''kernel is running!'') (k\<lparr>world := w\<rparr>) = Inr (k\<lparr>world := w'\<rparr>)"
      "out w' = out w @ message ''kernel is running!''"
      using say_world [OF out plain, of "k\<lparr>world := w\<rparr>"] by auto
    then show ?thesis
      using w m True n
      by (intro exI [of _ w']) (simp add: test_body_def i_def [symmetric] replicate_append_same [symmetric] Let_def)
  next
    case False
    then have n: "Suc n mod 100000000 = Suc i" "Suc n div 100000000 = n div 100000000"
      unfolding i_def by (simp_all add: mod_Suc div_Suc)
    then show ?thesis
      using w m False by (intro exI [of _ w]) (simp add: test_body_def i_def [symmetric] add.commute)
  qed
qed

text \<open>
  From here on the page allocator is ready for its users: the invariant holds, frame 0 is in use
  and every frame above the image and the arrays is free.
\<close>

lemma mm_init_ready:
  assumes out: "console_out p out"
    and image: "0 < reserved_pages (VA2PA (fps + 0xC0000))" "reserved_pages (VA2PA (fps + 0xC0000)) \<le> 32768"
  shows "\<exists>b w. mm_init p fps k = Inr (k\<lparr>bud := b, world := w\<rparr>) \<and> alloc_ok 15 (machine_of (k\<lparr>bud := b\<rparr>))
    \<and> pages_in_use 15 b = {0 ..< reserved_pages (VA2PA (fps + 0xC0000))}
    \<and> out w = out (world k) @ message ''...buddy_init done!'' @ message ''...mm_init done!''"
proof -
  define r where "r = reserved_pages (VA2PA (fps + 0xC0000))"
  obtain b where b: "buddy_init fps = Inr (b, fps + 0xC0000)" "mm_inv 15 b"
    "allocated 15 b = {(q, 0) | q. q < r}"
    using buddy_init_ok [OF image(2)] by (auto simp: r_def)
  have use: "pages_in_use 15 b = {0 ..< r}" using b(3) by (auto simp: pages_in_use_def pages_def)
  have m: "0x25 \<notin> set (message ''...buddy_init done!'')" "0x25 \<notin> set (message ''...mm_init done!'')"
    by code_simp+
  obtain w where w: "say p (message ''...buddy_init done!'') (k\<lparr>bud := b\<rparr>) = Inr (k\<lparr>bud := b, world := w\<rparr>)"
    "out w = out (world k) @ message ''...buddy_init done!''"
    using say_world [OF out m(1), of "k\<lparr>bud := b\<rparr>"] by auto
  obtain w' where w': "say p (message ''...mm_init done!'') (k\<lparr>bud := b, world := w\<rparr>) = Inr (k\<lparr>bud := b, world := w'\<rparr>)"
    "out w' = out w @ message ''...mm_init done!''"
    using say_world [OF out m(2), of "k\<lparr>bud := b, world := w\<rparr>"] by auto
  have "mm_init p fps k = Inr (k\<lparr>bud := b, world := w'\<rparr>)" using b(1) w(1) w'(1) by (simp add: mm_init_def)
  moreover have "alloc_ok 15 (machine_of (k\<lparr>bud := b\<rparr>))"
    using b(2) use image(1) by (simp add: alloc_ok_def r_def)
  ultimately show ?thesis
    using w(2) w'(2) use by (intro exI [of _ b] exI [of _ w']) (simp add: r_def)
qed

end
