(* ===== verification/First_Thread.thy ===== *)
theory First_Thread
  imports Process_Correct Kernel_Map Boot
begin

text \<open>
  From the page allocator to the first user program: \<open>task_init\<close> sets up the idle task and the first
  process, and \<open>start_kernel\<close> leaves for the process, which enters user mode through \<^verbatim>\<open>__dummy\<close>.
\<close>

section \<open>The image\<close>

text \<open>The addresses of the ELF header and of the program headers of the image at \<open>img\<close>.\<close>

definition header_bytes :: "mem \<Rightarrow> u64 \<Rightarrow> u64 set" where
  "header_bytes m img =
     {img + of_nat i | i. i < 64}
     \<union> {img + e_phoff (ehdr_in m img) + of_nat i | i. i < 56 * unat (e_phnum (ehdr_in m img))}"

lemma rd_cong:
  assumes "\<forall>j < n. m' (a + of_nat j) = m (a + of_nat j)"
  shows "i + 8 \<le> n \<Longrightarrow> rd64 m' (a + of_nat i) = rd64 m (a + of_nat i)"
    and "i + 4 \<le> n \<Longrightarrow> rd32 m' (a + of_nat i) = rd32 m (a + of_nat i)"
    and "i + 2 \<le> n \<Longrightarrow> rd16 m' (a + of_nat i) = rd16 m (a + of_nat i)"
proof -
  have "load m' (a + of_nat i) l = load m (a + of_nat i) l" if "i + l \<le> n" for l
  proof (rule load_cong)
    fix j assume "j < l"
    then show "m' (a + of_nat i + of_nat j) = m (a + of_nat i + of_nat j)"
      using assms [rule_format, of "i + j"] that by (simp add: add.assoc)
  qed
  then show "i + 8 \<le> n \<Longrightarrow> rd64 m' (a + of_nat i) = rd64 m (a + of_nat i)"
    and "i + 4 \<le> n \<Longrightarrow> rd32 m' (a + of_nat i) = rd32 m (a + of_nat i)"
    and "i + 2 \<le> n \<Longrightarrow> rd16 m' (a + of_nat i) = rd16 m (a + of_nat i)"
    by (simp_all add: rd64_def rd32_def rd16_def)
qed

lemma ehdr_cong:
  assumes "\<And>j. j < 64 \<Longrightarrow> m' (a + of_nat j) = m (a + of_nat j)"
  shows "ehdr_in m' a = ehdr_in m a"
proof -
  have "load m' a EI_NIDENT = load m a EI_NIDENT"
    using assms by (intro load_cong) (simp add: EI_NIDENT_def)
  moreover have a: "\<forall>j < 64. m' (a + of_nat j) = m (a + of_nat j)" using assms by blast
  ultimately show ?thesis
    using rd_cong(1) [OF a, of 24] rd_cong(1) [OF a, of 32] rd_cong(1) [OF a, of 40]
      rd_cong(2) [OF a, of 20] rd_cong(2) [OF a, of 48]
      rd_cong(3) [OF a, of 16] rd_cong(3) [OF a, of 18] rd_cong(3) [OF a, of 52]
      rd_cong(3) [OF a, of 54] rd_cong(3) [OF a, of 56] rd_cong(3) [OF a, of 58]
      rd_cong(3) [OF a, of 60] rd_cong(3) [OF a, of 62]
    by (simp add: ehdr_in_def)
qed

lemma phdr_cong:
  assumes "\<And>j. j < 56 \<Longrightarrow> m' (a + of_nat j) = m (a + of_nat j)"
  shows "phdr_in m' a = phdr_in m a"
proof -
  have a: "\<forall>j < 56. m' (a + of_nat j) = m (a + of_nat j)" using assms by blast
  show ?thesis
    using rd_cong(2) [OF a, of 0] rd_cong(2) [OF a, of 4]
      rd_cong(1) [OF a, of 8] rd_cong(1) [OF a, of 16] rd_cong(1) [OF a, of 24]
      rd_cong(1) [OF a, of 32] rd_cong(1) [OF a, of 40] rd_cong(1) [OF a, of 48]
    by (simp add: phdr_in_def)
qed

lemma program_headers_cong:
  assumes "\<And>x. x \<in> header_bytes m img \<Longrightarrow> m' x = m x"
  shows "ehdr_in m' img = ehdr_in m img" "program_headers m' img = program_headers m img"
proof -
  show e: "ehdr_in m' img = ehdr_in m img"
    by (rule ehdr_cong, rule assms) (auto simp: header_bytes_def)
  define n where "n = unat (e_phnum (ehdr_in m img))"
  define q where "q = img + e_phoff (ehdr_in m img)"
  have "phdr_in m' (q + 56 * of_nat i) = phdr_in m (q + 56 * of_nat i)" if i: "i < n" for i
  proof (rule phdr_cong)
    fix j :: nat assume j: "j < 56"
    have "q + 56 * of_nat i + of_nat j = q + of_nat (56 * i + j)" by simp
    moreover have "56 * i + j < 56 * n" using i j by linarith
    ultimately have "q + 56 * of_nat i + of_nat j \<in> header_bytes m img"
      unfolding header_bytes_def q_def n_def by blast
    then show "m' (q + 56 * of_nat i + of_nat j) = m (q + 56 * of_nat i + of_nat j)" by (rule assms)
  qed
  then show "program_headers m' img = program_headers m img"
    unfolding program_headers_def Let_def e n_def [symmetric] q_def [symmetric] by simp
qed

section \<open>The pieces of task_init\<close>

lemma new_pgd_ok:
  assumes ok: "alloc_ok K (machine_of k)" and left: "0 < free_pages_left K (machine_of k)"
    and sw: "swapper \<in> used_pages K (machine_of k)"
  obtains root k' where "new_pgd swapper k = Inr (root, k')" "root \<in> page_pool K - used_pages K (machine_of k)"
    "mem k' = copied root swapper PGSIZE (mem k)" "alloc_ok K (machine_of k')"
    "used_pages K (machine_of k') = insert root (used_pages K (machine_of k))"
    "Suc (free_pages_left K (machine_of k')) = free_pages_left K (machine_of k)"
    "k' = k\<lparr>bud := bud k', mem := mem k'\<rparr>"
proof -
  obtain root b where r: "alloc_on k = Inr (root, k\<lparr>bud := b\<rparr>)" "root \<noteq> 0" "root \<notin> used_pages K (machine_of k)"
    "alloc_ok K (machine_of (k\<lparr>bud := b\<rparr>))"
    "used_pages K (machine_of (k\<lparr>bud := b\<rparr>)) = insert root (used_pages K (machine_of k))"
    "Suc (free_pages_left K (machine_of (k\<lparr>bud := b\<rparr>))) = free_pages_left K (machine_of k)"
    using alloc_on_used [OF ok left] by blast
  define k' where "k' = k\<lparr>bud := b, mem := copied root swapper PGSIZE (mem k)\<rparr>"
  have pool: "root \<in> page_pool K" using kp.used_pool [OF r(4)] r(5) by blast
  have al: "page_aligned root" "page_aligned swapper" using kp.pool_page [OF pool] kp.used_page [OF ok] sw by auto
  have "swapper \<noteq> root" using r(3) sw by blast
  then have "\<not> (0 < root - swapper \<and> root - swapper < PGSIZE)"
    using page_bytes_apart [OF al(2,1), of root] by (auto simp: PGSIZE_def)
  then have run: "new_pgd swapper k = Inr (root, k')"
    using r(1,2) by (simp add: new_pgd_def copy_to_page_def memcpy_eq k'_def)
  have m: "used_pages K (machine_of k') = used_pages K (machine_of (k\<lparr>bud := b\<rparr>))"
    "alloc_ok K (machine_of k') = alloc_ok K (machine_of (k\<lparr>bud := b\<rparr>))"
    by (simp_all add: k'_def machine_of_def used_pages_def alloc_ok_def)
  show thesis
    by (rule that [OF run]) (use r pool m in \<open>simp_all add: k'_def free_pages_left_def\<close>)
qed

lemma file_init_ok:
  assumes ok: "alloc_ok K (machine_of k)" and left: "0 < free_pages_left K (machine_of k)"
  obtains p b where "file_init k = Inr (p, k\<lparr>bud := b, files_at := (files_at k)(p \<mapsto>
      \<lparr>fd_array = [stdin_file, stdout_file, stderr_file] @ replicate 13 zero_file\<rparr>)\<rparr>)"
    "p \<noteq> 0" "p \<notin> used_pages K (machine_of k)" "alloc_ok K (machine_of (k\<lparr>bud := b\<rparr>))"
    "used_pages K (machine_of (k\<lparr>bud := b\<rparr>)) = insert p (used_pages K (machine_of k))"
    "Suc (free_pages_left K (machine_of (k\<lparr>bud := b\<rparr>))) = free_pages_left K (machine_of k)"
proof -
  obtain p b where p: "alloc_on k = Inr (p, k\<lparr>bud := b\<rparr>)" "p \<noteq> 0" "p \<notin> used_pages K (machine_of k)"
    "alloc_ok K (machine_of (k\<lparr>bud := b\<rparr>))"
    "used_pages K (machine_of (k\<lparr>bud := b\<rparr>)) = insert p (used_pages K (machine_of k))"
    "Suc (free_pages_left K (machine_of (k\<lparr>bud := b\<rparr>))) = free_pages_left K (machine_of k)"
    using alloc_on_used [OF ok left] by blast
  then obtain s where "kalloc (bud k) = Inr (p, s)" "k\<lparr>bud := s\<rparr> = k\<lparr>bud := b\<rparr>"
    by (auto simp: alloc_on_def kalloc_page_def machine_of_def with_machine_def)
  moreover have "(files_struct_size + PGSIZE - 1) div PGSIZE = 1"
    by (simp add: files_struct_size_def PGSIZE_def)
  moreover have "(replicate MAX_FILE_NUMBER zero_file)[0 := stdin_file, 1 := stdout_file, 2 := stderr_file]
      = [stdin_file, stdout_file, stderr_file] @ replicate 13 zero_file"
    by (simp add: MAX_FILE_NUMBER_def numeral_eq_Suc)
  moreover have "s = b" using arg_cong [OF \<open>k\<lparr>bud := s\<rparr> = k\<lparr>bud := b\<rparr>\<close>, of bud] by simp
  ultimately have "file_init k = Inr (p, k\<lparr>bud := b, files_at := (files_at k)(p \<mapsto>
      \<lparr>fd_array = [stdin_file, stdout_file, stderr_file] @ replicate 13 zero_file\<rparr>)\<rparr>)"
    using p(2) by (simp add: file_init_def kalloc_def alloc_page_def Let_def del: One_nat_def)
  then show thesis using that p(2-6) by blast
qed

text \<open>Adding areas to task \<open>t\<close> leaves everything else, and the rest of the task.\<close>

definition task_rest :: "task_struct \<Rightarrow> u64 \<times> u64 \<times> u64 \<times> u64 \<times> u64 \<times> u64" where
  "task_rest x = (task_state x, counter x, priority x, pid x, files x, pgd x)"

definition only_areas :: "u64 \<Rightarrow> 'a kernel_scheme \<Rightarrow> 'a kernel_scheme \<Rightarrow> bool" where
  "only_areas t k k' \<longleftrightarrow> (\<exists>b v h. k' = k\<lparr>bud := b, vma_at := v, task_at := h\<rparr>)
     \<and> (\<forall>q. map_option task_rest (task_at k' q) = map_option task_rest (task_at k q))
     \<and> (\<forall>q. q \<noteq> t \<longrightarrow> task_at k' q = task_at k q)"

lemma only_areas_upd:
  assumes "\<And>q. q \<noteq> t \<Longrightarrow> h q = task_at k q" "map_option task_rest (h t) = map_option task_rest (task_at k t)"
  shows "only_areas t k (k\<lparr>bud := b, vma_at := v, task_at := h\<rparr>)"
  unfolding only_areas_def
proof (intro conjI allI impI)
  show "\<exists>b' v' h'. k\<lparr>bud := b, vma_at := v, task_at := h\<rparr> = k\<lparr>bud := b', vma_at := v', task_at := h'\<rparr>" by blast
  show "map_option task_rest (task_at (k\<lparr>bud := b, vma_at := v, task_at := h\<rparr>) q) = map_option task_rest (task_at k q)" for q
    using assms by (cases "q = t") auto
qed (use assms in simp)

lemma only_areas_put:
  assumes "task_at k t = Some tk" "task_rest tk' = task_rest tk"
  shows "only_areas t k (k\<lparr>task_at := (task_at k)(t \<mapsto> tk')\<rparr>)"
  using only_areas_upd [of t "(task_at k)(t \<mapsto> tk')" k "vma_at k" "bud k"] assms by simp

lemma only_areas_refl [simp]: "only_areas t k k"
  using only_areas_upd [of t "task_at k" k "vma_at k" "bud k"] by simp

lemma only_areas_trans:
  assumes "only_areas t k k'" "only_areas t k' k''"
  shows "only_areas t k k''"
proof -
  obtain b v h where 1: "k' = k\<lparr>bud := b, vma_at := v, task_at := h\<rparr>" using assms(1) unfolding only_areas_def by blast
  obtain b' v' h' where "k'' = k'\<lparr>bud := b', vma_at := v', task_at := h'\<rparr>"
    using assms(2) unfolding only_areas_def by blast
  then have 2: "k'' = k\<lparr>bud := b', vma_at := v', task_at := h'\<rparr>" unfolding 1 by simp
  show ?thesis unfolding 2 by (rule only_areas_upd) (use assms in \<open>auto simp: only_areas_def 2\<close>)
qed

lemma do_mmap_only_areas: "do_mmap t addr len off fsz fl k = Inr (r, k') \<Longrightarrow> only_areas t k k'"
  unfolding do_mmap_def Let_def alloc_on_def kalloc_page_def machine_of_def with_machine_def
  by (auto intro!: only_areas_upd simp: task_rest_def elim!: deref_InrE split: if_splits)

lemma load_elf_only_areas: "load_elf img t k = Inr k' \<Longrightarrow> only_areas t k k'"
proof -
  assume "load_elf img t k = Inr k'"
  then obtain n phdrs k1 tk e where k1: "for_range 0 n (load_segment t phdrs) k = Inr k1"
    and tk: "task_at k1 t = Some tk" "k' = k1\<lparr>task_at := (task_at k1)(t \<mapsto> tk\<lparr>thread := e\<rparr>)\<rparr>"
    by (auto simp: load_elf_def Let_def elim!: deref_InrE)
  have "only_areas t k k1"
    by (rule for_range_partial [OF k1])
      (auto simp: load_segment_def Let_def dest!: do_mmap_only_areas intro: only_areas_trans split: if_splits)
  then show ?thesis
    unfolding tk(2) by (rule only_areas_trans) (rule only_areas_put [OF tk(1)], simp add: task_rest_def)
qed

section \<open>The first process\<close>

text \<open>
  What \<open>task_init\<close> starts from: the allocator is ready, free pages are zero as after reset, the
  kernel's page table lies in a page in use, and the headers of the image in no free page.
\<close>

definition memory_ready :: "nat \<Rightarrow> ('w, 'd) board \<Rightarrow> machine \<Rightarrow> bool" where
  "memory_ready K b s \<longleftrightarrow> alloc_ok K s \<and> swapper_pg_dir b \<in> used_pages K s
     \<and> (\<forall>p \<in> page_pool K - used_pages K s. (\<forall>i < 4096. mem s (p + i) = 0)
          \<and> (\<forall>x \<in> header_bytes (mem s) (ramdisk b). \<not> x - p < 4096))"

text \<open>The fields \<open>task_init\<close> gives the first process, which lies at \<open>p\<close>, in a program starting at \<open>entry\<close>.\<close>

definition first_task :: "('w, 'd) board \<Rightarrow> u64 \<Rightarrow> u64 \<Rightarrow> task_struct \<Rightarrow> bool" where
  "first_task b p entry tk \<longleftrightarrow> task_state tk = TASK_RUNNING \<and> counter tk = 0 \<and> pid tk = 1
     \<and> 1 \<le> priority tk \<and> priority tk \<le> 10
     \<and> th_ra (thread tk) = dummy_entry b \<and> th_sp (thread tk) = p + PGSIZE \<and> th_sepc (thread tk) = entry
     \<and> th_sstatus (thread tk) = SSTATUS_SUM \<and> th_sscratch (thread tk) = USER_END"

lemma memory_ready_alloc:
  assumes r: "memory_ready K b s" and k: "mem s' = mem s" "alloc_ok K s'" "used_pages K s \<subseteq> used_pages K s'"
  shows "memory_ready K b s'"
  using r k(2,3) unfolding memory_ready_def k(1) by blast

lemma fresh_task:
  assumes "\<forall>i < 4096. m (p + i) = 0"
  shows "mmap (task_in m p) = 0"
proof -
  have "rd64 m (p + 184) = 0"
  proof (rule rd64_zeros)
    fix j :: nat assume "j < 8"
    then have "unat (184 + of_nat j :: u64) < 4096" by (simp add: unat_word_ariths unat_of_nat_small)
    then show "m (p + 184 + of_nat j) = 0"
      using assms [rule_format, of "184 + of_nat j"] by (simp add: word_less_nat_alt add.assoc)
  qed
  then show ?thesis by (simp add: task_in_def)
qed

text \<open>The first half of \<open>init_task\<close>: a task with its stack, open files and page directory.\<close>

definition task_start :: "('w, 'd) board \<Rightarrow> 'a kernel_scheme \<Rightarrow> (u64 \<times> 'a kernel_scheme) res" where
  "task_start b k =
     bindr (alloc_on k) (\<lambda>(p, k).
     bindr (aset (task k) (nr_tasks k) p) (\<lambda>ts.
     let k = k\<lparr>task := ts\<rparr>
     in if p = 0 then Inl Null_Pointer
        else bindr (aget (task k) (1 :: u64)) (\<lambda>ti.
        case rand_priority (seed k) of (prio, sd) \<Rightarrow>
        let t = task_in (mem k) p;
            th = (thread t)\<lparr>th_ra := dummy_entry b, th_sp := ti + PGSIZE, th_sstatus := SSTATUS_SUM,
                            th_sscratch := USER_END\<rparr>;
            t = t\<lparr>task_state := TASK_RUNNING, counter := 0, priority := prio, pid := nr_tasks k, thread := th\<rparr>;
            k = k\<lparr>seed := sd, task_at := (task_at k)(p \<mapsto> t)\<rparr>
        in bindr (file_init k) (\<lambda>(ret, k).
           bindr (put_task p (\<lambda>t. t\<lparr>files := ret\<rparr>) k) (\<lambda>k.
           bindr (new_pgd (swapper_pg_dir b) k) (\<lambda>(root, k).
           bindr (put_task p (\<lambda>t. t\<lparr>pgd := root - PA2VA_OFFSET\<rparr>) k) (\<lambda>k. Inr (p, k))))))))"

lemma init_task_split:
  "init_task b 1 k = bindr (task_start b k) (\<lambda>(p, k).
     bindr (load_elf (ramdisk b) p k) (\<lambda>k.
     bindr (do_mmap p (USER_END - PGSIZE) PGSIZE 0 0 (VM_READ OR VM_WRITE OR VM_ANON) k) (\<lambda>(_, k).
     Inr (k\<lparr>nr_tasks := nr_tasks k + 1\<rparr>))))"
  unfolding init_task_def task_start_def
  by (simp add: Let_def bindr_assoc case_prod_beta bindr_def split: sum.splits)

definition standard_files :: files_struct where
  "standard_files = \<lparr>fd_array = [stdin_file, stdout_file, stderr_file] @ replicate 13 zero_file\<rparr>"

lemma task_start_ok:
  assumes ready: "memory_ready K b (machine_of k)" and left: "3 \<le> free_pages_left K (machine_of k)"
    and tab: "nr_tasks k = 1" "2 \<le> length (task k)"
  shows "\<exists>p root t k'. task_start b k = Inr (p, k') \<and> has_areas K p [] k' \<and> p \<notin> used_pages K (machine_of k)
    \<and> task_at k' = (task_at k)(p \<mapsto> t) \<and> first_task b p (th_sepc (thread t)) t
    \<and> pgd t = root - PA2VA_OFFSET \<and> root \<in> page_pool K - used_pages K (machine_of k)
    \<and> mem k' = copied root (swapper_pg_dir b) PGSIZE (mem k) \<and> files_at k' (files t) = Some standard_files
    \<and> free_pages_left K (machine_of k) = free_pages_left K (machine_of k') + 3
    \<and> nr_tasks k' = 1 \<and> task k' = (task k)[1 := p] \<and> idle k' = idle k \<and> current k' = current k
    \<and> kernel.more k' = kernel.more k
    \<and> insert root (used_pages K (machine_of k)) \<subseteq> used_pages K (machine_of k')"
proof -
  have ok: "alloc_ok K (machine_of k)" and sw: "swapper_pg_dir b \<in> used_pages K (machine_of k)"
    using ready by (simp_all add: memory_ready_def)
  obtain p b1 where p: "alloc_on k = Inr (p, k\<lparr>bud := b1\<rparr>)" "p \<noteq> 0" "p \<notin> used_pages K (machine_of k)"
    "alloc_ok K (machine_of (k\<lparr>bud := b1\<rparr>))"
    "used_pages K (machine_of (k\<lparr>bud := b1\<rparr>)) = insert p (used_pages K (machine_of k))"
    "Suc (free_pages_left K (machine_of (k\<lparr>bud := b1\<rparr>))) = free_pages_left K (machine_of k)"
    using alloc_on_used [OF ok] left by auto
  have "p \<in> page_pool K" using kp.used_pool [OF p(4)] p(5) by blast
  then have fresh: "mmap (task_in (mem k) p) = 0"
    using ready p(3) by (intro fresh_task) (simp add: memory_ready_def machine_of_def)
  obtain prio sd where rp: "rand_priority (seed k) = (prio, sd)" by fastforce
  then have prio: "1 \<le> prio" "prio \<le> 10" using rand_priority_range [of "seed k"] by simp_all
  define t0 where "t0 = task_in (mem k) p"
  define t1 where "t1 = t0\<lparr>task_state := TASK_RUNNING, counter := 0, priority := prio, pid := 1,
    thread := (thread t0)\<lparr>th_ra := dummy_entry b, th_sp := p + PGSIZE, th_sstatus := SSTATUS_SUM,
      th_sscratch := USER_END\<rparr>\<rparr>"
  define k1 where "k1 = k\<lparr>bud := b1, task := (task k)[1 := p], seed := sd, task_at := (task_at k)(p \<mapsto> t1)\<rparr>"
  have m1: "machine_of k1 = machine_of (k\<lparr>bud := b1\<rparr>)" by (simp add: k1_def machine_of_def)
  have ready1: "alloc_ok K (machine_of k1)" "0 < free_pages_left K (machine_of k1)"
    using p(4,6) left unfolding m1 by simp_all
  obtain ret b2 where f: "file_init k1 = Inr (ret, k1\<lparr>bud := b2, files_at := (files_at k1)(ret \<mapsto> standard_files)\<rparr>)"
    "alloc_ok K (machine_of (k1\<lparr>bud := b2\<rparr>))"
    "used_pages K (machine_of (k1\<lparr>bud := b2\<rparr>)) = insert ret (used_pages K (machine_of k1))"
    "Suc (free_pages_left K (machine_of (k1\<lparr>bud := b2\<rparr>))) = free_pages_left K (machine_of k1)"
    using file_init_ok [OF ready1, folded standard_files_def] by blast
  define k2 where "k2 = k1\<lparr>bud := b2, files_at := (files_at k1)(ret \<mapsto> standard_files),
    task_at := (task_at k)(p \<mapsto> t1\<lparr>files := ret\<rparr>)\<rparr>"
  have m2: "machine_of k2 = machine_of (k1\<lparr>bud := b2\<rparr>)" by (simp add: k2_def machine_of_def)
  have ready2: "alloc_ok K (machine_of k2)" "0 < free_pages_left K (machine_of k2)"
    "swapper_pg_dir b \<in> used_pages K (machine_of k2)"
    using f(2-4) p(5,6) left sw unfolding m2 m1 by simp_all
  obtain root k3 where r: "new_pgd (swapper_pg_dir b) k2 = Inr (root, k3)"
    "root \<in> page_pool K - used_pages K (machine_of k2)"
    "mem k3 = copied root (swapper_pg_dir b) PGSIZE (mem k2)" "alloc_ok K (machine_of k3)"
    "used_pages K (machine_of k3) = insert root (used_pages K (machine_of k2))"
    "Suc (free_pages_left K (machine_of k3)) = free_pages_left K (machine_of k2)"
    "k3 = k2\<lparr>bud := bud k3, mem := mem k3\<rparr>"
    by (rule new_pgd_ok [OF ready2])
  obtain b3 m3 where k3e: "k3 = k2\<lparr>bud := b3, mem := m3\<rparr>" using r(7) by blast
  define t2 where "t2 = t1\<lparr>files := ret, pgd := root - PA2VA_OFFSET\<rparr>"
  define k4 where "k4 = k3\<lparr>task_at := (task_at k)(p \<mapsto> t2)\<rparr>"
  have k3: "task_at k3 = (task_at k)(p \<mapsto> t1\<lparr>files := ret\<rparr>)" "nr_tasks k3 = 1" "task k3 = (task k)[1 := p]"
    "idle k3 = idle k" "current k3 = current k" "files_at k3 ret = Some standard_files" "vma_at k3 = vma_at k"
    "kernel.more k3 = kernel.more k"
    unfolding k3e by (simp_all add: k2_def k1_def tab)
  have run: "task_start b k = Inr (p, k4)"
  proof -
    have "put_task p (\<lambda>t. t\<lparr>files := ret\<rparr>) (k1\<lparr>bud := b2, files_at := (files_at k1)(ret \<mapsto> standard_files)\<rparr>) = Inr k2"
      using p(2) by (simp add: put_task_def k1_def k2_def)
    moreover have "put_task p (\<lambda>t. t\<lparr>pgd := root - PA2VA_OFFSET\<rparr>) k3 = Inr k4"
      using p(2) k3(1) by (simp add: put_task_def k4_def t2_def)
    ultimately show ?thesis
      using p(1,2) tab rp f(1) r(1)
      by (simp add: task_start_def k1_def t1_def t0_def)
  qed
  have m4: "machine_of k4 = machine_of k3" by (simp add: k4_def machine_of_def)
  have "has_areas K p [] k4"
    using r(4) p(2) fresh unfolding has_areas_def m4 by (simp add: k4_def t2_def t1_def t0_def)
  moreover have "first_task b p (th_sepc (thread t2)) t2"
    using prio by (simp add: first_task_def t2_def t1_def)
  moreover have "root \<in> page_pool K - used_pages K (machine_of k)"
    using r(2) unfolding m2 f(3) m1 p(5) by blast
  moreover have "free_pages_left K (machine_of k) = free_pages_left K (machine_of k4) + 3"
    using p(6) f(4) r(6) unfolding m4 m2 m1 by simp
  moreover have "insert root (used_pages K (machine_of k)) \<subseteq> used_pages K (machine_of k4)"
    unfolding m4 r(5) m2 f(3) m1 p(5) by blast
  moreover have "mem k2 = mem k" by (simp add: k2_def k1_def)
  ultimately show ?thesis
    using run p(3) r(3) k3 by (intro exI [of _ p] exI [of _ root] exI [of _ t2] exI [of _ k4]) (simp add: k4_def t2_def)
qed

text \<open>The whole of \<open>init_task\<close>: the areas of the image and of the stack, and the entry point.\<close>

lemma init_task_ok:
  assumes ready: "memory_ready K b (machine_of k)" and tab: "nr_tasks k = 1" "2 \<le> length (task k)"
    and left: "4 + length (load_segments (program_headers (mem k) (ramdisk b))) \<le> free_pages_left K (machine_of k)"
  shows "\<exists>p root tk ps k'. init_task b 1 k = Inr k' \<and> p \<noteq> 0 \<and> p \<notin> used_pages K (machine_of k)
    \<and> task_at k' p = Some tk \<and> first_task b p (e_entry (ehdr_in (mem k) (ramdisk b))) tk
    \<and> has_areas K p ps k' \<and> areas k' ps = Some (USER_END - PGSIZE, USER_END, 0, 0, VM_READ OR VM_WRITE OR VM_ANON)
          # map (Some \<circ> loaded_area) (rev (load_segments (program_headers (mem k) (ramdisk b))))
    \<and> pgd tk = root - PA2VA_OFFSET \<and> root \<in> page_pool K - used_pages K (machine_of k)
    \<and> mem k' = copied root (swapper_pg_dir b) PGSIZE (mem k) \<and> files_at k' (files tk) = Some standard_files
    \<and> (\<forall>q. q \<noteq> p \<longrightarrow> task_at k' q = task_at k q)
    \<and> nr_tasks k' = 2 \<and> task k' = (task k)[1 := p] \<and> idle k' = idle k \<and> current k' = current k
    \<and> kernel.more k' = kernel.more k
    \<and> insert root (used_pages K (machine_of k)) \<subseteq> used_pages K (machine_of k')
    \<and> free_pages_left K (machine_of k) = free_pages_left K (machine_of k') + 4
        + length (load_segments (program_headers (mem k) (ramdisk b)))"
proof -
  define phs where "phs = program_headers (mem k) (ramdisk b)"
  have "3 \<le> free_pages_left K (machine_of k)" using left by simp
  from task_start_ok [OF ready this tab] obtain p root t k1 where
    s: "task_start b k = Inr (p, k1)" "has_areas K p [] k1" "p \<notin> used_pages K (machine_of k)"
    "task_at k1 = (task_at k)(p \<mapsto> t)" "first_task b p (th_sepc (thread t)) t"
    "pgd t = root - PA2VA_OFFSET" "root \<in> page_pool K - used_pages K (machine_of k)"
    "mem k1 = copied root (swapper_pg_dir b) PGSIZE (mem k)" "files_at k1 (files t) = Some standard_files"
    "free_pages_left K (machine_of k) = free_pages_left K (machine_of k1) + 3"
    "nr_tasks k1 = 1" "task k1 = (task k)[1 := p]" "idle k1 = idle k" "current k1 = current k"
    "kernel.more k1 = kernel.more k"
    "insert root (used_pages K (machine_of k)) \<subseteq> used_pages K (machine_of k1)"
    by blast
  have "mem k1 x = mem k x" if "x \<in> header_bytes (mem k) (ramdisk b)" for x
    using ready that s(7) by (simp add: s(8) copied_def PGSIZE_def memory_ready_def machine_of_def)
  note h = program_headers_cong [of "mem k" "ramdisk b" "mem k1", OF this]
  have "length (load_segments (program_headers (mem k1) (ramdisk b))) \<le> free_pages_left K (machine_of k1)"
    using left s(10) h(2) by simp
  moreover have "task_at k1 p = Some t" using s(4) by simp
  ultimately obtain k2 new t2 where e: "load_elf (ramdisk b) p k1 = Inr k2" "has_areas K p new k2"
    "areas k2 new = map (Some \<circ> loaded_area) (rev (load_segments phs))"
    "task_at k2 p = Some t2" "thread t2 = (thread t)\<lparr>th_sepc := e_entry (ehdr_in (mem k) (ramdisk b))\<rparr>"
    "mem k2 = mem k1"
    "free_pages_left K (machine_of k1) = free_pages_left K (machine_of k2) + length (load_segments phs)"
    "used_pages K (machine_of k1) \<subseteq> used_pages K (machine_of k2)"
    using load_elf_aux [OF s(2) refl, of "ramdisk b" t] h by (auto simp: areas_def phs_def)
  have left2: "0 < free_pages_left K (machine_of k2)"
    using e(7) s(10) left by (simp add: phs_def)
  obtain k3 cur where m: "do_mmap p (USER_END - PGSIZE) PGSIZE 0 0 (VM_READ OR VM_WRITE OR VM_ANON) k2 = Inr (USER_END - PGSIZE, k3)"
    "has_areas K p (cur # new) k3"
    "areas k3 (cur # new) = Some (USER_END - PGSIZE, USER_END, 0, 0, VM_READ OR VM_WRITE OR VM_ANON) # areas k2 new"
    "mem k3 = mem k2" "task_at k3 = (task_at k2)(p \<mapsto> t2\<lparr>mmap := cur\<rparr>)"
    "Suc (free_pages_left K (machine_of k3)) = free_pages_left K (machine_of k2)"
    "used_pages K (machine_of k2) \<subseteq> used_pages K (machine_of k3)"
    using do_mmap_area [OF e(2) left2, of "USER_END - PGSIZE" PGSIZE 0 0 "VM_READ OR VM_WRITE OR VM_ANON"] e(4)
    by auto
  define k' where "k' = k3\<lparr>nr_tasks := nr_tasks k3 + 1\<rparr>"
  have run: "init_task b 1 k = Inr k'" using s(1) e(1) m(1) by (simp add: init_task_split k'_def)
  have only: "only_areas p k1 k3"
    using load_elf_only_areas [OF e(1)] do_mmap_only_areas [OF m(1)] by (rule only_areas_trans)
  have tk: "task_at k' p = Some (t2\<lparr>mmap := cur\<rparr>)" using m(5) by (simp add: k'_def)
  have rest: "task_rest (t2\<lparr>mmap := cur\<rparr>) = task_rest t"
  proof -
    have "map_option task_rest (task_at k3 p) = map_option task_rest (task_at k1 p)"
      using only unfolding only_areas_def by blast
    then show ?thesis using m(5) s(4) by simp
  qed
  have t2: "first_task b p (e_entry (ehdr_in (mem k) (ramdisk b))) (t2\<lparr>mmap := cur\<rparr>)"
    "files (t2\<lparr>mmap := cur\<rparr>) = files t" "pgd (t2\<lparr>mmap := cur\<rparr>) = pgd t"
    using s(5) rest e(5) by (simp_all add: first_task_def task_rest_def)
  obtain bd v h where "k3 = k1\<lparr>bud := bd, vma_at := v, task_at := h\<rparr>" using only unfolding only_areas_def by blast
  then have k3: "nr_tasks k3 = 1" "task k3 = (task k)[1 := p]" "idle k3 = idle k" "current k3 = current k"
    "files_at k3 = files_at k1" "kernel.more k3 = kernel.more k"
    using s(11-15) by simp_all
  have others: "task_at k' q = task_at k q" if "q \<noteq> p" for q
    using only that s(4) by (simp add: only_areas_def k'_def)
  have p0: "p \<noteq> 0" using s(2) by (simp add: has_areas_def)
  have "has_areas K p (cur # new) k'" using m(2) by (simp add: has_areas_def k'_def machine_of_def)
  moreover have "areas k' (cur # new) = Some (USER_END - PGSIZE, USER_END, 0, 0, VM_READ OR VM_WRITE OR VM_ANON)
      # map (Some \<circ> loaded_area) (rev (load_segments phs))"
  proof -
    have "areas k' (cur # new) = areas k3 (cur # new)" by (simp add: areas_def k'_def)
    then show ?thesis by (simp only: m(3) e(3))
  qed
  moreover have "mem k' = copied root (swapper_pg_dir b) PGSIZE (mem k)" "nr_tasks k' = 2"
    "task k' = (task k)[1 := p]" "idle k' = idle k" "current k' = current k"
    "files_at k' (files t) = Some standard_files" "kernel.more k' = kernel.more k"
    using m(4) e(6) s(8,9) k3 by (simp_all add: k'_def)
  moreover have same: "machine_of k' = machine_of k3" by (simp add: k'_def machine_of_def)
  moreover have "insert root (used_pages K (machine_of k)) \<subseteq> used_pages K (machine_of k')"
    "free_pages_left K (machine_of k) = free_pages_left K (machine_of k') + 4 + length (load_segments phs)"
    using s(10,16) e(7,8) m(6,7) unfolding same by (blast, simp)
  ultimately show ?thesis
    using run p0 s(3,6,7) tk t2 others unfolding phs_def [symmetric] by metis
qed

lemma init_idle_ok:
  assumes ready: "memory_ready K b (machine_of k)" and left: "0 < free_pages_left K (machine_of k)"
    and tab: "task k \<noteq> []"
  shows "\<exists>p t k'. init_idle k = Inr k' \<and> p \<noteq> 0 \<and> memory_ready K b (machine_of k')
    \<and> used_pages K (machine_of k') = insert p (used_pages K (machine_of k))
    \<and> Suc (free_pages_left K (machine_of k')) = free_pages_left K (machine_of k)
    \<and> mem k' = mem k \<and> task_at k' p = Some t \<and> counter t = 0 \<and> idle k' = p \<and> current k' = p
    \<and> task k' = (task k)[0 := p] \<and> nr_tasks k' = 1 \<and> kernel.more k' = kernel.more k"
proof -
  define k0 where "k0 = k\<lparr>seed := srand 2024, nr_tasks := 0\<rparr>"
  have m0: "machine_of k0 = machine_of k" by (simp add: k0_def machine_of_def)
  have ready0: "alloc_ok K (machine_of k0)" "0 < free_pages_left K (machine_of k0)"
    using ready left unfolding m0 by (simp_all add: memory_ready_def)
  obtain p b1 where p: "alloc_on k0 = Inr (p, k0\<lparr>bud := b1\<rparr>)" "p \<noteq> 0"
    "alloc_ok K (machine_of (k0\<lparr>bud := b1\<rparr>))"
    "used_pages K (machine_of (k0\<lparr>bud := b1\<rparr>)) = insert p (used_pages K (machine_of k))"
    "Suc (free_pages_left K (machine_of (k0\<lparr>bud := b1\<rparr>))) = free_pages_left K (machine_of k)"
    using alloc_on_used [OF ready0] unfolding m0 by blast
  define t where "t = (task_in (mem k) p)\<lparr>task_state := TASK_RUNNING, counter := 0, priority := 0, pid := 0\<rparr>"
  define k' where "k' = k0\<lparr>bud := b1, idle := p, task_at := (task_at k)(p \<mapsto> t), current := p,
    task := (task k)[0 := p], nr_tasks := 1\<rparr>"
  have run: "init_idle k = Inr k'"
    using p(1,2) tab by (simp add: init_idle_def k0_def k'_def t_def Let_def)
  have m': "machine_of k' = machine_of (k0\<lparr>bud := b1\<rparr>)" by (simp add: k'_def machine_of_def)
  have "mem (machine_of k') = mem (machine_of k)" by (simp add: k'_def k0_def machine_of_def)
  then have "memory_ready K b (machine_of k')"
    by (rule memory_ready_alloc [OF ready]) (use p(3,4) in \<open>auto simp: m'\<close>)
  then show ?thesis
    using run p(2,4,5) unfolding m' [symmetric]
    by (intro exI [of _ p] exI [of _ t] exI [of _ k']) (simp add: k'_def k0_def t_def)
qed

lemma task_init_aux:
  assumes "console_out (firmware b) out" and "memory_ready K b (machine_of k)" and "length (task k) = unat NR_TASKS"
    and "5 + length (load_segments (program_headers (mem k) (ramdisk b))) \<le> free_pages_left K (machine_of k)"
  shows "\<exists>p root tk ps k'. task_init b k = Inr k' \<and> sched_wf k' \<and> nr_tasks k' = NR_TASKS
    \<and> task k' = [idle k', p] \<and> current k' = idle k'
    \<and> task_at k' p = Some tk \<and> first_task b p (e_entry (ehdr_in (mem k) (ramdisk b))) tk
    \<and> files_at k' (files tk) = Some standard_files
    \<and> has_areas K p ps k' \<and> areas k' ps = Some (USER_END - PGSIZE, USER_END, 0, 0, VM_READ OR VM_WRITE OR VM_ANON)
          # map (Some \<circ> loaded_area) (rev (load_segments (program_headers (mem k) (ramdisk b))))
    \<and> pgd tk = root - PA2VA_OFFSET \<and> root \<in> page_pool K - used_pages K (machine_of k)
    \<and> mem k' = copied root (swapper_pg_dir b) PGSIZE (mem k)
    \<and> out (world k') = out (world k) @ message ''...task_init done!''
    \<and> insert root (used_pages K (machine_of k)) \<subseteq> used_pages K (machine_of k') \<and> p \<noteq> 0
    \<and> free_pages_left K (machine_of k) = free_pages_left K (machine_of k') + 5
        + length (load_segments (program_headers (mem k) (ramdisk b)))
    \<and> hosted.more k' = hosted.more k"
proof -
  have two: "unat NR_TASKS = 2" "(1 :: u64) < NR_TASKS" "1 + 1 = NR_TASKS" by (simp_all add: NR_TASKS_def)
  have len: "length (task k) = 2" using assms(3) two by simp
  then have tab: "task k \<noteq> []" by auto
  have left: "0 < free_pages_left K (machine_of k)" using assms(4) by simp
  obtain p0 t0 k1 where i: "init_idle k = Inr k1" "p0 \<noteq> 0" "memory_ready K b (machine_of k1)"
    "used_pages K (machine_of k1) = insert p0 (used_pages K (machine_of k))"
    "Suc (free_pages_left K (machine_of k1)) = free_pages_left K (machine_of k)"
    "mem k1 = mem k" "task_at k1 p0 = Some t0" "counter t0 = 0" "idle k1 = p0" "current k1 = p0"
    "task k1 = (task k)[0 := p0]" "nr_tasks k1 = 1" "kernel.more k1 = kernel.more k"
    using init_idle_ok [OF assms(2) left tab] by blast
  have len1: "2 \<le> length (task k1)" using len i(11) by simp
  have left1: "4 + length (load_segments (program_headers (mem k1) (ramdisk b))) \<le> free_pages_left K (machine_of k1)"
    using assms(4) i(5,6) by simp
  obtain p root tk ps k2 where f: "init_task b 1 k1 = Inr k2" "p \<noteq> 0" "p \<notin> used_pages K (machine_of k1)"
    "task_at k2 p = Some tk" "first_task b p (e_entry (ehdr_in (mem k) (ramdisk b))) tk"
    "has_areas K p ps k2" "areas k2 ps = Some (USER_END - PGSIZE, USER_END, 0, 0, VM_READ OR VM_WRITE OR VM_ANON)
          # map (Some \<circ> loaded_area) (rev (load_segments (program_headers (mem k) (ramdisk b))))"
    "pgd tk = root - PA2VA_OFFSET" "root \<in> page_pool K - used_pages K (machine_of k1)"
    "mem k2 = copied root (swapper_pg_dir b) PGSIZE (mem k)" "files_at k2 (files tk) = Some standard_files"
    "\<forall>q. q \<noteq> p \<longrightarrow> task_at k2 q = task_at k1 q" "nr_tasks k2 = 2" "task k2 = (task k1)[1 := p]"
    "idle k2 = p0" "current k2 = p0" "kernel.more k2 = kernel.more k1"
    "insert root (used_pages K (machine_of k1)) \<subseteq> used_pages K (machine_of k2)"
    "free_pages_left K (machine_of k1) = free_pages_left K (machine_of k2) + 4
        + length (load_segments (program_headers (mem k1) (ramdisk b)))"
    using init_task_ok [OF i(3,12) len1 left1] unfolding i(6,9,10) by blast
  have tasks: "task k2 = [p0, p]"
    using len unfolding f(14) i(11) by (cases "task k"; cases "tl (task k)") auto
  have plain: "0x25 \<notin> set (message ''...task_init done!'')" by code_simp
  have pp: "p0 \<noteq> p" using i(4) f(3) by blast
  obtain w where w: "printk (firmware b) (message ''...task_init done!'') [] k2
      = Inr (of_nat (length (message ''...task_init done!'')), k2\<lparr>world := w\<rparr>)"
    "out w = out (world k2) @ message ''...task_init done!''"
    using printk_plain [OF assms(1) plain, of "[]" k2] by blast
  define k' where "k' = k2\<lparr>world := w\<rparr>"
  have run: "task_init b k = Inr k'"
  proof -
    have "for_range 1 NR_TASKS (init_task b) k1 = Inr k2"
      using f(1) by (simp add: for_range_step [OF two(2)] two(3) del: one_add_one)
    then show ?thesis using i(1) w(1) by (simp add: task_init_def k'_def message_def)
  qed
  have "world k2 = world k" "hosted.more k2 = hosted.more k"
    using i(13) f(17) by (cases k; cases k1; cases k2; simp)+
  then have out: "out (world k') = out (world k) @ message ''...task_init done!''" using w(2) by (simp add: k'_def)
  have idle: "task_at k2 p0 = Some t0" using f(12) pp i(7) by simp
  have "sched_wf k'"
    using f(2,4,5,13,15,16) idle pp i(2,8) tasks
    by (auto simp: sched_wf_def k'_def nthreads_def thread_ptr_def first_task_def)
  moreover have "has_areas K p ps k'" "areas k' ps = areas k2 ps"
    using f(6) by (simp_all add: has_areas_def areas_def k'_def machine_of_def)
  moreover have "root \<in> page_pool K - used_pages K (machine_of k)" using f(9) i(4) by blast
  moreover have m: "machine_of k' = machine_of k2" by (simp add: k'_def machine_of_def)
  moreover have "insert root (used_pages K (machine_of k)) \<subseteq> used_pages K (machine_of k')"
    using f(18) i(4) unfolding m by blast
  moreover have "free_pages_left K (machine_of k) = free_pages_left K (machine_of k') + 5
      + length (load_segments (program_headers (mem k) (ramdisk b)))"
    using f(19) i(5,6) unfolding m by simp
  ultimately show ?thesis
    using run out f(2,4,5,7,8,10,11,13,15,16) tasks \<open>hosted.more k2 = hosted.more k\<close>
    by (intro exI [of _ p] exI [of _ root] exI [of _ tk] exI [of _ ps] exI [of _ k'])
      (simp add: k'_def NR_TASKS_def)
qed

text \<open>
  C37: \<open>task_init\<close> sets up the task table: the idle task, which is the current one, and a first
  process that the scheduler can run. The process starts with a full context, the standard
  files, the kernel's page table as its own, an area for every loadable segment of the image and
  one for its stack.
\<close>

theorem task_init_ready:
  assumes "console_out (firmware b) out" and "memory_ready K b (machine_of k)" and "length (task k) = unat NR_TASKS"
    and "5 + length (load_segments (program_headers (mem k) (ramdisk b))) \<le> free_pages_left K (machine_of k)"
  shows "\<exists>p root tk ps k'. task_init b k = Inr k' \<and> sched_wf k' \<and> nr_tasks k' = NR_TASKS
    \<and> task k' = [idle k', p] \<and> current k' = idle k'
    \<and> task_at k' p = Some tk \<and> first_task b p (e_entry (ehdr_in (mem k) (ramdisk b))) tk
    \<and> files_at k' (files tk) = Some standard_files
    \<and> has_areas K p ps k' \<and> areas k' ps = Some (USER_END - PGSIZE, USER_END, 0, 0, VM_READ OR VM_WRITE OR VM_ANON)
          # map (Some \<circ> loaded_area) (rev (load_segments (program_headers (mem k) (ramdisk b))))
    \<and> pgd tk = root - PA2VA_OFFSET \<and> root \<in> page_pool K - used_pages K (machine_of k)
    \<and> mem k' = copied root (swapper_pg_dir b) PGSIZE (mem k)
    \<and> out (world k') = out (world k) @ message ''...task_init done!''"
  using task_init_aux [OF assms] by blast

section \<open>Entering the first process\<close>

text \<open>The value of \<^verbatim>\<open>satp\<close> that \<open>switch_mm\<close> computes leads to the page table of the task.\<close>

lemma switch_satp:
  assumes "page_aligned r" "r - PA2VA_OFFSET < 2 ^ 56"
  defines "v \<equiv> drop_bit PGSHIFT (r - PA2VA_OFFSET) AND PPN_MASK OR push_bit 60 8"
  shows "push_bit 12 (v AND PPN_MASK) + PA2VA_OFFSET = r" "drop_bit 60 v = 8"
  using satp_root [OF assms(1,2)] unfolding v_def VA2PA_def PGSHIFT_def by (simp_all only: or.commute)

lemma single_task_loop: "for_range 1 NR_TASKS f s = f 1 s"
proof -
  have "(1 :: u64) < NR_TASKS" "1 + 1 = NR_TASKS" by (simp_all add: NR_TASKS_def)
  then show ?thesis by (simp add: for_range_step bindr_def del: one_add_one split: sum.splits)
qed

lemma schedule_first:
  assumes tab: "nr_tasks k = NR_TASKS" "task k = [idle k, p]" "current k = idle k" and wf: "sched_wf k"
    and tk: "task_at k p = Some tk" "counter tk = 0" and i: "task_at k (idle k) = Some t"
  shows "schedule k = Inr (k\<lparr>current := p, satp := (drop_bit PGSHIFT (pgd tk) AND PPN_MASK) OR push_bit 60 8,
    task_at := (task_at k)(p \<mapsto> tk\<lparr>counter := priority tk\<rparr>, idle k \<mapsto> t\<lparr>thread := cpu k\<rparr>), cpu := thread tk\<rparr>)"
proof -
  have p: "p \<noteq> 0" "p \<noteq> idle k" "idle k \<noteq> 0" "counter t = 0" "priority tk \<noteq> 0"
    using wf tab tk i by (auto simp: sched_wf_def nthreads_def thread_ptr_def NR_TASKS_def)
  define k1 where "k1 = k\<lparr>task_at := (task_at k)(p \<mapsto> tk\<lparr>counter := priority tk\<rparr>)\<rparr>"
  have "sched_step k 1 (idle k) = Inr (idle k)"
    using p tab tk i by (simp add: sched_step_def)
  moreover have "refill_step 1 k = Inr k1" using p tab tk by (simp add: refill_step_def k1_def)
  moreover have "sched_step k1 1 (idle k) = Inr p"
    using p tab tk i by (simp add: sched_step_def k1_def word_le_nat_alt unat_eq_0)
  moreover have "nr_tasks k1 = NR_TASKS" "idle k1 = idle k" by (simp_all add: k1_def tab)
  ultimately have "schedule_loop 2 (idle k) k = Inr (p, k1)"
    using p(2) tab(1) by (simp add: numeral_2_eq_2 single_task_loop)
  then show ?thesis
    using p tab(3) tk i by (simp add: schedule_def switch_to_def switch_mm_def switch_context_def k1_def fun_upd_twist)
qed

text \<open>
  When \<open>task_init\<close> has set up the first process, \<open>start_kernel\<close> greets and leaves for it: its time
  slice is its priority, \<^verbatim>\<open>satp\<close> selects its page table, the hart returns to \<^verbatim>\<open>__dummy\<close>, and from there
  the program starts at its entry point with the user's stack, the task's kernel stack waiting in
  \<^verbatim>\<open>sscratch\<close>.
\<close>

lemma first_process_starts:
  assumes "console_out (firmware b) out" and "sched_wf k"
    and "nr_tasks k = NR_TASKS" and "task k = [idle k, p]" and "current k = idle k"
    and "task_at k p = Some tk" and "first_task b p entry tk"
    and "pgd tk = root - PA2VA_OFFSET" and "page_aligned root" and "root - PA2VA_OFFSET < 2 ^ 56"
  shows "\<exists>k'. start_kernel (firmware b) k = Inr k' \<and> current k' = p
    \<and> task_at k' p = Some (tk\<lparr>counter := priority tk\<rparr>)
    \<and> page_root k' = root \<and> drop_bit 60 (satp k') = 8 \<and> mem k' = mem k
    \<and> th_ra (cpu k') = dummy_entry b \<and> th_sepc (run_dummy (cpu k')) = entry
    \<and> th_sp (run_dummy (cpu k')) = USER_END \<and> th_sscratch (run_dummy (cpu k')) = p + PGSIZE
    \<and> out (world k') = out (world k) @ message ''2024 ZJU Operating System''
    \<and> machine_of k' = machine_of k \<and> vma_at k' = vma_at k \<and> files_at k' = files_at k
    \<and> task k' = task k \<and> idle k' = idle k \<and> hosted.more k' = hosted.more k"
proof -
  have plain: "0x25 \<notin> set (message ''2024 ZJU Operating System'')" by code_simp
  obtain w where w: "say (firmware b) (message ''2024 ZJU Operating System'') k = Inr (k\<lparr>world := w\<rparr>)"
    "out w = out (world k) @ message ''2024 ZJU Operating System''"
    using say_world [OF assms(1) plain] by blast
  define k1 where "k1 = k\<lparr>world := w\<rparr>"
  obtain t where t: "task_at k (idle k) = Some t" using assms(2) by (auto simp: sched_wf_def)
  have th: "counter tk = 0" "th_ra (thread tk) = dummy_entry b" "th_sepc (thread tk) = entry"
    "th_sp (thread tk) = p + PGSIZE" "th_sscratch (thread tk) = USER_END"
    using assms(7) by (simp_all add: first_task_def)
  have "thread_ptr k1 = thread_ptr k" "nthreads k1 = nthreads k"
    by (simp_all add: fun_eq_iff thread_ptr_def nthreads_def k1_def)
  then have wf1: "sched_wf k1" using assms(2) by (simp add: sched_wf_def) (simp add: k1_def)
  have p: "p \<noteq> idle k"
    using assms(2-4) by (auto simp: sched_wf_def nthreads_def thread_ptr_def NR_TASKS_def)
  define v where "v = drop_bit PGSHIFT (root - PA2VA_OFFSET) AND PPN_MASK OR push_bit 60 8"
  define k' where "k' = k1\<lparr>current := p, satp := v,
    task_at := (task_at k)(p \<mapsto> tk\<lparr>counter := priority tk\<rparr>, idle k \<mapsto> t\<lparr>thread := cpu k\<rparr>), cpu := thread tk\<rparr>"
  have "schedule k1 = Inr k'"
    using schedule_first [of k1 p tk t, OF _ _ _ wf1 _ th(1)] assms(3-6,8) t
    unfolding k'_def v_def by (simp add: k1_def)
  then have run: "start_kernel (firmware b) k = Inr k'" using w(1) by (simp add: start_kernel_def k1_def)
  have s: "current k' = p" "task_at k' p = Some (tk\<lparr>counter := priority tk\<rparr>)" "satp k' = v" "mem k' = mem k"
    "cpu k' = thread tk" "world k' = w" "machine_of k' = machine_of k" "vma_at k' = vma_at k"
    "files_at k' = files_at k" "task k' = task k" "idle k' = idle k" "hosted.more k' = hosted.more k"
    using p by (simp_all add: k'_def k1_def machine_of_def)
  have "run_dummy (cpu k') = (thread tk)\<lparr>th_sp := USER_END, th_sscratch := p + PGSIZE\<rparr>"
    using th by (simp add: s run_dummy_def USER_END_def)
  then show ?thesis
    using run s w(2) th switch_satp [OF assms(9,10), folded v_def]
    by (intro exI [of _ k']) (simp add: page_root_def)
qed

end
