(* ===== verification/First_Thread_Witness.thy ===== *)
theory First_Thread_Witness
  imports First_Thread Process_Witness
begin

text \<open>
  Starting the first process on a small machine: eight frames of which two are in use, and the tiny
  image as its ramdisk.
\<close>

definition boot_board :: "(u8 list, ram blk) board" where
  "boot_board = demo_board\<lparr>ramdisk := 0x1000000, swapper_pg_dir := page_va 0, dummy_entry := 0xffffffe000000100\<rparr>"

definition fresh_kernel :: "u8 list hosted" where
  "fresh_kernel = paper_kernel\<lparr>bud := eight_two_used, mem := store (\<lambda>_. 0) 0x1000000 tiny_image, task := [0, 0]\<rparr>"

lemma boot_simps: "firmware boot_board = paper_platform" "ramdisk boot_board = 0x1000000"
  "swapper_pg_dir boot_board = page_va 0" "dummy_entry boot_board = 0xffffffe000000100"
  by (simp_all add: boot_board_def demo_board_def)

lemma fresh_machine: "machine_of fresh_kernel = image_space" "mem fresh_kernel = store (\<lambda>_. 0) 0x1000000 tiny_image"
  "task fresh_kernel = [0, 0]" "world fresh_kernel = []"
  by (simp_all add: machine_of_def fresh_kernel_def image_space_def start_space_def paper_kernel_def)

lemma image_pages: "used_pages 3 image_space = used_pages 3 start_space" "alloc_ok 3 image_space"
  "free_pages_left 3 image_space = 6" "page_va 0 \<in> used_pages 3 image_space"
  using start_ok start_left
  by (simp_all add: image_space_def used_pages_def free_pages_left_def address_space_def alloc_ok_def
      start_space_def eight_in_use)

lemma tiny_header:
  "e_entry (ehdr_in (store (\<lambda>_. 0) 0x1000000 tiny_image) 0x1000000) = 0x10078"
  "e_phoff (ehdr_in (store (\<lambda>_. 0) 0x1000000 tiny_image) 0x1000000) = 64"
  "e_phnum (ehdr_in (store (\<lambda>_. 0) 0x1000000 tiny_image) 0x1000000) = 2"
  by code_simp+

lemma tiny_length: "length tiny_image = 176"
  by code_simp

lemma tiny_segments:
  "length (load_segments (program_headers (store (\<lambda>_. 0) 0x1000000 tiny_image) 0x1000000)) = 1"
  unfolding tiny_headers by (simp add: load_segments_def PT_LOAD_def)

lemma boot_memory: "memory_ready 3 boot_board image_space"
  unfolding memory_ready_def boot_simps
proof (intro conjI ballI allI impI)
  show "alloc_ok 3 image_space" "page_va 0 \<in> used_pages 3 image_space" by (rule image_pages)+
next
  fix p i assume p: "p \<in> page_pool 3 - used_pages 3 image_space" and i: "(i :: u64) < 4096"
  define j where "j = p + i - 0x1000000"
  have eq: "0x1000000 + j - p = i" by (simp add: j_def)
  have "\<not> j < 0x10000"
  proof
    assume "j < 0x10000"
    then have "\<not> i < 4096" using disk_apart [of j p] p unfolding eq by blast
    then show False using i by simp
  qed
  then have "\<not> unat j < 176" by (simp add: word_less_nat_alt)
  then show "mem image_space (p + i) = 0" by (simp add: image_space_def store_def tiny_length j_def)
next
  fix p x assume p: "p \<in> page_pool 3 - used_pages 3 image_space"
    and x: "x \<in> header_bytes (mem image_space) 0x1000000"
  have m: "mem image_space = store (\<lambda>_. 0) 0x1000000 tiny_image" by (simp add: image_space_def)
  obtain i :: nat where i: "x = 0x1000000 + of_nat i" "i < 176"
    using x unfolding header_bytes_def m tiny_header
  proof (elim UnE CollectE exE conjE)
    fix i assume "x = 0x1000000 + 64 + word_of_nat i" "i < 56 * unat (2 :: u16)"
    then show thesis using that [of "64 + i"] by simp
  qed (use that in fastforce)
  have "unat (of_nat i :: u64) = i" using i(2) by (intro unat_of_nat_small) simp
  then have "(of_nat i :: u64) < 0x10000" using i(2) by (simp add: word_less_nat_alt)
  then show "\<not> x - p < 4096" using disk_apart [of "of_nat i" p] p i(1) by blast
qed

lemma boot_ready:
  "console_out (firmware boot_board) (\<lambda>w. w)" "memory_ready 3 boot_board (machine_of fresh_kernel)"
  "length (task fresh_kernel) = unat NR_TASKS"
  "5 + length (load_segments (program_headers (mem fresh_kernel) (ramdisk boot_board)))
     \<le> free_pages_left 3 (machine_of fresh_kernel)"
  by (simp_all add: boot_simps paper_console boot_memory fresh_machine tiny_segments image_pages NR_TASKS_def)

theorem task_init_ready_witness:
  "\<exists>p tk k'. task_init boot_board fresh_kernel = Inr k' \<and> task k' = [idle k', p] \<and> task_at k' p = Some tk
     \<and> th_sepc (thread tk) = 0x10078 \<and> world k' = message ''...task_init done!''"
  using task_init_ready [OF boot_ready] unfolding boot_simps fresh_machine tiny_header first_task_def append_Nil
  by metis

end
