(* ===== verification/Mount.thy ===== *)
theory Mount
  imports Fat32_Props Bring_Up
begin

text \<open>
  Bringing up the disk: the partition scan of \<^verbatim>\<open>fs/mbr.c\<close> over the sector interface, and the probing
  of the virtio devices.
\<close>

section \<open>The partition scan\<close>

text \<open>The geometry that the parameter block \<open>bs\<close> of a volume at sector \<open>lba\<close> describes.\<close>

definition geometry :: "u64 \<Rightarrow> u8 list \<Rightarrow> fat32_volume" where
  "geometry lba bs =
     (let reserved = ucast (u16_at bs 14); fats = u8_at bs 16; fat_size = u32_at bs 36
      in \<lparr>first_data_sec = lba + reserved + ucast (ucast fats * fat_size :: u32),
          first_fat_sec = lba + reserved, sec_per_cluster = ucast (u8_at bs 13), fat_sz = ucast fat_size\<rparr>)"

text \<open>The volumes a disk offers: partitions of type \<open>0x83\<close> whose first sector has the boot signature.\<close>

definition linux_starts :: "partition_entry list \<Rightarrow> u64 list" where
  "linux_starts ps = map (\<lambda>p. ucast (lba_first_sector p)) (filter (\<lambda>p. pe_type p = 0x83) ps)"

definition volumes :: "(u64 \<Rightarrow> u8 list) \<Rightarrow> partition_entry list \<Rightarrow> u64 list" where
  "volumes c ps = filter (\<lambda>lba. u16_at (c lba) 510 = 0xaa55) (linux_starts ps)"

definition mounted :: "(u64 \<Rightarrow> u8 list) \<Rightarrow> partition_entry list \<Rightarrow> fat32_volume \<Rightarrow> fat32_volume" where
  "mounted c ps v = (if volumes c ps = [] then v else let lba = last (volumes c ps) in geometry lba (c lba))"

text \<open>What the scan prints: a line for every volume.\<close>

definition mount_log :: "(u64 \<Rightarrow> u8 list) \<Rightarrow> partition_entry list \<Rightarrow> u8 list" where
  "mount_log c ps = concat (map (\<lambda>i. if pe_type (ps ! i) = 0x83 \<and> u16_at (c (ucast (lba_first_sector (ps ! i)))) 510 = 0xaa55
     then partition_message i else []) [0 ..< length ps])"

definition partitions :: "(u64 \<Rightarrow> u8 list) \<Rightarrow> partition_entry list" where
  "partitions c = partition_table (mbr_of (c 0))"

lemma length_partitions: "length (partitions c) = 4"
  by (simp add: partitions_def mbr_of_def)

lemma linux_starts_snoc:
  "linux_starts (ps @ [p]) = linux_starts ps @ (if pe_type p = 0x83 then [ucast (lba_first_sector p)] else [])"
  by (simp add: linux_starts_def)

lemma volumes_snoc:
  "volumes c (ps @ [p]) = volumes c ps
     @ (if pe_type p = 0x83 \<and> u16_at (c (ucast (lba_first_sector p))) 510 = 0xaa55
        then [ucast (lba_first_sector p)] else [])"
  by (simp add: volumes_def linux_starts_snoc)

lemma mount_log_snoc:
  "mount_log c (ps @ [p]) = mount_log c ps
     @ (if pe_type p = 0x83 \<and> u16_at (c (ucast (lba_first_sector p))) 510 = 0xaa55
        then partition_message (length ps) else [])"
proof -
  have "concat (map (\<lambda>i. if pe_type ((ps @ [p]) ! i) = 0x83
        \<and> u16_at (c (ucast (lba_first_sector ((ps @ [p]) ! i)))) 510 = 0xaa55
      then partition_message i else []) [0 ..< length ps]) = mount_log c ps"
    unfolding mount_log_def by (intro arg_cong [where f = concat] map_cong) (simp_all add: nth_append)
  then show ?thesis by (simp add: mount_log_def)
qed

context block_device
begin

lemma load_header_ok:
  fixes s :: "'d fat32"
  assumes "ok (disk s)" "lba < cap"
  shows "\<exists>d. load_header io lba s = Inr (s\<lparr>fat32_header := bpb_of (content (disk s) lba), disk := d\<rparr>)
    \<and> ok d \<and> content d = content (disk s)"
proof -
  obtain d where "read_sector io lba (disk s) = Inr (content (disk s) lba, d)" "ok d" "content d = content (disk s)"
    using read_sectorE [OF assms] by blast
  then show ?thesis by (intro exI [of _ d]) (simp add: load_header_def)
qed

lemma is_fat32_ok:
  fixes s :: "'d fat32"
  assumes "ok (disk s)" "lba < cap"
  shows "\<exists>yes f. is_fat32 io lba s = Inr (yes, f) \<and> (yes \<noteq> 0 \<longleftrightarrow> u16_at (content (disk s) lba) 510 = 0xaa55)
    \<and> ok (disk f) \<and> content (disk f) = content (disk s) \<and> fat32_volume f = fat32_volume s"
proof -
  obtain d where d: "load_header io lba s = Inr (s\<lparr>fat32_header := bpb_of (content (disk s) lba), disk := d\<rparr>)"
    "ok d" "content d = content (disk s)"
    using load_header_ok [OF assms] by blast
  then show ?thesis by (simp add: is_fat32_def bpb_of_def)
qed

lemma fat32_init_ok:
  fixes s :: "'d fat32"
  assumes "ok (disk s)" "lba < cap"
  shows "\<exists>f. fat32_init io lba sz s = Inr f \<and> ok (disk f) \<and> content (disk f) = content (disk s)
    \<and> fat32_volume f = geometry lba (content (disk s) lba)"
proof -
  obtain d where d: "load_header io lba s = Inr (s\<lparr>fat32_header := bpb_of (content (disk s) lba), disk := d\<rparr>)"
    "ok d" "content d = content (disk s)"
    using load_header_ok [OF assms] by blast
  then show ?thesis by (simp add: fat32_init_def geometry_def bpb_of_def Let_def)
qed

lemma partition_init_ok:
  fixes k :: "('w, 'd, 'a) system_scheme"
  assumes out: "console_out p out" and i: "i < 4" and k: "ok (disk (fs k))" "lba < cap"
  shows "\<exists>f w. partition_init p io (of_nat i + 1) lba sz k = Inr (k\<lparr>fs := f, world := w\<rparr>)
    \<and> ok (disk f) \<and> content (disk f) = content (disk (fs k))
    \<and> fat32_volume f = (if u16_at (content (disk (fs k)) lba) 510 = 0xaa55
                       then geometry lba (content (disk (fs k)) lba) else fat32_volume (fs k))
    \<and> out w = out (world k) @ (if u16_at (content (disk (fs k)) lba) 510 = 0xaa55 then partition_message i else [])"
proof -
  obtain yes f where f: "is_fat32 io lba (fs k) = Inr (yes, f)"
    "yes \<noteq> 0 \<longleftrightarrow> u16_at (content (disk (fs k)) lba) 510 = 0xaa55"
    "ok (disk f)" "content (disk f) = content (disk (fs k))" "fat32_volume f = fat32_volume (fs k)"
    using is_fat32_ok [OF k] by blast
  show ?thesis
  proof (cases "yes = 0")
    case True
    then have "partition_init p io (of_nat i + 1) lba sz k = Inr (k\<lparr>fs := f, world := world k\<rparr>)"
      using f(1) by (simp add: partition_init_def)
    then show ?thesis using f(2-5) True by (intro exI [of _ f] exI [of _ "world k"]) simp
  next
    case False
    obtain g where g: "fat32_init io lba sz f = Inr g" "ok (disk g)" "content (disk g) = content (disk f)"
      "fat32_volume g = geometry lba (content (disk f) lba)"
      using fat32_init_ok [OF f(3) k(2)] by blast
    obtain n w where w: "printk p (message ''...fat32 partition #%d init done!'') [scast (of_nat i + 1 :: u32)]
        (k\<lparr>fs := g\<rparr>) = Inr (n, k\<lparr>fs := g, world := w\<rparr>)"
      "out w = out (world (k\<lparr>fs := g\<rparr>)) @ partition_message i"
      using partition_printed [OF out i, of "k\<lparr>fs := g\<rparr>"] by (elim exE conjE)
    have "partition_init p io (of_nat i + 1) lba sz k = Inr (k\<lparr>fs := g, world := w\<rparr>)"
      using f(1) g(1) w(1) False by (simp only: partition_init_def bindr_Inr prod.case if_True simp_thms)
    then show ?thesis
      using f(2,4) g(2-4) w(2) False by (intro exI [of _ g] exI [of _ w]) simp
  qed
qed

lemma mbr_init_ok:
  fixes k :: "('w, 'd, 'a) system_scheme"
  assumes out: "console_out p out" and "ok (disk (fs k))"
  defines "c \<equiv> content (disk (fs k))"
  assumes cap: "0 < cap" "\<forall>lba \<in> set (linux_starts (partitions c)). lba < cap"
  shows "\<exists>f w. mbr_init p io k = Inr (k\<lparr>fs := f, world := w\<rparr>) \<and> ok (disk f) \<and> content (disk f) = c
    \<and> fat32_volume f = mounted c (partitions c) (fat32_volume (fs k))
    \<and> out w = out (world k) @ mount_log c (partitions c)"
proof -
  define ps where "ps = partitions c"
  have len: "length ps = 4" by (simp add: ps_def length_partitions)
  obtain d where d: "read_sector io 0 (disk (fs k)) = Inr (c 0, d)" "ok d" "content d = c"
    using read_sectorE [OF assms(2) cap(1)] unfolding c_def by blast
  define body where "body i k = bindr (aget ps i) (\<lambda>e.
      if pe_type e = 0x83
      then partition_init p io (i + 1) (ucast (lba_first_sector e)) (ucast (sector_count e)) k
      else Inr k)" for i :: u32 and k :: "('w, 'd, 'a) system_scheme"
  define P where "P i t \<longleftrightarrow> (\<exists>f w. t = k\<lparr>fs := f, world := w\<rparr> \<and> ok (disk f) \<and> content (disk f) = c
      \<and> fat32_volume f = mounted c (take (unat i) ps) (fat32_volume (fs k))
      \<and> out w = out (world k) @ mount_log c (take (unat i) ps))" for i :: u32 and t
  have "\<exists>t. for_range 0 4 body (with_disk d k) = Inr t \<and> P 4 t"
  proof (rule for_range_inv)
    show "P 0 (with_disk d k)"
      using d(2,3) unfolding P_def
      by (intro exI [of _ "(fs k)\<lparr>disk := d\<rparr>"] exI [of _ "world k"])
        (simp add: with_disk_def mounted_def volumes_def linux_starts_def mount_log_def)
  next
    fix i :: u32 and t assume i: "i < 4" and P: "P i t"
    obtain f w where t: "t = k\<lparr>fs := f, world := w\<rparr>" "ok (disk f)" "content (disk f) = c"
      "fat32_volume f = mounted c (take (unat i) ps) (fat32_volume (fs k))"
      "out w = out (world k) @ mount_log c (take (unat i) ps)"
      using P by (auto simp: P_def)
    have u: "unat i < length ps" "unat (i + 1) = Suc (unat i)" "unat i < 4" "length (take (unat i) ps) = unat i"
      using i len word_Suc_less(1) [OF i] by (simp_all add: word_less_nat_alt)
    define e where "e = ps ! unat i"
    have step: "take (unat (i + 1)) ps = take (unat i) ps @ [e]"
      using take_Suc_conv_app_nth [OF u(1)] by (simp add: u(2) e_def)
    have b: "body i t = (if pe_type e = 0x83
        then partition_init p io (i + 1) (ucast (lba_first_sector e)) (ucast (sector_count e)) t else Inr t)"
      using u(1) by (simp add: body_def e_def)
    show "\<exists>t'. body i t = Inr t' \<and> P (i + 1) t'"
    proof (cases "pe_type e = 0x83")
      case False
      then have "P (i + 1) t"
        unfolding P_def step mounted_def volumes_snoc mount_log_snoc
        using t by (intro exI [of _ f] exI [of _ w]) (simp add: mounted_def)
      then show ?thesis using b False by simp
    next
      case True
      then have "ucast (lba_first_sector e) \<in> set (linux_starts ps)"
        using u(1) by (auto simp: linux_starts_def e_def)
      then have lba: "ucast (lba_first_sector e) < cap" using cap(2) by (simp add: ps_def)
      have s: "fs t = f" "world t = w" by (simp_all add: t(1))
      obtain g w' where g: "partition_init p io (of_nat (unat i) + 1) (ucast (lba_first_sector e))
          (ucast (sector_count e)) t = Inr (t\<lparr>fs := g, world := w'\<rparr>)" "ok (disk g)" "content (disk g) = c"
        "fat32_volume g = (if u16_at (c (ucast (lba_first_sector e))) 510 = 0xaa55
           then geometry (ucast (lba_first_sector e)) (c (ucast (lba_first_sector e))) else fat32_volume f)"
        "out w' = out w @ (if u16_at (c (ucast (lba_first_sector e))) 510 = 0xaa55
           then partition_message (unat i) else [])"
        using partition_init_ok [OF out u(3) _ lba, of t] t(2,3) unfolding s by metis
      have "P (i + 1) (t\<lparr>fs := g, world := w'\<rparr>)"
        unfolding P_def step mounted_def volumes_snoc mount_log_snoc u(4)
        using t g(2-5) True
        by (intro exI [of _ g] exI [of _ w']) (simp add: mounted_def Let_def)
      then show ?thesis using b True g(1) by simp
    qed
  qed simp
  then obtain t where t: "for_range 0 4 body (with_disk d k) = Inr t" "P 4 t" by blast
  have "mbr_init p io k = for_range 0 4 body (with_disk d k)"
  proof -
    have "body = (\<lambda>i k. bindr (aget (partition_table (mbr_of (c 0))) i) (\<lambda>e.
        if pe_type e = 0x83
        then partition_init p io (i + 1) (ucast (lba_first_sector e)) (ucast (sector_count e)) k
        else Inr k))"
      by (intro ext) (simp add: body_def ps_def partitions_def)
    then show ?thesis using d(1) by (simp add: mbr_init_def)
  qed
  then show ?thesis using t len by (auto simp: P_def ps_def)
qed

end
section \<open>Probing the devices\<close>

definition virtio_slot :: "u64 \<Rightarrow> u64" where
  "virtio_slot i = io_to_virt (VIRTIO_START + i * VIRTIO_SIZE)"

text \<open>The device in slot \<open>i\<close> is the last block device.\<close>

definition disk_in_slot :: "'h blk \<Rightarrow> u64 \<Rightarrow> virtio_regs \<Rightarrow> bool" where
  "disk_in_slot s i r \<longleftrightarrow> i < VIRTIO_COUNT \<and> mmio s (virtio_slot i) = Some r \<and> DeviceID r = ID_VIRTIO_BLK
     \<and> 2 \<le> length (Config r)
     \<and> (\<forall>j < VIRTIO_COUNT. \<exists>r'. mmio s (virtio_slot j) = Some r' \<and> (i < j \<longrightarrow> DeviceID r' \<noteq> ID_VIRTIO_BLK))"

lemma virtio_slot_nonzero: "j < VIRTIO_COUNT \<Longrightarrow> virtio_slot j \<noteq> 0"
proof -
  assume "j < VIRTIO_COUNT"
  then have "unat j < 8" by (simp add: VIRTIO_COUNT_def word_less_nat_alt)
  then have "unat (virtio_slot j) = 0xffffffc810001000 + 4096 * unat j"
    by (simp add: virtio_slot_def io_to_virt_def VIRTIO_START_def VIRTIO_SIZE_def IOMAP_OFFSET_def
        unat_word_ariths)
  then show ?thesis by auto
qed

lemma probe_ok:
  assumes d: "disk_in_slot s i r"
  shows "for_range 0 VIRTIO_COUNT (\<lambda>i. virtio_dev_test (virtio_slot i)) s
    = Inr (s\<lparr>virtio_blk_regs := virtio_slot i\<rparr>)"
proof -
  define P where "P j t \<longleftrightarrow> (\<exists>x. t = s\<lparr>virtio_blk_regs := x\<rparr> \<and> (i < j \<longrightarrow> x = virtio_slot i))" for j t
  have "\<exists>t. for_range 0 VIRTIO_COUNT (\<lambda>i. virtio_dev_test (virtio_slot i)) s = Inr t \<and> P VIRTIO_COUNT t"
  proof (rule for_range_inv)
    show "P 0 s" unfolding P_def by (intro exI [of _ "virtio_blk_regs s"]) simp
  next
    fix j t assume j: "j < VIRTIO_COUNT" and P: "P j t"
    obtain x where t: "t = s\<lparr>virtio_blk_regs := x\<rparr>" "i < j \<longrightarrow> x = virtio_slot i" using P by (auto simp: P_def)
    obtain r' where r': "mmio s (virtio_slot j) = Some r'" "i < j \<longrightarrow> DeviceID r' \<noteq> ID_VIRTIO_BLK"
      "i = j \<longrightarrow> DeviceID r' = ID_VIRTIO_BLK"
      using d j by (auto simp: disk_in_slot_def)
    have run: "virtio_dev_test (virtio_slot j) t
        = Inr (if DeviceID r' = ID_VIRTIO_BLK then t\<lparr>virtio_blk_regs := virtio_slot j\<rparr> else t)"
      using r'(1) virtio_slot_nonzero [OF j] by (simp add: virtio_dev_test_def t(1))
    have "i < j + 1 \<longleftrightarrow> i < j \<or> i = j" using less_Suc_word [OF j] by blast
    then have "P (j + 1) (if DeviceID r' = ID_VIRTIO_BLK then t\<lparr>virtio_blk_regs := virtio_slot j\<rparr> else t)"
      using t r'(2,3) unfolding P_def by auto
    with run show "\<exists>t'. virtio_dev_test (virtio_slot j) t = Inr t' \<and> P (j + 1) t'" by blast
  qed simp
  then show ?thesis using d by (auto simp: P_def disk_in_slot_def)
qed

text \<open>Pages that hold zeros, as \<open>virtio_blk_queue_init\<close> needs them for the available ring.\<close>

lemma virtio_dev_init_ok:
  assumes dev: "serves dev v" "0 < capacity v" and out: "console_out p out"
    and slot: "disk_in_slot (disk (fs k)) i r"
    and pages: "alloc_pages 3 (bud k) = Inr (pages, b)" "pages \<noteq> 0" "\<forall>i < 36. mem k (pages + PGSIZE + of_nat i) = 0"
    and fresh: "last_avail v (hw (disk (fs k))) = 0"
    and sig: "sectors v (hw (disk (fs k))) 0 ! 510 = 0x55" "sectors v (hw (disk (fs k))) 0 ! 511 = 0xaa"
  shows "\<exists>d w. virtio_dev_init p dev buf k = Inr ((with_disk d k)\<lparr>bud := b, world := w\<rparr>) \<and> blk_ready v d
    \<and> sectors v (hw d) = sectors v (hw (disk (fs k)))
    \<and> out w = out (world k) @ message ''...virtio_blk_init done!''"
proof -
  define m t where "m = machine_of k" and "t = disk (fs k)\<lparr>virtio_blk_regs := virtio_slot i\<rparr>"
  have m: "alloc_pages 3 (bud m) = Inr (pages, b)" "\<forall>i < 36. mem m (pages + PGSIZE + of_nat i) = 0"
    using pages(1,3) by (simp_all add: m_def machine_of_def)
  have i: "i < VIRTIO_COUNT" "mmio (disk (fs k)) (virtio_slot i) = Some r" "2 \<le> length (Config r)"
    using slot by (simp_all add: disk_in_slot_def)
  have regs: "virtio_blk_regs t \<noteq> 0" "mmio t (virtio_blk_regs t) = Some r" "last_avail v (hw t) = 0"
    using virtio_slot_nonzero [OF i(1)] i(2) fresh by (simp_all add: t_def)
  obtain s1 s2 s3 r2 where q: "virtio_blk_driver_init t = Inr s1" "virtio_blk_feature_init s1 = Inr s2"
    "virtio_blk_queue_init (m, s2) = Inr (m\<lparr>bud := b\<rparr>, s3)" "blk_ready v s3" "hw s3 = hw t"
    "virtio_blk_regs s2 = virtio_blk_regs t" "mmio s2 (virtio_blk_regs t) = Some r2" "Config r2 = Config r"
    using virtio_queue_setup_aux [OF regs(1,2) m(1) pages(2) m(2) regs(3)] by blast
  have "(0 :: u64) < 2 ^ 32" by simp
  from virtio_transfer [OF dev(1) q(4) this dev(2), of buf]
  obtain s4 where s4: "virtio_blk_read_sector dev 0 buf s3 = Inr s4" "blk_ready v s4"
    "load (dma s4) (virt_to_phys buf) 512 = sectors v (hw s3) 0" "sectors v (hw s4) = sectors v (hw s3)"
    by blast
  have "load (dma s4) (virt_to_phys buf) 512 ! 510 = 0x55" "load (dma s4) (virt_to_phys buf) 512 ! 511 = 0xaa"
    using sig s4(3) q(5) by (simp_all add: t_def)
  then have signature: "dma s4 (virt_to_phys buf + 510) = 0x55" "dma s4 (virt_to_phys buf + 511) = 0xaa"
    by simp_all
  have "virtio_blk_config_init s2 \<noteq> Inl e" for e
  proof -
    have "0 < length (Config r)" "1 < length (Config r)" using i(3) by linarith+
    then show ?thesis using regs(1) q(6-8) by (simp add: virtio_blk_config_init_def)
  qed
  then obtain cap where cap: "virtio_blk_config_init s2 = Inr cap" by (cases "virtio_blk_config_init s2") auto
  define k1 where "k1 = with_disk t k"
  define k2 where "k2 = with_disk s4 (with_machine (m\<lparr>bud := b\<rparr>) k1)"
  have plain: "0x25 \<notin> set (message ''...virtio_blk_init done!'')" by code_simp
  obtain w where w: "say p (message ''...virtio_blk_init done!'') k2 = Inr (k2\<lparr>world := w\<rparr>)"
    "out w = out (world k2) @ message ''...virtio_blk_init done!''"
    using say_world [OF out plain] by blast
  have k1: "disk (fs k1) = t" "machine_of k1 = m" by (simp_all add: k1_def m_def)
  have "virtio_blk_init p dev buf k1 = Inr (k2\<lparr>world := w\<rparr>)"
    unfolding virtio_blk_init_def k1 using q(1-3) cap s4(1) signature w(1) by (simp add: k2_def)
  then have "virtio_dev_init p dev buf k = Inr (k2\<lparr>world := w\<rparr>)"
    using probe_ok [OF slot] regs(1) by (simp add: virtio_dev_init_def virtio_slot_def t_def k1_def)
  moreover have "k2 = (with_disk s4 k)\<lparr>bud := b\<rparr>"
    by (simp add: k2_def k1_def m_def with_disk_def with_machine_def machine_of_def)
  ultimately show ?thesis using s4(2,4) q(5) w(2) by (intro exI [of _ s4] exI [of _ w]) (simp add: t_def)
qed

end
