(* ===== verification/Disk_Init.thy ===== *)
theory Disk_Init
  imports Mount Boot
begin

text \<open>
  Bringing up the disk during boot: the queue's pages from the allocator, the device, and the
  volume that is mounted.
\<close>

section \<open>Runs of pages\<close>

lemma free_pages_count:
  assumes "alloc_ok K s"
  shows "free_pages_left K s + card (pages_in_use K (bud s)) = 2 ^ K"
proof -
  have K: "min K 25 = K" "K \<le> 25" and inv: "mm_inv K (bud s)" using assms by (simp_all add: alloc_ok_def)
  define A U where "A = {0 ..< (2 :: nat) ^ K}" and "U = pages_in_use K (bud s)"
  have sub: "U \<subseteq> A" using pages_in_use_bound [OF inv] by (auto simp: A_def U_def)
  have inj: "inj_on page_va A" using small_pow [OF K(2)] page_va_inj by (auto simp: inj_on_def A_def)
  have "page_pool K - used_pages K s = page_va ` (A - U)"
    using inj sub by (simp add: page_pool_def used_pages_def K(1) A_def [symmetric] U_def [symmetric] inj_on_image_set_diff)
  moreover have "inj_on page_va (A - U)" using inj by (rule inj_on_subset) blast
  ultimately have "free_pages_left K s = card (A - U)" by (simp add: free_pages_left_def card_image)
  moreover have "finite A" "card A = 2 ^ K" by (simp_all add: A_def)
  ultimately show ?thesis
    using sub card_mono [OF _ sub] by (simp add: card_Diff_subset finite_subset U_def)
qed

text \<open>When fewer pages are in use than there are aligned blocks, one of the blocks is free.\<close>

lemma free_run_exists:
  assumes "card (pages_in_use K b) < 2 ^ (K - n)" and "n \<le> K" and "finite (pages_in_use K b)"
  shows "\<exists>x. free_run K b n x"
proof (rule ccontr)
  assume none: "\<nexists>x. free_run K b n x"
  have "{..< 2 ^ (K - n)} \<subseteq> (\<lambda>q. q div 2 ^ n) ` pages_in_use K b"
  proof
    fix j :: nat assume "j \<in> {..< 2 ^ (K - n)}"
    then have "(j + 1) * 2 ^ n \<le> 2 ^ (K - n) * 2 ^ n" by (intro mult_right_mono) simp_all
    also have "\<dots> = 2 ^ K" using assms(2) by (simp flip: power_add)
    finally have "j * 2 ^ n + 2 ^ n \<le> 2 ^ K" by simp
    moreover have "\<not> free_run K b n (j * 2 ^ n)" using none by blast
    ultimately obtain x q where x: "x \<in> allocated K b" "q \<in> pages x" "j * 2 ^ n \<le> q" "q < j * 2 ^ n + 2 ^ n"
      by (auto simp: free_run_def disjoint_iff)
    have "q \<in> pages_in_use K b" using x(1,2) by (auto simp: pages_in_use_def)
    moreover have "q div 2 ^ n = j" using x(3,4) by (intro div_nat_eqI) (simp_all add: mult.commute)
    ultimately show "j \<in> (\<lambda>q. q div 2 ^ n) ` pages_in_use K b" by force
  qed
  then have "card {..< (2 :: nat) ^ (K - n)} \<le> card (pages_in_use K b)"
    by (intro surj_card_le [OF assms(3)])
  with assms(1) show False by simp
qed

lemma alloc_three:
  assumes ok: "alloc_ok K s" and run: "\<exists>x. free_run K (bud s) 2 x"
  shows "\<exists>q b. alloc_pages 3 (bud s) = Inr (page_va q, b) \<and> q \<noteq> 0 \<and> q + 4 \<le> 2 ^ K
    \<and> {q ..< q + 4} \<inter> pages_in_use K (bud s) = {} \<and> alloc_ok K (s\<lparr>bud := b\<rparr>)"
proof -
  have inv: "mm_inv K (bud s)" and zero: "0 \<in> pages_in_use K (bud s)" using ok by (simp_all add: alloc_ok_def)
  have "(2 :: nat) ^ 2 \<le> 2 ^ K" using run by (auto simp: free_run_def)
  then have K: "2 \<le> K" by (rule power_le_imp_le_exp [rotated]) simp
  have "req_order 3 2" by (simp add: req_order_def)
  from buddy_alloc_success_aux [OF inv this run K] obtain pfn b where b: "buddy_alloc 3 (bud s) = Inr (pfn, b)"
    "free_run K (bud s) 2 (unat pfn)" "mm_inv K b" "allocated K b = insert (unat pfn, 2) (allocated K (bud s))"
    by blast
  have apart: "{unat pfn ..< unat pfn + 4} \<inter> pages_in_use K (bud s) = {}"
    using b(2) by (auto simp: free_run_def pages_in_use_def)
  have nz: "unat pfn \<noteq> 0"
  proof
    assume "unat pfn = 0"
    then have "0 \<in> {unat pfn ..< unat pfn + 4}" by simp
    with apart zero show False by blast
  qed
  then have "pfn \<noteq> 0" by auto
  then have "alloc_pages 3 (bud s) = Inr (page_va (unat pfn), b)"
    using b(1) by (simp add: alloc_pages_def page_va_def)
  moreover have "alloc_ok K (s\<lparr>bud := b\<rparr>)"
    using ok b(3,4) by (auto simp: alloc_ok_def pages_in_use_def)
  moreover have "unat pfn + 4 \<le> 2 ^ K" using b(2) by (simp add: free_run_def)
  ultimately show ?thesis using apart nz by blast
qed

section \<open>The disk after init_disk\<close>

definition zero_when_free :: "nat \<Rightarrow> machine \<Rightarrow> bool" where
  "zero_when_free K s \<longleftrightarrow> (\<forall>p \<in> page_pool K - used_pages K s. \<forall>i < 4096. mem s (p + i) = 0)"

text \<open>A disk below the driver: the device is there and idle, its first sector has the signature of a
  partition table, and the partitions of type \<open>0x83\<close> start on it.\<close>

definition disk_present :: "'h disk_view \<Rightarrow> 'h blk \<Rightarrow> bool" where
  "disk_present v s \<longleftrightarrow> (\<exists>i r. disk_in_slot s i r) \<and> last_avail v (hw s) = 0 \<and> 0 < capacity v
     \<and> sectors v (hw s) 0 ! 510 = 0x55 \<and> sectors v (hw s) 0 ! 511 = 0xaa
     \<and> (\<forall>lba \<in> set (linux_starts (partitions (sectors v (hw s)))). lba < capacity v)"

lemma init_disk_aux:
  assumes dev: "serves dev v" "capacity v \<le> 2 ^ 32" and out: "console_out p out"
    and d: "disk_present v (disk (fs k))"
    and ok: "alloc_ok K (machine_of k)" and run: "\<exists>x. free_run K (bud k) 2 x"
    and zero: "zero_when_free K (machine_of k)"
  defines "c \<equiv> sectors v (hw (disk (fs k)))"
  shows "\<exists>b f w. init_disk p dev buf (virtio_io dev sec) k = Inr (k\<lparr>bud := b, world := w, fs := f\<rparr>)
    \<and> alloc_ok K (machine_of (k\<lparr>bud := b\<rparr>)) \<and> blk_ready v (disk f) \<and> sectors v (hw (disk f)) = c
    \<and> fat32_volume f = mounted c (partitions c) (fat32_volume (fs k))
    \<and> out w = out (world k) @ message ''...virtio_blk_init done!'' @ mount_log c (partitions c)"
proof -
  have run': "\<exists>x. free_run K (bud (machine_of k)) 2 x" using run by (simp add: machine_of_def)
  obtain q b where q: "alloc_pages 3 (bud (machine_of k)) = Inr (page_va q, b)" "q \<noteq> 0" "q + 4 \<le> 2 ^ K"
    "{q ..< q + 4} \<inter> pages_in_use K (bud (machine_of k)) = {}" "alloc_ok K (machine_of k\<lparr>bud := b\<rparr>)"
    using alloc_three [OF ok run'] by blast
  have K: "K \<le> 25" and inv: "mm_inv K (bud (machine_of k))" using ok by (simp_all add: alloc_ok_def)
  have small: "x < 2 ^ 25" if "x < 2 ^ K" for x :: nat using small_pow [OF K that] .
  have nz: "page_va q \<noteq> 0" using page_va_page(2) small q(3) by simp
  have next_page: "page_va q + PGSIZE = page_va (q + 1)" by (simp add: page_va_eq PGSIZE_def)
  have "page_va (q + 1) \<in> page_pool K" using q(3) K by (auto simp: page_pool_def)
  moreover have "page_va (q + 1) \<notin> used_pages K (machine_of k)"
  proof
    assume "page_va (q + 1) \<in> used_pages K (machine_of k)"
    then obtain x where x: "x \<in> pages_in_use K (bud (machine_of k))" "page_va (q + 1) = page_va x"
      using used_pages_def by auto
    have "q + 1 < 2 ^ 25" using q(3) by (intro small) linarith
    moreover have "x < 2 ^ 25" using pages_in_use_bound [OF inv x(1)] by (rule small)
    ultimately have "x = q + 1" using x(2) page_va_inj by metis
    moreover have "q + 1 \<in> {q ..< q + 4}" by simp
    ultimately show False using q(4) x(1) by blast
  qed
  ultimately have "\<forall>i < 4096. mem (machine_of k) (page_va (q + 1) + i) = 0"
    using zero [unfolded zero_when_free_def, rule_format, of "page_va (q + 1)"] by simp
  then have z: "mem (machine_of k) (page_va q + PGSIZE + i) = 0" if "i < 4096" for i
    using that by (simp add: next_page)
  have zs: "\<forall>i < 36. mem (machine_of k) (page_va q + PGSIZE + of_nat i) = 0"
  proof (intro allI impI)
    fix i :: nat assume "i < 36"
    then have "(of_nat i :: u64) < 4096" by (simp add: word_less_nat_alt unat_of_nat_small)
    then show "mem (machine_of k) (page_va q + PGSIZE + of_nat i) = 0" by (rule z)
  qed
  obtain i r where slot: "disk_in_slot (disk (fs k)) i r" using d by (auto simp: disk_present_def)
  have pages: "alloc_pages 3 (bud k) = Inr (page_va q, b)" "\<forall>i < 36. mem k (page_va q + PGSIZE + of_nat i) = 0"
    using q(1) zs by (simp_all add: machine_of_def)
  obtain d1 w1 where d1: "virtio_dev_init p dev buf k = Inr ((with_disk d1 k)\<lparr>bud := b, world := w1\<rparr>)"
    "blk_ready v d1" "sectors v (hw d1) = c" "out w1 = out (world k) @ message ''...virtio_blk_init done!''"
    using virtio_dev_init_ok [OF dev(1) _ out slot pages(1) nz pages(2), of buf] d unfolding disk_present_def c_def by blast
  define k1 where "k1 = (with_disk d1 k)\<lparr>bud := b, world := w1\<rparr>"
  have k1: "disk (fs k1) = d1" "world k1 = w1" "fat32_volume (fs k1) = fat32_volume (fs k)"
    by (simp_all add: k1_def with_disk_def)
  have cap: "0 < capacity v" "\<forall>lba \<in> set (linux_starts (partitions c)). lba < capacity v"
    using d by (simp_all add: disk_present_def c_def)
  obtain f w where f: "mbr_init p (virtio_io dev sec) k1 = Inr (k1\<lparr>fs := f, world := w\<rparr>)"
    "blk_ready v (disk f)" "sectors v (hw (disk f)) = c"
    "fat32_volume f = mounted c (partitions c) (fat32_volume (fs k))"
    "out w = out w1 @ mount_log c (partitions c)"
    using block_device.mbr_init_ok [OF virtio_block [OF dev, of sec] out, of k1] d1(2,3) cap unfolding k1 by metis
  have "k1\<lparr>fs := f, world := w\<rparr> = k\<lparr>bud := b, world := w, fs := f\<rparr>" by (simp add: k1_def with_disk_def)
  then have "init_disk p dev buf (virtio_io dev sec) k = Inr (k\<lparr>bud := b, world := w, fs := f\<rparr>)"
    using d1(1) f(1) by (simp add: init_disk_def k1_def)
  moreover have "machine_of (k\<lparr>bud := b\<rparr>) = machine_of k\<lparr>bud := b\<rparr>" by (simp add: machine_of_def)
  then have "alloc_ok K (machine_of (k\<lparr>bud := b\<rparr>))" using q(5) by (simp only:)
  ultimately show ?thesis using f(2-5) d1(4) by (intro exI [of _ b] exI [of _ f] exI [of _ w]) simp
qed

text \<open>
  C38: booting brings up the disk. The driver takes the last block device, sets up its queue on a
  free run of pages and checks the signature of the first sector; then the last partition of type
  \<open>0x83\<close> whose first sector has a boot signature is mounted, with the geometry its parameter block
  gives, and without one the volume stays as it was. Each volume found is reported on the console.
  The disk is ready for requests and holds what it held.
\<close>

theorem init_disk_mounts:
  assumes "serves dev v" and "capacity v \<le> 2 ^ 32" and "console_out p out"
    and "disk_present v (disk (fs k))"
    and "alloc_ok K (machine_of k)" and "\<exists>x. free_run K (bud k) 2 x"
    and "zero_when_free K (machine_of k)"
  defines "c \<equiv> sectors v (hw (disk (fs k)))"
  shows "\<exists>b f w. init_disk p dev buf (virtio_io dev sec) k = Inr (k\<lparr>bud := b, world := w, fs := f\<rparr>)
    \<and> alloc_ok K (machine_of (k\<lparr>bud := b\<rparr>)) \<and> blk_ready v (disk f) \<and> sectors v (hw (disk f)) = c
    \<and> fat32_volume f = mounted c (partitions c) (fat32_volume (fs k))
    \<and> out w = out (world k) @ message ''...virtio_blk_init done!'' @ mount_log c (partitions c)"
  unfolding c_def by (rule init_disk_aux [OF assms(1-7)])

end
