(* ===== verification/Disk_Init_Witness.thy ===== *)
theory Disk_Init_Witness
  imports Disk_Init Syscall_Witness Vm_Witness
begin

text \<open>
  A disk with one partition of type \<open>0x83\<close> at sector 8: one sector per cluster, four reserved
  sectors, two tables of three sectors each. Its device answers in the last of the eight slots.
\<close>

definition mount_sector :: "u64 \<Rightarrow> u8 list" where
  "mount_sector n =
     (if n = 0 then replicate 450 0 @ [0x83, 0, 0, 0, 8, 0, 0, 0, 0x40, 0, 0, 0] @ replicate 48 0 @ [0x55, 0xaa]
      else if n = 8 then replicate 13 0 @ [1, 4, 0, 2] @ replicate 19 0 @ [3] @ replicate 473 0 @ [0x55, 0xaa]
      else [])"

definition mount_blk :: "ram blk" where
  "mount_blk = demo_blk
     \<lparr>mmio := (\<lambda>a. Some (if a = virtio_slot 7 then demo_regs\<lparr>Config := [64, 0]\<rparr> else demo_regs\<lparr>DeviceID := 0\<rparr>)),
      hw := (mount_sector, 0)\<rparr>"

definition mount_fs :: "ram blk fat32" where
  "mount_fs = demo_fs\<lparr>disk := mount_blk\<rparr>"

definition mount_kernel :: "(u8 list, ram blk) system" where
  "mount_kernel = (demo_system (demo_hart 0 0 0 0))\<lparr>bud := eight_two_used, mem := \<lambda>_. 0, fs := mount_fs\<rparr>"

abbreviation mount_content :: "u64 \<Rightarrow> u8 list" where
  "mount_content \<equiv> sectors ram_view (hw mount_blk)"

lemma mount_zero: "mount_content 0 = mount_sector 0" and mount_eight: "mount_content 8 = mount_sector 8"
  by (simp_all add: ram_view_def mount_blk_def) (simp_all add: mount_sector_def)

lemma mount_partitions: "linux_starts (partitions mount_content) = [8]"
  unfolding partitions_def mount_zero by code_simp

lemma mount_signatures: "mount_content 0 ! 510 = 0x55" "mount_content 0 ! 511 = 0xaa"
  "u16_at (mount_content 8) 510 = 0xaa55"
  unfolding mount_zero mount_eight by code_simp+

lemma mount_volumes: "volumes mount_content (partitions mount_content) = [8]"
  by (simp add: volumes_def mount_partitions mount_signatures)

lemma mount_geometry: "geometry 8 (mount_content 8)
  = \<lparr>first_data_sec = 18, first_fat_sec = 12, sec_per_cluster = 1, fat_sz = 3\<rparr>"
  unfolding mount_eight by code_simp

lemma mount_disk: "disk_present ram_view mount_blk"
proof -
  have "disk_in_slot mount_blk 7 (demo_regs\<lparr>Config := [64, 0]\<rparr>)"
    by (auto simp: disk_in_slot_def mount_blk_def VIRTIO_COUNT_def demo_regs_def word_less_nat_alt)
  moreover have "last_avail ram_view (hw mount_blk) = 0" "0 < capacity ram_view" "8 < capacity ram_view"
    by (simp_all add: ram_view_def mount_blk_def)
  ultimately show ?thesis
    unfolding disk_present_def mount_partitions using mount_signatures by auto
qed

lemma mount_machine: "machine_of mount_kernel = start_space" "bud mount_kernel = eight_two_used"
  "disk (fs mount_kernel) = mount_blk"
  by (simp_all add: mount_kernel_def machine_of_def start_space_def mount_fs_def)

lemma mount_log_line: "mount_log mount_content (partitions mount_content) = partition_message 0"
proof -
  have types: "map pe_type (partitions mount_content) = [0x83, 0, 0, 0]"
    "lba_first_sector (partitions mount_content ! 0) = 8"
    unfolding partitions_def mount_zero by code_simp+
  have len: "length (partitions mount_content) = 4" by (rule length_partitions)
  have "pe_type (partitions mount_content ! i) = [0x83, 0, 0, 0] ! i" if "i < 4" for i
    using that nth_map [of i "partitions mount_content" pe_type] unfolding types(1) len by simp
  then show ?thesis
    using types(2) mount_signatures(3) unfolding mount_log_def len by (simp add: upt_rec)
qed

theorem init_disk_mounts_witness:
  "\<exists>k'. init_disk paper_platform ram_device VM_START (virtio_io ram_device VM_START) mount_kernel = Inr k'
     \<and> fat32_volume (fs k') = \<lparr>first_data_sec = 18, first_fat_sec = 12, sec_per_cluster = 1, fat_sz = 3\<rparr>
     \<and> world k' = message ''...virtio_blk_init done!'' @ message ''...fat32 partition #1 init done!''"
proof -
  have "free_run 3 (bud mount_kernel) 2 4"
    unfolding mount_machine by (auto simp: free_run_def eight_alloc pages_def)
  then have run: "\<exists>x. free_run 3 (bud mount_kernel) 2 x" by blast
  have ok: "alloc_ok 3 (machine_of mount_kernel)"
    using start_ok unfolding mount_machine by (simp add: address_space_def)
  have zero: "zero_when_free 3 (machine_of mount_kernel)"
    unfolding mount_machine by (simp add: zero_when_free_def start_space_def)
  have "disk_present ram_view (disk (fs mount_kernel))" unfolding mount_machine by (rule mount_disk)
  from init_disk_mounts [OF ram_serves ram_capacity paper_console this ok run zero, of VM_START VM_START]
  obtain b f w where k': "init_disk paper_platform ram_device VM_START (virtio_io ram_device VM_START) mount_kernel
      = Inr (mount_kernel\<lparr>bud := b, world := w, fs := f\<rparr>)"
    "fat32_volume f = mounted mount_content (partitions mount_content) (fat32_volume (fs mount_kernel))"
    "w = world mount_kernel @ message ''...virtio_blk_init done!'' @ mount_log mount_content (partitions mount_content)"
    unfolding mount_machine by blast
  have "partition_message 0 = message ''...fat32 partition #1 init done!''" by code_simp
  then have "w = message ''...virtio_blk_init done!'' @ message ''...fat32 partition #1 init done!''"
    using k'(3) by (simp add: mount_log_line mount_kernel_def demo_system_def)
  then show ?thesis using k'(1,2) by (simp add: mounted_def mount_volumes mount_geometry)
qed

end
