(* ===== verification/Boot_Map.thy ===== *)
theory Boot_Map
  imports Kernel_Map
begin

text \<open>
  The kernel's page table for every image that lies in memory, and its copy as the root of a
  process.
\<close>

section \<open>Sections in memory\<close>

text \<open>Sections that the linker places in memory, each from its start to its end.\<close>

definition in_memory :: "u64 \<Rightarrow> u64 \<Rightarrow> bool" where
  "in_memory lo hi \<longleftrightarrow> VM_START \<le> lo \<and> lo \<le> hi \<and> hi \<le> VM_START + PHY_SIZE"

definition sections_ok :: "sections \<Rightarrow> bool" where
  "sections_ok k \<longleftrightarrow> in_memory (stext k) (etext k) \<and> in_memory (srodata k) (erodata k)
     \<and> in_memory (sdata k) (edata k) \<and> in_memory (sbss k) (ebss k)
     \<and> in_memory (ekernel k) (VM_START + PHY_SIZE) \<and> in_memory (sramdisk k) (eramdisk k)"

text \<open>The tables of memory: one for the gigabyte, and one for each two megabytes.\<close>

definition memory_tables :: "u64 list set" where
  "memory_tables = insert [0x180] ((\<lambda>j. [0x180, of_nat j]) ` {..< 64})"

lemma card_memory_tables: "finite memory_tables" "card memory_tables \<le> 65"
proof -
  have "card ((\<lambda>j. [0x180, of_nat j :: u64]) ` {..< 64}) \<le> 64"
    using card_image_le [of "{..< 64 :: nat}" "\<lambda>j. [0x180, of_nat j :: u64]"] by simp
  then show "finite memory_tables" "card memory_tables \<le> 65"
    unfolding memory_tables_def using card_insert_le_m1 [of 65] by simp_all
qed

lemma memory_prefixes:
  assumes "0xffffffe000000000 \<le> unat a" "unat a < 0xffffffe008000000"
  shows "prefixes a \<subseteq> memory_tables"
proof -
  have "unat (vpn2 a) = unat a div 2 ^ 30 mod 512" "unat (vpn1 a) = unat a div 2 ^ 21 mod 512"
    unfolding vpn2_def vpn1_def mask_9
    by (simp_all add: drop_bit_eq_div unat_div take_bit_eq_mod unat_mod flip: take_bit_eq_mask)
  moreover have "unat a div 2 ^ 30 = 0x3ffffff80" using assms by simp
  moreover have "0x7ffffff0000 * 2 ^ 21 \<le> unat a" "unat a < 0x7ffffff0040 * 2 ^ 21" using assms by simp_all
  then have "0x7ffffff0000 \<le> unat a div 2 ^ 21" "unat a div 2 ^ 21 < 0x7ffffff0040"
    by (simp_all only: less_eq_div_iff_mult_less_eq div_less_iff_less_mult zero_less_power zero_less_numeral)
  then obtain j where "unat a div 2 ^ 21 = 0x7ffffff0000 + j" "j < 64"
    using that [of "unat a div 2 ^ 21 - 0x7ffffff0000"] by linarith
  moreover have "(0x7ffffff0000 + j) mod 512 = j"
  proof -
    have "0x7ffffff0000 + j = j + 0x3ffffff80 * 512" by simp
    then have "(0x7ffffff0000 + j) mod 512 = j mod 512" by (simp only: mod_mult_self1)
    then show ?thesis using \<open>j < 64\<close> by simp
  qed
  ultimately have "vpn2 a = 0x180" "vpn1 a = of_nat j" "j < 64"
    by (simp_all add: word_unat_eq_iff unat_of_nat_small)
  then show ?thesis by (auto simp: prefixes_def memory_tables_def)
qed

lemma in_memory_range:
  assumes "in_memory lo hi" and sz: "sz = hi - lo"
  shows "pages_of sz < 2 ^ 27" "range_tables (lo, pa, sz, perm) \<subseteq> memory_tables"
proof -
  have le: "0xffffffe000000000 \<le> unat lo" "unat lo \<le> unat hi" "unat hi \<le> 0xffffffe008000000"
    using assms(1) by (simp_all add: in_memory_def layout word_le_nat_alt)
  then have u: "unat sz = unat hi - unat lo" unfolding sz by (simp add: unat_sub word_le_nat_alt)
  then show "pages_of sz < 2 ^ 27" using le by (simp add: pages_of_def)
  have "prefixes (lo + of_nat (4096 * i)) \<subseteq> memory_tables" if i: "i < pages_of sz" for i
  proof (rule memory_prefixes)
    have i: "4096 * i < unat sz" using i by (simp add: pages_of_def)
    then have "unat (lo + of_nat (4096 * i)) = unat lo + 4096 * i"
      using le u by (simp add: unat_word_ariths unat_of_nat_small)
    then show "0xffffffe000000000 \<le> unat (lo + of_nat (4096 * i))" "unat (lo + of_nat (4096 * i)) < 0xffffffe008000000"
      using i le u by simp_all
  qed
  then show "range_tables (lo, pa, sz, perm) \<subseteq> memory_tables" by (auto simp del: of_nat_mult)
qed

lemma virtio_tables: "range_tables (0xffffffc810001000, pa, 0x8000, perm) \<subseteq> {[0x120], [0x120, 0x80]}"
proof -
  have "{..< pages_of 0x8000} = {0, 1, 2, 3, 4, 5, 6, 7}" by (auto simp: pages_of_def)
  then show ?thesis by (simp add: prefixes_def vpn1_def vpn2_def)
qed

lemma kernel_ranges_in_memory:
  assumes "sections_ok k"
  shows "\<forall>x \<in> set (kernel_ranges k). range_ok x" "card (needed_tables (kernel_ranges k)) \<le> 67"
proof -
  have rest: "PHY_SIZE - (VA2PA (ekernel k) - PHY_START) = VM_START + PHY_SIZE - ekernel k"
    by (simp add: layout VA2PA_def)
  have io: "io_to_virt VIRTIO_START = 0xffffffc810001000" "VIRTIO_SIZE * VIRTIO_COUNT = 0x8000"
    by (simp_all add: io_to_virt_def VIRTIO_START_def VIRTIO_SIZE_def VIRTIO_COUNT_def IOMAP_OFFSET_def)
  note r = in_memory_range [OF _ refl]
  have virtio: "pages_of 0x8000 < 134217728" by (simp add: pages_of_def)
  have perms: "PERM_A OR PERM_X OR PERM_R OR PERM_V = 0x4b" "PERM_A OR PERM_R OR PERM_V = 0x43"
    "PERM_A OR PERM_W OR PERM_R OR PERM_V = 0x47" "PERM_A OR PERM_D OR PERM_W OR PERM_R OR PERM_V = 0xc7"
    "PERM_A OR PERM_R OR PERM_W OR PERM_X OR PERM_V = 0x4f" "PERM_A OR PERM_R OR PERM_W OR PERM_V = 0x47"
    by (simp_all add: layout)
  show "\<forall>x \<in> set (kernel_ranges k). range_ok x"
    using assms r(1) unfolding kernel_ranges_def rest io sections_ok_def
    by (simp add: perms virtio) (simp add: PERM_V_def)
  have "needed_tables (kernel_ranges k) \<subseteq> memory_tables \<union> {[0x120], [0x120, 0x80]}"
    using assms r(2) virtio_tables unfolding kernel_ranges_def rest io sections_ok_def needed_tables_def
    by (simp del: range_tables.simps) blast
  then have "card (needed_tables (kernel_ranges k)) \<le> card (memory_tables \<union> {[0x120 :: u64], [0x120, 0x80]})"
    using card_memory_tables(1) by (intro card_mono) simp_all
  also have "\<dots> \<le> card memory_tables + card {[0x120 :: u64], [0x120, 0x80]}" by (rule card_Un_le)
  finally show "card (needed_tables (kernel_ranges k)) \<le> 67" using card_memory_tables(2) by simp
qed

section \<open>A copy of the root\<close>

text \<open>The tables below the root are shared, so the copy translates every address as the original.\<close>

lemma copied_root_translate:
  assumes wf: "wf_pt m sw U" and U: "\<forall>p \<in> U. page_aligned p \<and> p \<noteq> 0"
    and root: "page_aligned root" "root \<noteq> 0" "root \<notin> U"
  shows "translate (copied root sw PGSIZE m) root va = translate m sw va"
proof -
  define m' where "m' = copied root sw PGSIZE m"
  have top: "sub_table m' root i = sub_table m sw i" if i: "i < 512" for i
  proof -
    have "load m' (slot root i) 8 = load m (slot sw i) 8"
      unfolding load_def
    proof (rule map_cong [OF refl])
      fix j :: nat assume "j \<in> set [0 ..< 8]"
      then have j: "j < 8" by simp
      have "unat (slot root i + of_nat j - root) < 4096"
        using slot_byte [OF i j, of root] i j by (simp add: word_less_nat_alt)
      then have "m' (slot root i + of_nat j) = m (sw + (slot root i + of_nat j - root))"
        by (simp add: m'_def copied_def PGSIZE_def word_less_nat_alt)
      also have "sw + (slot root i + of_nat j - root) = slot sw i + of_nat j"
        by (simp add: slot_def)
      finally show "m' (slot root i + of_nat j) = m (slot sw i + of_nat j)" .
    qed
    then show ?thesis by (simp add: sub_table_def rd64_def)
  qed
  have below: "rd64 m' (slot t i) = rd64 m (slot t i)" if "t \<in> U" "i < 512" for t i
    using page_bytes_apart [of t root] that U root
    by (intro rd64_page_frame) (auto simp: m'_def copied_def PGSIZE_def)
  have tab: "table_at m' root l = (if l = [] then Some root else table_at m sw l)" if l: "is_path l" for l
  proof (cases l)
    case (Cons i l')
    then have i: "i < 512" "is_path [i]" "length l' \<le> 1" "\<forall>j \<in> set l'. j < 512" using l by (auto simp: is_path_def)
    have "table_at m' t l' = table_at m t l'" if "sub_table m sw i = Some t" for t
    proof -
      have "t \<in> U" using wf_ptD(1) [OF wf i(2), of t] that by simp
      then show ?thesis using below i(3,4) by (cases l') (auto simp: sub_table_def split: option.split)
    qed
    then show ?thesis by (simp add: Cons top [OF i(1)] split: option.split)
  qed simp
  have "wf_pt m' root (insert root U)"
    unfolding wf_pt_def
  proof (intro allI impI)
    fix l t assume lt: "is_path l \<and> table_at m' root l = Some t"
    show "t \<in> insert root U \<and> (\<forall>l'. is_path l' \<and> table_at m' root l' = Some t \<longrightarrow> l' = l)"
      using lt wf_ptD [OF wf] root(3) tab by (metis insert_iff option.inject)
  qed
  from translate_eq [OF this, of va] have "translate m' root va = (case table_at m' root [vpn2 va, vpn1 va] of None \<Rightarrow> None
    | Some t \<Rightarrow> let e = rd64 m' (slot t (vpn0 va)) in if e AND PERM_V = 0 then None else Some e)"
    using U root by simp
  also have "\<dots> = translate m sw va"
  proof -
    have p: "is_path [vpn2 va, vpn1 va]" by (simp add: is_path_def)
    have "table_at m' root [vpn2 va, vpn1 va] = table_at m sw [vpn2 va, vpn1 va]" using tab [OF p] by simp
    moreover have "rd64 m' (slot t (vpn0 va)) = rd64 m (slot t (vpn0 va))"
      if "table_at m sw [vpn2 va, vpn1 va] = Some t" for t
      using below wf_ptD(1) [OF wf p that] by simp
    ultimately show ?thesis unfolding translate_eq [OF wf U] by (simp split: option.split)
  qed
  finally show ?thesis by (simp add: m'_def)
qed

end
