(* ===== verification/Boot_Correct.thy ===== *)
theory Boot_Correct
  imports Boot_Map Disk_Init First_Thread
begin

text \<open>
  The whole way from \<^verbatim>\<open>_start\<close> to the first instruction of the first program: the calls of \<^verbatim>\<open>head.S\<close>
  one after the other, each in the state the one before has left.
\<close>

section \<open>The machine at reset\<close>

text \<open>Reading the clock and setting the timer print nothing.\<close>

definition timer_quiet :: "'w platform \<Rightarrow> ('w \<Rightarrow> u8 list) \<Rightarrow> bool" where
  "timer_quiet p out \<longleftrightarrow> (\<forall>w. out (snd (rdtime p w)) = out w)
     \<and> (\<forall>t m w. \<exists>r w'. ecall p [0x54494d45, 0, t, 0, 0, 0, 0, 0] m w = (r, m, w') \<and> out w' = out w)"

lemma clock_world:
  assumes "timer_quiet p out"
  shows "\<exists>w. clock_set_next_event p k = k\<lparr>world := w\<rparr> \<and> out w = out (world k)"
proof -
  obtain c w1 where c: "rdtime p (world k) = (c, w1)" by fastforce
  then have "out w1 = out (world k)" using assms by (metis timer_quiet_def snd_conv)
  moreover obtain r w where "ecall p [0x54494d45, 0, c + TIMECLOCK, 0, 0, 0, 0, 0] (mem k) w1 = (r, mem k, w)"
    "out w = out w1"
    using assms unfolding timer_quiet_def by blast
  ultimately show ?thesis
    using c by (intro exI [of _ w]) (simp add: clock_set_next_event_def get_cycles_def sbi_set_timer_def sbi_ecall_def)
qed

text \<open>The frames that the kernel's image and the arrays of the allocator take.\<close>

definition image_frames :: "('w, 'd) kernel_image \<Rightarrow> nat" where
  "image_frames i = reserved_pages (VA2PA (ekernel (boundaries i) + 0xC0000))"

text \<open>The program behind the ramdisk's address: its segments.\<close>

definition program :: "('w, 'd) kernel_image \<Rightarrow> mem \<Rightarrow> elf64_phdr list" where
  "program i m = load_segments (program_headers m (ramdisk (on_board i)))"

text \<open>
  Memory at reset: the image is at its start and takes less than an eighth of it, the root of
  the page table lies in the image, the headers of the program neither there nor in the rest of
  memory, and the rest is zero.
\<close>

definition reset_memory :: "('w, 'd) kernel_image \<Rightarrow> mem \<Rightarrow> bool" where
  "reset_memory i m \<longleftrightarrow> 0 < image_frames i \<and> image_frames i + 72 + length (program i m) < 2 ^ 13
     \<and> swapper_pg_dir (on_board i) \<in> page_va ` {0 ..< image_frames i}
     \<and> (\<forall>x \<in> header_bytes m (ramdisk (on_board i)). \<not> x - swapper_pg_dir (on_board i) < 4096)
     \<and> (\<forall>p \<in> page_pool 15 - page_va ` {0 ..< image_frames i}. (\<forall>i < 4096. m (p + i) = 0)
          \<and> (\<forall>x \<in> header_bytes m (ramdisk (on_board i)). \<not> x - p < 4096))"

lemma zero_clean:
  assumes "zero_when_free K s"
  shows "clean (page_pool K) (mem s) (used_pages K s)"
  unfolding clean_def
proof (intro ballI allI impI)
  fix p i assume p: "p \<in> page_pool K - used_pages K s" and i: "(i :: u64) < 512"
  have "rd64 (mem s) (slot p i) = 0"
  proof (rule rd64_zeros)
    fix j :: nat assume "j < 8"
    then have "slot p i + of_nat j - p < 4096"
      using slot_byte [OF i, of j p] i by (simp add: word_less_nat_alt)
    then have "mem s (p + (slot p i + of_nat j - p)) = 0"
      using assms p unfolding zero_when_free_def by blast
    then show "mem s (slot p i + of_nat j) = 0" by simp
  qed
  then show "sub_table (mem s) p i = None" by (simp add: sub_table_def)
qed

lemma header_bytes_cong:
  assumes "\<And>x. x \<in> header_bytes m img \<Longrightarrow> m' x = m x"
  shows "header_bytes m' img = header_bytes m img"
proof -
  have "ehdr_in m' img = ehdr_in m img" by (rule program_headers_cong(1)) (rule assms)
  then show ?thesis unfolding header_bytes_def by simp
qed

section \<open>The stages\<close>

text \<open>The kernel's page table: memory that is free is still zero, and the program is untouched.\<close>

lemma final_table_stage:
  assumes out: "console_out p out" and secs: "sections_ok secs" and ok: "alloc_ok 15 (machine_of k)"
    and sw: "swapper_pg_dir b \<in> used_pages 15 (machine_of k)"
    and hsw: "\<forall>x \<in> header_bytes (mem k) (ramdisk b). \<not> x - swapper_pg_dir b < 4096"
    and free: "\<forall>p \<in> page_pool 15 - used_pages 15 (machine_of k). (\<forall>i < 4096. mem k (p + i) = 0)
      \<and> (\<forall>x \<in> header_bytes (mem k) (ramdisk b). \<not> x - p < 4096)"
    and left: "67 \<le> free_pages_left 15 (machine_of k)"
  shows "\<exists>root m w s. final_table p secs (swapper_pg_dir b) k = Inr (k\<lparr>bud := s, mem := m, satp := root, world := w\<rparr>)
    \<and> memory_ready 15 b (machine_of (k\<lparr>bud := s, mem := m\<rparr>))
    \<and> wf_pt m (swapper_pg_dir b) (used_pages 15 (machine_of (k\<lparr>bud := s, mem := m\<rparr>)))
    \<and> (\<forall>va. translate m (swapper_pg_dir b) va = mapped (kernel_ranges secs) va)
    \<and> free_pages_left 15 (machine_of k) \<le> free_pages_left 15 (machine_of (k\<lparr>bud := s, mem := m\<rparr>)) + 67
    \<and> ehdr_in m (ramdisk b) = ehdr_in (mem k) (ramdisk b)
    \<and> program_headers m (ramdisk b) = program_headers (mem k) (ramdisk b)
    \<and> out w = out (world k) @ message ''...setup_vm_final: done''"
proof -
  define sw' where "sw' = swapper_pg_dir b"
  define U where "U = used_pages 15 (machine_of k)"
  have mm: "mem (machine_of k) = mem k" by (simp add: machine_of_def)
  have zero: "zero_when_free 15 (machine_of k)"
    unfolding zero_when_free_def mm using free by blast
  note ranges = kernel_ranges_in_memory [OF secs]
  have need: "card (needed_tables (kernel_ranges secs)) \<le> free_pages_left 15 (machine_of k)"
    using ranges(2) left by simp
  obtain root s where s: "setup_vm_final secs sw' (machine_of k) = Inr (root, s)" "address_space 15 sw' s"
    "\<forall>va. translate (mem s) sw' va = mapped (kernel_ranges secs) va"
    "free_pages_left 15 (machine_of k) \<le> free_pages_left 15 s + card (needed_tables (kernel_ranges secs))"
    "\<forall>x. (\<forall>t \<in> tables (mem s) sw'. \<not> x - t < 4096) \<longrightarrow> mem s x = mem k x"
    "U \<subseteq> used_pages 15 s" "tables (mem s) sw' \<subseteq> insert sw' (used_pages 15 s - U)"
    using setup_vm_final_aux [OF ok sw zero_clean [OF zero] ranges(1) need] unfolding sw'_def U_def mm by blast
  have ok': "alloc_ok 15 s" and wf: "wf_pt (mem s) sw' (used_pages 15 s)"
    using s(2) by (simp_all add: address_space_def)
  have sw2: "sw' \<in> U" using sw by (simp add: sw'_def U_def)
  have headers: "mem s x = mem k x" if x: "x \<in> header_bytes (mem k) (ramdisk b)" for x
  proof -
    have "\<not> x - t < 4096" if t: "t \<in> tables (mem s) sw'" for t
    proof (cases "t = sw'")
      case False
      then have "t \<in> used_pages 15 s - U" using t s(7) by blast
      then have "t \<in> page_pool 15 - used_pages 15 (machine_of k)"
        using kp.used_pool [OF ok'] by (auto simp: U_def)
      then show ?thesis using free x by blast
    qed (use hsw x in \<open>simp add: sw'_def\<close>)
    then show ?thesis using s(5) by blast
  qed
  have free': "(\<forall>i < 4096. mem s (q + i) = 0) \<and> (\<forall>x \<in> header_bytes (mem s) (ramdisk b). \<not> x - q < 4096)"
    if q: "q \<in> page_pool 15 - used_pages 15 s" for q
  proof -
    have q': "q \<in> page_pool 15 - used_pages 15 (machine_of k)" using q s(6) by (auto simp: U_def)
    have "mem s (q + i) = mem k (q + i)" if i: "i < 4096" for i
    proof -
      have "\<not> q + i - t < 4096" if t: "t \<in> tables (mem s) sw'" for t
      proof (rule page_bytes_apart)
        have "t \<in> used_pages 15 s" using t s(6,7) sw2 by blast
        then show "page_aligned t" "q \<noteq> t" using kp.used_page [OF ok'] q by auto
        show "page_aligned q" "q + i - q < 4096" using kp.pool_page [of q 15] q i by simp_all
      qed
      then show ?thesis using s(5) by blast
    qed
    then show ?thesis using free q' header_bytes_cong [of "mem k" "ramdisk b" "mem s", OF headers] by simp
  qed
  then have ready: "memory_ready 15 b s"
    using ok' sw2 s(6) unfolding memory_ready_def sw'_def by blast
  have plain: "0x25 \<notin> set (message ''...setup_vm_final: done'')" by code_simp
  define k1 where "k1 = k\<lparr>bud := bud s, mem := mem s, satp := root\<rparr>"
  obtain w where w: "say p (message ''...setup_vm_final: done'') k1 = Inr (k1\<lparr>world := w\<rparr>)"
    "out w = out (world k1) @ message ''...setup_vm_final: done''"
    using say_world [OF out plain] by blast
  have m: "machine_of (k\<lparr>bud := bud s, mem := mem s\<rparr>) = s" by (simp add: machine_of_def)
  have "final_table p secs (swapper_pg_dir b) k = Inr (k\<lparr>bud := bud s, mem := mem s, satp := root, world := w\<rparr>)"
    using s(1) w(1) by (simp add: final_table_def sw'_def with_machine_def k1_def)
  then show ?thesis
    using ready wf s(3,4) ranges(2) w(2) program_headers_cong [of "mem k" "ramdisk b" "mem s", OF headers]
    by (intro exI [of _ root] exI [of _ "mem s"] exI [of _ w] exI [of _ "bud s"])
      (simp add: m sw'_def k1_def)
qed

text \<open>After \<open>task_init\<close> free memory is still zero, and a run of pages for the queue is free.\<close>

lemma free_after_root:
  assumes "memory_ready K b s" and root: "root \<in> page_pool K - used_pages K s"
    and s': "mem s' = copied root sw PGSIZE (mem s)" "insert root (used_pages K s) \<subseteq> used_pages K s'"
  shows "zero_when_free K s'"
  unfolding zero_when_free_def
proof (intro ballI allI impI)
  fix p i assume p: "p \<in> page_pool K - used_pages K s'" and i: "(i :: u64) < 4096"
  have "p \<in> page_pool K - used_pages K s" "p \<noteq> root" using p s'(2) by auto
  then have "mem s (p + i) = 0" "\<not> p + i - root < 4096"
    using assms(1) root i kp.pool_page [of p K] kp.pool_page [of root K] page_bytes_apart [of p root "p + i"]
    by (auto simp: memory_ready_def)
  then show "mem s' (p + i) = 0" by (simp add: s'(1) copied_def PGSIZE_def)
qed

lemma queue_run:
  assumes "alloc_ok 15 s" and "32768 < free_pages_left 15 s + 2 ^ 13"
  shows "\<exists>x. free_run 15 (bud s) 2 x"
proof (rule free_run_exists)
  have inv: "mm_inv 15 (bud s)" using assms(1) by (simp add: alloc_ok_def)
  show "finite (pages_in_use 15 (bud s))"
    by (rule finite_subset [of _ "{..< 2 ^ 15}"]) (use pages_in_use_bound [OF inv] in auto)
  show "card (pages_in_use 15 (bud s)) < 2 ^ (15 - 2)"
    using free_pages_count [OF assms(1)] assms(2) by simp
qed simp

lemma hosted_more_fs: "hosted.more k' = hosted.more k \<Longrightarrow> fs k' = fs k"
  by (cases k; cases k') simp

lemma sched_wf_cong:
  assumes "task k' = task k" "nr_tasks k' = nr_tasks k" "idle k' = idle k" "current k' = current k"
    "task_at k' = task_at k"
  shows "sched_wf k' \<longleftrightarrow> sched_wf k"
proof -
  have "thread_ptr k' = thread_ptr k" "nthreads k' = nthreads k"
    by (simp_all add: fun_eq_iff thread_ptr_def nthreads_def assms)
  then show ?thesis by (simp add: sched_wf_def assms)
qed

section \<open>From reset to the first program\<close>

text \<open>Where the linker puts the early page table and the code of \<^verbatim>\<open>relocate\<close>: in physical memory, and the
  table, which is declared with an alignment of 4096, at the start of a page.\<close>

definition early_placed :: "('w, 'd) kernel_image \<Rightarrow> bool" where
  "early_placed i \<longleftrightarrow> physical (early_pgtbl_at i) \<and> early_pgtbl_at i AND 0xfff = 0
     \<and> physical (tmp_stvec_at i) \<and> physical (relocated_at i)"

text \<open>
  What the kernel has printed when it leaves for the first program, built with \<^verbatim>\<open>LOG\<close> set to 0, so
  that the \<^verbatim>\<open>Log\<close> diagnostics are compiled out.
\<close>

definition boot_log :: "(u64 \<Rightarrow> u8 list) \<Rightarrow> u8 list" where
  "boot_log c = early_message @ message ''...buddy_init done!'' @ message ''...mm_init done!'' @ message ''...setup_vm_final: done''
     @ message ''...task_init done!'' @ message ''...virtio_blk_init done!'' @ mount_log c (partitions c)
     @ message ''2024 ZJU Operating System''"

text \<open>
  C1: the kernel boots. From a reset state with a disk, \<open>boot\<close> comes to the first process: it is
  the current one, the hart enters user mode at the program's entry point with the user's stack,
  and the page table it runs on translates every address as the list of the kernel's ranges says.
  The process has the standard files and the areas of the program and the stack, the disk is ready
  and its last volume mounted, the allocator's invariant holds, and the console shows the messages of
  the stages in order (\<^verbatim>\<open>LOG\<close> being 0, no diagnostics between them). On the way the early table of \<^verbatim>\<open>setup_vm\<close> maps all of the physical memory into
  the direct map, with all permissions of the kernel, without which the switch to it in \<^verbatim>\<open>relocate\<close> would not return.
\<close>

theorem boot_starts:
  assumes p: "console_out (firmware (on_board i)) out" "timer_quiet (firmware (on_board i)) out"
    and early: "early_placed i"
    and mem: "sections_ok (boundaries i)" "reset_memory i (mem k)" "length (task k) = unat NR_TASKS"
    and dev: "disk_io (on_board i) = virtio_io dev sec" "serves dev v" "capacity v \<le> 2 ^ 32"
      "disk_present v (disk (fs k))"
  defines "c \<equiv> sectors v (hw (disk (fs k)))"
  shows "\<exists>k' p tk root ps tbl ke. boot i dev k = Inr k'
    \<and> setup_vm (firmware (on_board i)) (replicate 512 0) k = Inr (tbl, ke)
    \<and> (\<forall>pa perm. physical pa \<and> perm AND 0xCF = perm \<longrightarrow> gigapage tbl perm (PA2VA pa) = Some pa)
    \<and> alloc_ok 15 (machine_of k')
    \<and> task k' = [idle k', p] \<and> current k' = p \<and> task_at k' p = Some tk \<and> pid tk = 1
    \<and> 1 \<le> counter tk \<and> counter tk = priority tk
    \<and> th_sepc (run_dummy (cpu k')) = e_entry (ehdr_in (mem k) (ramdisk (on_board i)))
    \<and> th_sp (run_dummy (cpu k')) = USER_END \<and> th_sscratch (run_dummy (cpu k')) = p + PGSIZE
    \<and> page_root k' = root \<and> drop_bit 60 (satp k') = 8
    \<and> (\<forall>va. translate (mem k') root va = mapped (kernel_ranges (boundaries i)) va)
    \<and> files_at k' (files tk) = Some standard_files \<and> vma_list (vma_at k') (mmap tk) ps
    \<and> areas k' ps = Some (USER_END - PGSIZE, USER_END, 0, 0, VM_READ OR VM_WRITE OR VM_ANON)
        # map (Some \<circ> loaded_area) (rev (program i (mem k)))
    \<and> blk_ready v (disk (fs k')) \<and> sectors v (hw (disk (fs k'))) = c
    \<and> fat32_volume (fs k') = mounted c (partitions c) (fat32_volume (fs k))
    \<and> out (world k') = out (world k) @ boot_log c"
proof -
  let ?b = "on_board i" and ?p = "firmware (on_board i)" and ?secs = "boundaries i"
  let ?sw = "swapper_pg_dir (on_board i)" and ?img = "ramdisk (on_board i)"
  define r n where "r = image_frames i" and "n = length (program i (mem k))"
  have budget: "0 < r" "r + 72 + n < 8192" using mem(2) by (simp_all add: reset_memory_def r_def n_def)
  obtain w0 where w0: "setup_vm ?p (replicate 512 0) k = Inr (early_table, k\<lparr>world := w0\<rparr>)"
    "out w0 = out (world k) @ early_message"
    using setup_vm_stage [OF p(1)] by blast
  define k0 where "k0 = k\<lparr>world := w0, satp := drop_bit 12 (early_pgtbl_at i) OR push_bit 60 8, scause := 12,
    stval := tmp_stvec_at i\<rparr>"
  have moved: "relocate (early_pgtbl_at i) (tmp_stvec_at i) (relocated_at i) early_table (k\<lparr>world := w0\<rparr>) = Inr k0"
    using early by (simp add: early_placed_def relocate_stage k0_def)
  have k0: "mem k0 = mem k" "fs k0 = fs k" "task k0 = task k" "world k0 = w0" by (simp_all add: k0_def)
  have rr: "0 < reserved_pages (VA2PA (ekernel ?secs + 0xC0000))" "reserved_pages (VA2PA (ekernel ?secs + 0xC0000)) \<le> 32768"
    using budget by (simp_all add: r_def image_frames_def)
  obtain s1 w1 where s1: "mm_init ?p (ekernel ?secs) k0 = Inr (k0\<lparr>bud := s1, world := w1\<rparr>)"
    "alloc_ok 15 (machine_of (k0\<lparr>bud := s1\<rparr>))" "pages_in_use 15 s1 = {0 ..< r}"
    "out w1 = out (world k0) @ message ''...buddy_init done!'' @ message ''...mm_init done!''"
    using mm_init_ready [OF p(1) rr, of k0] unfolding r_def image_frames_def by blast
  define k1 where "k1 = k0\<lparr>bud := s1, world := w1\<rparr>"
  have k1: "mem k1 = mem k" "fs k1 = fs k" "task k1 = task k" "world k1 = w1" "machine_of k1 = machine_of (k0\<lparr>bud := s1\<rparr>)"
    by (simp_all add: k1_def k0 machine_of_def)
  have bud1: "bud k1 = s1" by (simp add: k1_def)
  have use1: "used_pages 15 (machine_of k1) = page_va ` {0 ..< r}" by (simp add: used_pages_def bud1 s1(3))
  have ok1: "alloc_ok 15 (machine_of k1)" using s1(2) by (simp only: k1(5))
  have left1: "free_pages_left 15 (machine_of k1) + r = 32768"
    using free_pages_count [OF ok1] by (simp add: bud1 s1(3))
  have reset: "?sw \<in> used_pages 15 (machine_of k1)" "\<forall>x \<in> header_bytes (mem k1) ?img. \<not> x - ?sw < 4096"
    "\<forall>p \<in> page_pool 15 - used_pages 15 (machine_of k1). (\<forall>i < 4096. mem k1 (p + i) = 0)
      \<and> (\<forall>x \<in> header_bytes (mem k1) ?img. \<not> x - p < 4096)"
    using mem(2) unfolding use1 k1(1) reset_memory_def r_def [symmetric] by blast+
  have enough: "67 \<le> free_pages_left 15 (machine_of k1)" using left1 budget by simp
  obtain root2 m2 w2 s2 where s2:
    "final_table ?p ?secs ?sw k1 = Inr (k1\<lparr>bud := s2, mem := m2, satp := root2, world := w2\<rparr>)"
    "memory_ready 15 ?b (machine_of (k1\<lparr>bud := s2, mem := m2\<rparr>))"
    "wf_pt m2 ?sw (used_pages 15 (machine_of (k1\<lparr>bud := s2, mem := m2\<rparr>)))"
    "\<forall>va. translate m2 ?sw va = mapped (kernel_ranges ?secs) va"
    "free_pages_left 15 (machine_of k1) \<le> free_pages_left 15 (machine_of (k1\<lparr>bud := s2, mem := m2\<rparr>)) + 67"
    "ehdr_in m2 ?img = ehdr_in (mem k1) ?img" "program_headers m2 ?img = program_headers (mem k1) ?img"
    "out w2 = out (world k1) @ message ''...setup_vm_final: done''"
    using final_table_stage [OF p(1) mem(1) ok1 reset enough] by blast
  define k2 where "k2 = k1\<lparr>bud := s2, mem := m2, satp := root2, world := w2\<rparr>"
  have k2: "mem k2 = m2" "fs k2 = fs k" "task k2 = task k" "world k2 = w2"
    "machine_of (k1\<lparr>bud := s2, mem := m2\<rparr>) = machine_of k2"
    by (simp_all add: k2_def k1 machine_of_def)
  note s2' = s2(2,3,5) [unfolded k2(5)]
  have prog: "load_segments (program_headers (mem k2) ?img) = program i (mem k)"
    "ehdr_in (mem k2) ?img = ehdr_in (mem k) ?img"
    by (simp_all add: k2(1) s2(6,7) k1(1) program_def)
  have left2: "5 + length (load_segments (program_headers (mem k2) ?img)) \<le> free_pages_left 15 (machine_of k2)"
    using s2'(3) left1 budget unfolding prog(1) n_def [symmetric] by simp
  obtain p root tk ps k3 where t: "task_init ?b k2 = Inr k3" "sched_wf k3" "nr_tasks k3 = NR_TASKS"
    "task k3 = [idle k3, p]" "current k3 = idle k3" "task_at k3 p = Some tk"
    "first_task ?b p (e_entry (ehdr_in (mem k) ?img)) tk" "files_at k3 (files tk) = Some standard_files"
    "has_areas 15 p ps k3" "areas k3 ps = Some (USER_END - PGSIZE, USER_END, 0, 0, VM_READ OR VM_WRITE OR VM_ANON)
        # map (Some \<circ> loaded_area) (rev (program i (mem k)))"
    "pgd tk = root - PA2VA_OFFSET" "root \<in> page_pool 15 - used_pages 15 (machine_of k2)"
    "mem k3 = copied root ?sw PGSIZE (mem k2)" "out (world k3) = out (world k2) @ message ''...task_init done!''"
    "insert root (used_pages 15 (machine_of k2)) \<subseteq> used_pages 15 (machine_of k3)"
    "free_pages_left 15 (machine_of k2) = free_pages_left 15 (machine_of k3) + 5 + n"
    "hosted.more k3 = hosted.more k2"
    using task_init_aux [OF p(1) s2'(1) mem(3) [folded k2(3)] left2] unfolding prog n_def [symmetric] by blast
  have mk: "mem (machine_of k2) = mem k2" "mem (machine_of k3) = mem k3" "bud (machine_of k3) = bud k3"
    by (simp_all add: machine_of_def)
  have ok3: "alloc_ok 15 (machine_of k3)" using t(9) by (simp add: has_areas_def)
  have zero3: "zero_when_free 15 (machine_of k3)"
    by (rule free_after_root [OF s2'(1) t(12) _ t(15)]) (simp only: mk t(13))
  have "32768 < free_pages_left 15 (machine_of k3) + 2 ^ 13" using t(16) s2'(3) left1 budget by simp
  from queue_run [OF ok3 this] have run3: "\<exists>x. free_run 15 (bud k3) 2 x" by (simp only: mk)
  have fs3: "fs k3 = fs k" using hosted_more_fs [OF t(17)] k2(2) by simp
  have present: "disk_present v (disk (fs k3))" using dev(4) by (simp only: fs3)
  obtain s4 f4 w4 where f: "init_disk ?p dev (sector_buf i) (virtio_io dev sec) k3
      = Inr (k3\<lparr>bud := s4, world := w4, fs := f4\<rparr>)"
    "alloc_ok 15 (machine_of (k3\<lparr>bud := s4\<rparr>))" "blk_ready v (disk f4)" "sectors v (hw (disk f4)) = c"
    "fat32_volume f4 = mounted c (partitions c) (fat32_volume (fs k))"
    "out w4 = out (world k3) @ message ''...virtio_blk_init done!'' @ mount_log c (partitions c)"
    using init_disk_aux [OF dev(2,3) p(1) present ok3 run3 zero3, of "sector_buf i" sec]
    unfolding fs3 c_def by blast
  define k4 where "k4 = k3\<lparr>bud := s4, world := w4, fs := f4\<rparr>"
  obtain w5 where w5: "clock_set_next_event ?p k4 = k4\<lparr>world := w5\<rparr>" "out w5 = out (world k4)"
    using clock_world [OF p(2)] by blast
  define k5 where "k5 = k4\<lparr>world := w5\<rparr>"
  have k5: "task k5 = task k3" "nr_tasks k5 = nr_tasks k3" "idle k5 = idle k3" "current k5 = current k3"
    "task_at k5 = task_at k3" "vma_at k5 = vma_at k3" "files_at k5 = files_at k3" "mem k5 = mem k3" "fs k5 = f4"
    "world k5 = w5" "machine_of k5 = machine_of (k3\<lparr>bud := s4\<rparr>)"
    by (simp_all add: k5_def k4_def machine_of_def)
  have wf5: "sched_wf k5" using t(2) sched_wf_cong [OF k5(1-5)] by blast
  have root: "page_aligned root" "root \<noteq> 0" "root - PA2VA_OFFSET < 2 ^ 56" "root \<notin> used_pages 15 (machine_of k2)"
    using kp.pool_page [of root 15] t(12) by simp_all
  have q: "nr_tasks k5 = NR_TASKS" "task k5 = [idle k5, p]" "current k5 = idle k5" "task_at k5 p = Some tk"
    by (simp_all only: k5 t(3-6))
  obtain k6 where k6: "start_kernel ?p k5 = Inr k6" "current k6 = p"
    "task_at k6 p = Some (tk\<lparr>counter := priority tk\<rparr>)" "page_root k6 = root" "drop_bit 60 (satp k6) = 8"
    "mem k6 = mem k5" "th_sepc (run_dummy (cpu k6)) = e_entry (ehdr_in (mem k) ?img)"
    "th_sp (run_dummy (cpu k6)) = USER_END" "th_sscratch (run_dummy (cpu k6)) = p + PGSIZE"
    "out (world k6) = out (world k5) @ message ''2024 ZJU Operating System''"
    "machine_of k6 = machine_of k5" "vma_at k6 = vma_at k5" "files_at k6 = files_at k5" "task k6 = task k5"
    "idle k6 = idle k5" "hosted.more k6 = hosted.more k5"
    using first_process_starts [OF p(1) wf5 q t(7,11) root(1,3)] by blast
  have "boot i dev k = Inr k6"
    using w0(1) moved s1(1) s2(1) t(1) f(1) w5(1) k6(1)
    by (simp add: boot_def dev(1) Let_def k1_def [symmetric] k2_def [symmetric]
        k4_def [symmetric] k5_def [symmetric])
  moreover have "alloc_ok 15 (machine_of k6)" using f(2) by (simp only: k6(11) k5(11))
  moreover have "translate (mem k6) root va = mapped (kernel_ranges ?secs) va" for va
  proof -
    have "\<forall>x \<in> used_pages 15 (machine_of k2). page_aligned x \<and> x \<noteq> 0"
      using s2'(1) kp.used_page unfolding memory_ready_def by blast
    from copied_root_translate [OF s2'(2) this root(1,2,4)] show ?thesis
      using s2(4) by (simp only: k6(6) k5(8) t(13) k2(1))
  qed
  moreover have "vma_list (vma_at k6) (mmap tk) ps" "areas k6 ps = areas k3 ps"
    using t(6,9) by (simp_all add: has_areas_def areas_def k6(12) k5(6))
  moreover have "fs k6 = f4" using hosted_more_fs [OF k6(16)] by (simp only: k5(9))
  moreover have "out (world k6) = out (world k) @ boot_log c"
    using k6(10) w5(2) f(6) t(14) s2(8) s1(4) w0(2)
    by (simp add: boot_log_def k5(10) k4_def k2(4) k1(4) k0(4))
  moreover have "pid tk = 1" "1 \<le> priority tk" using t(7) by (simp_all add: first_task_def)
  ultimately show ?thesis
    using k6(2-5,7-9,13-15) t(4,8,10) f(3-5) w0(1) early_direct_map(1)
    by (intro exI [of _ k6] exI [of _ p] exI [of _ "tk\<lparr>counter := priority tk\<rparr>"] exI [of _ root] exI [of _ ps]
        exI [of _ early_table] exI [of _ "k\<lparr>world := w0\<rparr>"])
      (simp add: k5 PA2VA_def)
qed

end
