(* ===== verification/Boot_Witness.thy ===== *)
theory Boot_Witness
  imports Boot_Correct Disk_Init_Witness First_Thread_Witness Kernel_Map_Witness
begin

text \<open>
  A machine that boots: the sections as the linker script lays them out, the tiny program as the
  ramdisk, the root of the page table in the bss section, and the disk with one volume.
\<close>

definition quiet_platform :: "u8 list platform" where
  "quiet_platform = \<lparr>ecall = (\<lambda>r m w. (\<lparr>error = 0, val = 0\<rparr>, m, if r ! 0 = 0x4442434E then w @ [ucast (r ! 2)] else w)),
     rdtime = (\<lambda>w. (0, w))\<rparr>"

definition boot_sections :: sections where
  "boot_sections = \<lparr>stext = VM_START + 0x200000, etext = VM_START + 0x203800, srodata = VM_START + 0x204000,
     erodata = VM_START + 0x204400, sdata = VM_START + 0x205000, edata = VM_START + 0x205800,
     sbss = VM_START + 0x207000, ebss = VM_START + 0x209000, ekernel = VM_START + 0x209000,
     sramdisk = page_va 0x206, eramdisk = page_va 0x206 + 0xb0\<rparr>"

definition reset_board :: "(u8 list, ram blk) board" where
  "reset_board = demo_board\<lparr>firmware := quiet_platform, ramdisk := page_va 0x206, swapper_pg_dir := page_va 0x208,
     dummy_entry := 0xffffffe000200100\<rparr>"

definition reset_image :: "(u8 list, ram blk) kernel_image" where
  "reset_image = \<lparr>on_board = reset_board, boundaries = boot_sections, early_pgtbl_at = 0x80207000, tmp_stvec_at = 0x80200088, relocated_at = 0x8020000c,
     sector_buf = VM_START + 0x208000\<rparr>"

definition reset_kernel :: "(u8 list, ram blk) system" where
  "reset_kernel = mount_kernel\<lparr>mem := store (\<lambda>_. 0) (page_va 0x206) tiny_image, task := [0, 0], world := []\<rparr>"

lemma quiet: "console_out quiet_platform (\<lambda>w. w)" "timer_quiet quiet_platform (\<lambda>w. w)"
  by (auto simp: console_out_def timer_quiet_def quiet_platform_def bit_simps intro!: bit_word_eqI)

lemma reset_simps: "firmware reset_board = quiet_platform" "ramdisk reset_board = page_va 0x206"
  "swapper_pg_dir reset_board = page_va 0x208" "disk_io reset_board = virtio_io ram_device VM_START"
  "on_board reset_image = reset_board" "boundaries reset_image = boot_sections"
  "mem reset_kernel = store (\<lambda>_. 0) (page_va 0x206) tiny_image" "task reset_kernel = [0, 0]"
  "world reset_kernel = []" "fs reset_kernel = mount_fs" "disk mount_fs = mount_blk"
  by (simp_all add: reset_board_def demo_board_def reset_image_def reset_kernel_def mount_kernel_def mount_fs_def)

lemma ramdisk_address: "page_va 0x206 = 0xffffffe000206000"
  by (simp add: page_va_eq layout)

lemma boot_sections_ok: "sections_ok boot_sections"
  by (simp add: sections_ok_def in_memory_def boot_sections_def ramdisk_address layout word_le_nat_alt)

lemma reset_frames: "image_frames reset_image = 713"
  by (simp add: image_frames_def reset_simps boot_sections_def reserved_pages_def VA2PA_def layout)

lemma program_header:
  "e_entry (ehdr_in (store (\<lambda>_. 0) 0xffffffe000206000 tiny_image) 0xffffffe000206000) = 0x10078"
  "e_phoff (ehdr_in (store (\<lambda>_. 0) 0xffffffe000206000 tiny_image) 0xffffffe000206000) = 64"
  "e_phnum (ehdr_in (store (\<lambda>_. 0) 0xffffffe000206000 tiny_image) 0xffffffe000206000) = 2"
  by code_simp+

lemma reset_program: "length (program reset_image (mem reset_kernel)) = 1"
  unfolding program_def reset_simps ramdisk_address by code_simp

lemma header_in_page: "x \<in> header_bytes (mem reset_kernel) (page_va 0x206) \<Longrightarrow> x - page_va 0x206 < 4096"
proof -
  assume "x \<in> header_bytes (mem reset_kernel) (page_va 0x206)"
  then obtain i :: nat where i: "x = page_va 0x206 + of_nat i" "i < 176"
    unfolding header_bytes_def reset_simps ramdisk_address program_header
  proof (elim UnE CollectE exE conjE)
    fix i assume "x = 0xffffffe000206000 + 64 + word_of_nat i" "i < 56 * unat (2 :: u16)"
    then show thesis using that [of "64 + i"] by (simp add: ramdisk_address)
  qed (use that in \<open>fastforce simp: ramdisk_address\<close>)
  have "unat (of_nat i :: u64) = i" using i(2) by (intro unat_of_nat_small) simp
  then show ?thesis using i by (simp add: word_less_nat_alt)
qed

lemma ramdisk_apart:
  assumes "q < 2 ^ 25" "q \<noteq> 0x206" "x - page_va 0x206 < 4096"
  shows "\<not> x - page_va q < 4096"
  using page_bytes_apart [OF page_va_page(1) page_va_page(1) _ assms(3), of q] assms page_va_inj [of q "0x206"]
  by auto

lemma reset_memory_ready: "reset_memory reset_image (mem reset_kernel)"
  unfolding reset_memory_def reset_frames reset_program reset_simps(2,3,5)
proof (intro conjI ballI allI impI)
  show "(0 :: nat) < 713" "(713 :: nat) + 72 + 1 < 2 ^ 13" by simp_all
  show "page_va 0x208 \<in> page_va ` {0 ..< 713}" by (rule imageI) simp
next
  fix x assume "x \<in> header_bytes (mem reset_kernel) (page_va 0x206)"
  then show "\<not> x - page_va 0x208 < 4096" using ramdisk_apart [of "0x208"] header_in_page by simp
next
  fix p assume p: "p \<in> page_pool 15 - page_va ` {0 ..< 713}"
  then obtain q where q: "p = page_va q" "q < 2 ^ 15" by (auto simp: page_pool_def)
  have "q \<notin> {0 ..< 713}" using p q(1) by blast
  then have q: "p = page_va q" "q < 2 ^ 25" "q \<noteq> 0x206" using q by auto
  { fix x assume "x \<in> header_bytes (mem reset_kernel) (page_va 0x206)"
    then show "\<not> x - p < 4096" using ramdisk_apart [OF q(2,3)] header_in_page q(1) by simp }
  { fix i :: u64 assume i: "i < 4096"
    have "\<not> p + i - page_va 0x206 < 4096" using ramdisk_apart [OF q(2,3), of "p + i"] i q(1) by auto
    then have "\<not> unat (p + i - page_va 0x206) < 176" by (simp add: word_less_nat_alt)
    then show "mem reset_kernel (p + i) = 0" by (simp add: reset_simps store_def tiny_length) }
qed

theorem boot_starts_witness:
  "\<exists>k' p tk. boot reset_image ram_device reset_kernel = Inr k' \<and> task k' = [idle k', p] \<and> current k' = p
     \<and> th_sepc (run_dummy (cpu k')) = 0x10078 \<and> th_sp (run_dummy (cpu k')) = USER_END
     \<and> fat32_volume (fs k') = \<lparr>first_data_sec = 18, first_fat_sec = 12, sec_per_cluster = 1, fat_sz = 3\<rparr>
     \<and> world k' = boot_log mount_content"
proof -
  have p: "console_out (firmware (on_board reset_image)) (\<lambda>w. w)" "timer_quiet (firmware (on_board reset_image)) (\<lambda>w. w)"
    using quiet by (simp_all add: reset_simps)
  have mem: "sections_ok (boundaries reset_image)" "length (task reset_kernel) = unat NR_TASKS"
    using boot_sections_ok by (simp_all add: reset_simps NR_TASKS_def)
  have early: "early_placed reset_image"
    by (simp add: early_placed_def reset_image_def physical_def layout)
  have dev: "disk_io (on_board reset_image) = virtio_io ram_device VM_START"
    "disk_present ram_view (disk (fs reset_kernel))"
    using mount_disk by (simp_all add: reset_simps)
  obtain k' p tk where "boot reset_image ram_device reset_kernel = Inr k'" "task k' = [idle k', p]" "current k' = p"
    "th_sepc (run_dummy (cpu k')) = e_entry (ehdr_in (mem reset_kernel) (page_va 0x206))"
    "th_sp (run_dummy (cpu k')) = USER_END"
    "fat32_volume (fs k') = mounted mount_content (partitions mount_content) (fat32_volume mount_fs)"
    "world k' = world reset_kernel @ boot_log mount_content"
    using boot_starts [OF p early mem(1) reset_memory_ready mem(2) dev(1) ram_serves ram_capacity dev(2)]
    unfolding reset_simps(2,5,10,11) by blast
  then show ?thesis
    by (simp add: reset_simps ramdisk_address program_header mounted_def mount_volumes mount_geometry)
qed

end
