(* ===== verification/Spec2Isabelle.thy ===== *)
theory Spec2Isabelle
  imports Buddy_Witness Sched_Test Vm_Witness Console_Witness Fork_Witness Process_Witness User_Witness
    Kernel_Map_Witness First_Thread_Witness Disk_Init_Witness Boot_Witness
begin

text \<open>
  Verification of a small RISC-V operating system: a kernel with a buddy page allocator, Sv39 page
  tables, demand paging and copy on write, a counter-based scheduler, a virtio block driver, a
  FAT32 file system, system calls and fork, and the shell that runs on it.

  \<^bold>\<open>How the program is modelled.\<close> Every C function is a HOL function that passes the state
  explicitly. Integers are words of their C width, so arithmetic wraps as it does there. A panic, a
  null pointer, an index outside an array, a pointer the page table does not allow and a loop that
  never ends are values of the type \<open>fault\<close> (theory \<open>Prelude\<close>), sequenced by \<open>bindr\<close>. Loops are
  recursive functions with a termination proof, \<open>for_range\<close> for counted ones; where a loop ends
  only if the data or a device says so it is a partial function with an option result or has fuel:
  two rounds for \<open>schedule_loop\<close> (\<open>schedule_loop_fuel\<close>: more change nothing), \<open>2 ^ 64\<close> steps for
  lists linked by addresses and \<open>2 ^ 52\<close> pages for \<open>fork_pages\<close> (after that many the walk is in a
  cycle), and for \<open>cluster_loop\<close> the offset plus 129, more than the 128 entries of a table sector.

  \<^bold>\<open>Theories and sources.\<close> Paths are below \<^verbatim>\<open>src/\<close>.
  \<^item> \<open>Prelude\<close>, \<open>Simulation\<close>: faults, arrays, loops, words; the locale of a simulation.
  \<^item> \<open>Layout\<close>, \<open>CMemory\<close>, \<open>Kernel_State\<close>: \<^verbatim>\<open>arch/riscv/include/defs.h\<close>, \<^verbatim>\<open>lib/string.c\<close>, and the
    state: \<open>machine\<close> (allocator and memory), \<open>kernel\<close> (tasks, areas, files, registers), \<open>hosted\<close>
    (with the world the firmware acts on) and \<open>system\<close> (with the file system).
  \<^item> \<open>Buddy\<close> with \<open>Buddy_Tree\<close>, \<open>Buddy_Refine\<close>, \<open>Buddy_Correct\<close>, \<open>Buddy_Init\<close>: \<^verbatim>\<open>arch/riscv/kernel/mm.c\<close>. The
    bitmap represents a tree of free and used blocks; each array routine refines its tree function.
  \<^item> \<open>Rand\<close>, \<open>Sched\<close> with \<open>Sched_Correct\<close>, \<open>Sched_Props\<close>, \<open>Sched_Test\<close>: \<^verbatim>\<open>lib/rand.c\<close> and the scheduler of
    \<^verbatim>\<open>arch/riscv/kernel/proc.c\<close>; it refines an abstract tick on counters, from which fairness follows.
  \<^item> \<open>PageTable\<close>, \<open>Vm\<close> with \<open>PageTable_Correct\<close>, \<open>PageTable_Kalloc\<close>, \<open>Kernel_Map\<close>, \<open>Vm_Correct\<close>: \<^verbatim>\<open>arch/riscv/kernel/vm.c\<close>.
    Mapping is proved from the interface \<open>page_source\<close> of the page allocator, which \<open>kalloc\<close> provides.
  \<^item> \<open>Format\<close>, \<open>Uaccess\<close>, \<open>Console\<close> with \<open>Format_Correct\<close>, \<open>Console_Props\<close>: \<^verbatim>\<open>lib/printk.c\<close>,
    \<^verbatim>\<open>arch/riscv/kernel/sbi.c\<close>, \<^verbatim>\<open>clock.c\<close> and \<^verbatim>\<open>fs/vfs.c\<close>.
  \<^item> \<open>Virtio\<close> with \<open>Virtio_Props\<close>, \<open>Virtio_Disk\<close>; \<open>Block_Device\<close>; \<open>Fat32\<close> with \<open>Fat32_Walk\<close>, \<open>Fat32_Correct\<close>,
    \<open>Fat32_Props\<close>: \<^verbatim>\<open>fs/virtio.c\<close>, \<^verbatim>\<open>fs/fat32.c\<close>. The file system is proved over the interface
    \<open>block_device\<close>, which the driver provides for every device that behaves as specified.
  \<^item> \<open>Files\<close>, \<open>Process\<close>, \<open>Syscall\<close> with \<open>Trap_Correct\<close>, \<open>Syscall_Correct\<close>, \<open>Openat_Correct\<close>, \<open>Fork_Correct\<close>,
    \<open>Isolation\<close>, \<open>Process_Correct\<close>: \<^verbatim>\<open>fs/fs.c\<close>, \<^verbatim>\<open>proc.c\<close>, \<^verbatim>\<open>syscall.c\<close>, \<^verbatim>\<open>trap.c\<close>, \<^verbatim>\<open>entry.S\<close>: open files, loading
    programs, fork, the system calls and the trap entry and exit.
  \<^item> \<open>Bring_Up\<close> with \<open>Mount\<close>, \<open>Disk_Init\<close>: the start of the disk, the end of \<^verbatim>\<open>fs/virtio.c\<close> and \<^verbatim>\<open>fs/mbr.c\<close>.
  \<^item> \<open>Early_Table\<close>: \<^verbatim>\<open>setup_vm\<close> of \<^verbatim>\<open>vm.c\<close> and \<^verbatim>\<open>relocate\<close> of \<^verbatim>\<open>head.S\<close>: the first page table and the switch to it.
  \<^item> \<open>Boot\<close> with \<open>First_Thread\<close>, \<open>Boot_Map\<close>, \<open>Boot_Correct\<close>: \<^verbatim>\<open>head.S\<close>, \<^verbatim>\<open>init/main.c\<close>, \<^verbatim>\<open>init/test.c\<close>: the
    order in which the parts are started, and the way from reset to the first program in user mode.
  \<^item> \<open>User\<close> with \<open>User_Correct\<close>: \<^verbatim>\<open>user/\<close>: the wrappers of the system calls, \<^verbatim>\<open>printf\<close> and the shell, whose line
    editor is proved from the interface \<open>terminal\<close>; \<open>User_Kernel\<close> shows that the traps, system calls and
    console of the kernel provide that interface, and so runs the shell on the kernel.
  \<^item> The theories named \<open>_Witness\<close> apply the properties to concrete states.
\<close>

text \<open>
  \<^bold>\<open>What the lemmas show.\<close> The allocator's invariant (\<open>mm_inv\<close>) is established by initialisation and
  kept by every operation; allocation takes the lowest free aligned block, refusal means there is
  none, and releasing the last reference undoes it. A page table stays a tree of distinct
  allocated pages (\<open>wf_pt\<close>); mapping, a copy-on-write fault, a demand fault and fork change exactly
  the translations they are meant to change, and the bytes the program sees are those of the
  shared page or of the image; after fork a write by one process is invisible to the other. The
  kernel's own table translates every address as the list of its ranges says. Context switches and
  trap frames restore the registers. \<open>task_init\<close> establishes the scheduler's invariant \<open>sched_wf\<close> that
  every tick keeps. The whole boot sequence, from reset to user mode, goes on in the
  direct map that the early table makes and reaches the first process
  with its own stack and page table, the volume of the disk mounted (\<open>boot_starts\<close>).
  Printed numbers read back as the numbers, and the counter of printed characters, which the model increments
  where the code does, is their number. A sector transfer moves exactly one sector; reading and
  writing a file goes through its cluster chain and what was written is read back. A read system call, from the trap to
  the frame it returns with, delivers the bytes of the file. The shell's line editing is a
  reference editor on lists, also when every key and every character goes through the kernel.

  \<^bold>\<open>Parameters and hypotheses.\<close> The firmware (\<open>platform\<close>; \<open>console_out\<close>: its debug console prints a
  byte and leaves memory alone; \<open>timer_quiet\<close>: the timer prints nothing), the virtio device (\<open>blk_device\<close>; \<open>serves\<close>: what the virtio
  specification says of a block device), the disk below the file system (\<open>sector_io\<close>;
  \<open>block_device\<close>), the addresses the linker chooses (\<open>board\<close>, \<open>sections\<close>, \<open>kernel_image\<close>), and for
  the user program what is behind \<^verbatim>\<open>ecall\<close> (\<open>ecalls\<close>). For the shell on the kernel these are the calls of the
  kernel's model (\<open>on_kernel\<close>), on a firmware console that shows what is written and delivers what is typed
  (\<open>console_io\<close>), with the buffers of the program mapped and the standard files open (\<open>under_shell\<close>).
  Booting assumes that the linker puts the kernel at the start of memory (\<open>early_placed\<close>). The page-table properties
  assume that free pages hold no valid entry (\<open>clean\<close>): \<^verbatim>\<open>kalloc\<close> does not clear pages, so this is
  true of memory that is zero at reset until pages are reused; \<open>task_init\<close> needs it for the whole page
  (\<open>memory_ready\<close>), because a new task keeps the list of areas that its page happens to hold. Booting
  starts from \<open>reset_memory\<close>, memory that is zero outside the image; the image, the tables of the
  kernel (at most 67 of them) and the first tasks leave a free run for the queue as long as they take less than
  8192 of the 32768 pages.

  \<^bold>\<open>Not modelled.\<close> Translation caches and fences; the compiled code, and instruction fetch except where
  \<open>relocate\<close> changes the table under it; the \<^verbatim>\<open>Log\<close> diagnostics: the model is the build with \<^verbatim>\<open>LOG=0\<close>, in which
  they are empty, while the default of the Makefile is \<^verbatim>\<open>LOG=1\<close>; a kernel access to
  a user page that is not present, which here is the fault \<open>Bad_Pointer\<close> and on the machine a nested
  page fault; the constants of \<^verbatim>\<open>include/elf.h\<close> that no code reads; header files of typedefs; the Makefiles, linker scripts and \<^verbatim>\<open>translate.py\<close>. Objects
  of different C types are in different stores, so an overflow of one array into another object is a
  fault, not a change of that object.
\<close>

end
